(* ===== verification/Prelude.thy ===== *)
theory Prelude
  imports Main
begin

text \<open>
  The shared ground of the development: the exceptions of the program as values, results and
  state-passing actions that may raise them, and the generic lemmas on lists that the components
  use. The collection \<open>outcome_simps\<close> holds the rules that run an action one statement at a
  time.
\<close>

named_theorems outcome_simps "unfolding of results and actions that may raise an exception"

section \<open>Exceptions\<close>

text \<open>
  What the program may throw, as far as a handler tells one from another. \<open>RuntimeError\<close> is
  a \<^verbatim>\<open>std::runtime_error\<close> thrown by the program's own code with its message.
  \<open>PqFailure\<close> is \<^verbatim>\<open>pqxx::failure\<close> and its subclasses (a broken connection, a
  constraint violation), which derive from \<^verbatim>\<open>std::runtime_error\<close>. \<open>PqConversion\<close> is
  \<^verbatim>\<open>pqxx::conversion_error\<close>, which derives from \<^verbatim>\<open>std::domain_error\<close>: reading a
  null field. \<open>JsonError\<close> is \<^verbatim>\<open>nlohmann::json::exception\<close>. \<open>InvalidArgument\<close> and
  \<open>OutOfRange\<close> are the exceptions of the numeric conversions. \<open>Trap\<close> is no exception at
  all: the process dies (an integer division by zero).
\<close>

datatype exn =
    RuntimeError string
  | PqFailure
  | PqConversion
  | JsonError
  | InvalidArgument
  | OutOfRange
  | Trap

fun is_runtime_error :: "exn \<Rightarrow> bool" where
  "is_runtime_error (RuntimeError _) = True"
| "is_runtime_error PqFailure = True"
| "is_runtime_error _ = False"

type_synonym 'a outcome = "exn + 'a"

section \<open>Actions on a state\<close>

text \<open>
  An action reads and changes a state \<open>'s\<close> and returns a value or raises an exception. The
  state at the point of the exception is kept: what becomes of it (a rollback, a file half
  written) is for the caller to say.
\<close>

type_synonym ('s, 'a) action = "'s \<Rightarrow> 'a outcome \<times> 's"

definition ret :: "'a \<Rightarrow> ('s, 'a) action" where
  "ret x = (\<lambda>s. (Inr x, s))"

definition throw :: "exn \<Rightarrow> ('s, 'a) action" where
  "throw e = (\<lambda>s. (Inl e, s))"

definition get :: "('s \<Rightarrow> 'a) \<Rightarrow> ('s, 'a) action" where
  "get f = (\<lambda>s. (Inr (f s), s))"

definition modify :: "('s \<Rightarrow> 's) \<Rightarrow> ('s, unit) action" where
  "modify f = (\<lambda>s. (Inr (), f s))"

definition andthen :: "('s, 'a) action \<Rightarrow> ('a \<Rightarrow> ('s, 'b) action) \<Rightarrow> ('s, 'b) action" where
  "andthen m f = (\<lambda>s. case m s of (Inl e, s') \<Rightarrow> (Inl e, s') | (Inr x, s') \<Rightarrow> f x s')"

definition require :: "bool \<Rightarrow> exn \<Rightarrow> ('s, unit) action" where
  "require b e = (if b then ret () else throw e)"

text \<open>The loop \<^verbatim>\<open>for (x : xs) body(x)\<close>, stopped by the first exception.\<close>

fun for_each :: "('a \<Rightarrow> ('s, unit) action) \<Rightarrow> 'a list \<Rightarrow> ('s, unit) action" where
  "for_each f [] = ret ()"
| "for_each f (x # xs) = andthen (f x) (\<lambda>_. for_each f xs)"

text \<open>The loop that also pushes back what its body yields, nothing or one element.\<close>

fun for_collect :: "('a \<Rightarrow> ('s, 'b option) action) \<Rightarrow> 'a list \<Rightarrow> ('s, 'b list) action" where
  "for_collect f [] = ret []"
| "for_collect f (x # xs) =
     andthen (f x) (\<lambda>y. andthen (for_collect f xs) (\<lambda>ys. ret (case y of None \<Rightarrow> ys | Some z \<Rightarrow> z # ys)))"

lemma ret_apply [outcome_simps]: "ret x s = (Inr x, s)"
  by (simp add: ret_def)

lemma throw_apply [outcome_simps]: "throw e s = (Inl e, s)"
  by (simp add: throw_def)

lemma get_apply [outcome_simps]: "get f s = (Inr (f s), s)"
  by (simp add: get_def)

lemma modify_apply [outcome_simps]: "modify f s = (Inr (), f s)"
  by (simp add: modify_def)

lemma andthen_Inr [outcome_simps]: "m s = (Inr x, t) \<Longrightarrow> andthen m f s = f x t"
  by (simp add: andthen_def)

lemma andthen_Inl [outcome_simps]: "m s = (Inl e, t) \<Longrightarrow> andthen m f s = (Inl e, t)"
  by (simp add: andthen_def)

lemma andthen_eq_Inr:
  "andthen m f s = (Inr y, t) \<longleftrightarrow> (\<exists>x u. m s = (Inr x, u) \<and> f x u = (Inr y, t))"
  by (auto simp: andthen_def split: prod.splits sum.splits)

lemma andthen_eq_Inl:
  "andthen m f s = (Inl e, t) \<longleftrightarrow>
     m s = (Inl e, t) \<or> (\<exists>x u. m s = (Inr x, u) \<and> f x u = (Inl e, t))"
  by (auto simp: andthen_def split: prod.splits sum.splits)

lemma andthen_get [outcome_simps]: "andthen (get f) k s = k (f s) s"
  by (simp add: andthen_def get_def)

lemma andthen_modify [outcome_simps]: "andthen (modify f) k s = k () (f s)"
  by (simp add: andthen_def modify_def)

lemma andthen_ret [outcome_simps]: "andthen (ret x) k s = k x s"
  by (simp add: andthen_def ret_def)

lemma andthen_throw [outcome_simps]: "andthen (throw e) k s = (Inl e, s)"
  by (simp add: andthen_def throw_def)

lemma require_eq_Inr [outcome_simps]: "require b e s = (Inr x, t) \<longleftrightarrow> b \<and> t = s"
  by (auto simp: require_def ret_def throw_def)

lemma require_eq_Inl [outcome_simps]: "require b e s = (Inl e', t) \<longleftrightarrow> \<not> b \<and> e' = e \<and> t = s"
  by (auto simp: require_def ret_def throw_def)

lemma andthen_require [outcome_simps]:
  "andthen (require b e) k s = (if b then k () s else (Inl e, s))"
  by (auto simp: require_def andthen_def ret_def throw_def)

lemma ret_eq_Inr [outcome_simps]: "ret x s = (Inr y, t) \<longleftrightarrow> y = x \<and> t = s"
  by (auto simp: ret_def)

lemma get_eq_Inr [outcome_simps]: "get f s = (Inr x, t) \<longleftrightarrow> x = f s \<and> t = s"
  by (auto simp: get_def)

lemma modify_eq_Inr [outcome_simps]: "modify f s = (Inr x, t) \<longleftrightarrow> t = f s"
  by (auto simp: modify_def)

lemma throw_eq_Inr [outcome_simps]: "throw e s = (Inr x, t) \<longleftrightarrow> False"
  by (simp add: throw_def)

section \<open>What an action preserves\<close>

text \<open>
  An action preserves a property of the state if it holds after the action, whether that returned
  or raised an exception. The collection \<open>preserves_intros\<close> takes a composed action apart.
\<close>

named_theorems preserves_intros "rules for properties that actions preserve"

definition preserves :: "('s \<Rightarrow> bool) \<Rightarrow> ('s, 'a) action \<Rightarrow> bool" where
  "preserves P m \<longleftrightarrow> (\<forall>s. P s \<longrightarrow> P (snd (m s)))"

lemma preservesD: "preserves P m \<Longrightarrow> m s = (r, t) \<Longrightarrow> P s \<Longrightarrow> P t"
  by (auto simp: preserves_def)

lemma preserves_ret [preserves_intros]: "preserves P (ret x)"
  by (simp add: preserves_def ret_def)

lemma preserves_throw [preserves_intros]: "preserves P (throw e)"
  by (simp add: preserves_def throw_def)

lemma preserves_get [preserves_intros]: "preserves P (get f)"
  by (simp add: preserves_def get_def)

lemma preserves_require [preserves_intros]: "preserves P (require b e)"
  by (simp add: preserves_def require_def ret_def throw_def)

lemma preserves_modify [preserves_intros]: "(\<And>s. P s \<Longrightarrow> P (f s)) \<Longrightarrow> preserves P (modify f)"
  by (simp add: preserves_def modify_def)

lemma preserves_andthen [preserves_intros]:
  "preserves P m \<Longrightarrow> (\<And>x. preserves P (f x)) \<Longrightarrow> preserves P (andthen m f)"
  by (auto simp: preserves_def andthen_def split: prod.splits sum.splits)

lemma preserves_for_each [preserves_intros]:
  "(\<And>x. x \<in> set xs \<Longrightarrow> preserves P (f x)) \<Longrightarrow> preserves P (for_each f xs)"
  by (induction xs) (auto intro!: preserves_intros)

lemma for_each_modify:
  "for_each (\<lambda>x. modify (f x)) xs s = (Inr (), fold f xs s)"
  by (induction xs arbitrary: s) (simp_all add: outcome_simps)

section \<open>Lists\<close>

text \<open>\<^verbatim>\<open>join\<close>: the elements with a separator between them.\<close>

fun join :: "string \<Rightarrow> string list \<Rightarrow> string" where
  "join sep [] = []"
| "join sep [x] = x"
| "join sep (x # y # zs) = x @ sep @ join sep (y # zs)"

lemma sum_list_map_filter_le:
  "(\<And>x. x \<in> set xs \<Longrightarrow> 0 \<le> (f x :: int)) \<Longrightarrow> sum_list (map f (filter P xs)) \<le> sum_list (map f xs)"
  by (induction xs) (auto intro: add_increasing)

lemma find_Some_in: "List.find P xs = Some x \<Longrightarrow> x \<in> set xs \<and> P x"
  by (induction xs) (auto split: if_splits)

lemma find_None_conv: "List.find P xs = None \<longleftrightarrow> (\<forall>x\<in>set xs. \<not> P x)"
  by (induction xs) auto

text \<open>A key names at most one row of a table whose keys are distinct.\<close>

lemma find_distinct_key:
  "distinct (map k xs) \<Longrightarrow> x \<in> set xs \<Longrightarrow> List.find (\<lambda>r. k r = k x) xs = Some x"
  by (induction xs) auto

lemma distinct_key_eq:
  "distinct (map k xs) \<Longrightarrow> x \<in> set xs \<Longrightarrow> y \<in> set xs \<Longrightarrow> k x = k y \<Longrightarrow> x = y"
  by (auto simp: distinct_map dest: inj_onD)

end
