(* ===== verification/Models.thy ===== *)
theory Models
  imports Prelude
begin

text \<open>
  The data shared by the client and the master: the structs of \<^verbatim>\<open>common/models.hpp\<close> and
  the structs of \<^verbatim>\<open>master/IMetadataRepository.hpp\<close>. A C++ \<^verbatim>\<open>int\<close> or
  \<^verbatim>\<open>long long\<close> is an \<open>int\<close> (its range is stated where it matters), a
  \<^verbatim>\<open>size_t\<close> a \<open>nat\<close>, a \<^verbatim>\<open>std::string\<close> and a \<^verbatim>\<open>std::vector<char>\<close>
  are both lists of bytes, the type \<open>string\<close>.
\<close>

section \<open>common/models.hpp\<close>

datatype TransferState = RUNNING | PAUSED | CANCELED

record NodeInfo =
  advertised_host :: string
  advertised_port :: int

record ChunkRoutingPlan =
  plan_hash :: string
  assigned_nodes :: "NodeInfo list"

record DownloadChunkMeta =
  meta_hash :: string
  meta_size :: nat

record FileDownloadManifest =
  file_size :: int
  plans :: "ChunkRoutingPlan list"

record UploadManifest =
  filepath :: string
  total_size :: int
  temp_modified_timestamp :: int
  session_timestamp :: int
  chunk_hashes :: "string list"
  completed_chunks :: "bool list"
  successfully_uploaded_count :: int

definition new_UploadManifest :: UploadManifest where
  "new_UploadManifest =
     \<lparr>filepath = [], total_size = 0, temp_modified_timestamp = 0, session_timestamp = 0,
      chunk_hashes = [], completed_chunks = [], successfully_uploaded_count = 0\<rparr>"

section \<open>master/IMetadataRepository.hpp\<close>

record WorkerLocation =
  loc_host :: string
  loc_port :: int

record OrphanedChunk =
  orphan_hash :: string
  locations :: "WorkerLocation list"

record UserRecord =
  found :: bool
  user_id :: int
  user_password_hash :: string
  user_salt :: string

definition new_UserRecord :: UserRecord where
  "new_UserRecord = \<lparr>found = False, user_id = 0, user_password_hash = [], user_salt = []\<rparr>"

section \<open>Integer types\<close>

text \<open>The ranges of the C++ types on the platform the build targets (LP64).\<close>

definition int_range :: "int \<Rightarrow> bool" where
  "int_range x \<longleftrightarrow> - (2 ^ 31) \<le> x \<and> x < 2 ^ 31"

definition llong_range :: "int \<Rightarrow> bool" where
  "llong_range x \<longleftrightarrow> - (2 ^ 63) \<le> x \<and> x < 2 ^ 63"

text \<open>\<^verbatim>\<open>static_cast<size_t>\<close> and \<^verbatim>\<open>static_cast<long long>\<close> between the 64-bit types.\<close>

definition to_size_t :: "int \<Rightarrow> nat" where
  "to_size_t x = nat (x mod 2 ^ 64)"

definition to_llong :: "int \<Rightarrow> int" where
  "to_llong x = (x + 2 ^ 63) mod 2 ^ 64 - 2 ^ 63"

lemma to_size_t_id: "0 \<le> x \<Longrightarrow> x < 2 ^ 64 \<Longrightarrow> to_size_t x = nat x"
  by (simp add: to_size_t_def)

lemma to_llong_id: "llong_range x \<Longrightarrow> to_llong x = x"
  by (simp add: to_llong_def llong_range_def)

lemma to_llong_range: "llong_range (to_llong x)"
  by (simp add: to_llong_def llong_range_def)

text \<open>A wider integer as the \<^verbatim>\<open>int\<close> it is passed as.\<close>

definition to_int32 :: "int \<Rightarrow> int" where
  "to_int32 n = (n + 2 ^ 31) mod 2 ^ 32 - 2 ^ 31"

lemma to_int32_id: "int_range n \<Longrightarrow> to_int32 n = n"
  by (simp add: to_int32_def int_range_def)

end
