(* ===== verification/Std_Text.thy ===== *)
theory Std_Text
  imports Models "HOL-Library.Word"
begin

text \<open>
  The text conversions of the C++ standard library that the program uses, byte for byte:
  \<^verbatim>\<open>std::to_string\<close>, \<^verbatim>\<open>std::stoi\<close>, \<^verbatim>\<open>std::stoll\<close>, \<^verbatim>\<open>std::stoul\<close>, reading
  integers from a stream, splitting with \<^verbatim>\<open>std::getline\<close>, printing bytes in hexadecimal.
  The lemmas are the round trips between printing and reading.
\<close>

section \<open>Characters and digits\<close>

definition code :: "char \<Rightarrow> nat" where
  "code c = of_char c"

text \<open>\<^verbatim>\<open>isspace\<close> in the C locale.\<close>

definition is_space :: "char \<Rightarrow> bool" where
  "is_space c \<longleftrightarrow> code c = 32 \<or> (9 \<le> code c \<and> code c \<le> 13)"

definition digit_of :: "char \<Rightarrow> nat option" where
  "digit_of c =
     (if 48 \<le> code c \<and> code c \<le> 57 then Some (code c - 48)
      else if 97 \<le> code c \<and> code c \<le> 122 then Some (code c - 87)
      else if 65 \<le> code c \<and> code c \<le> 90 then Some (code c - 55)
      else None)"

definition is_digit :: "nat \<Rightarrow> char \<Rightarrow> bool" where
  "is_digit b c \<longleftrightarrow> (case digit_of c of None \<Rightarrow> False | Some d \<Rightarrow> d < b)"

definition digit_char :: "nat \<Rightarrow> char" where
  "digit_char d = char_of (if d < 10 then 48 + d else 87 + d)"

definition digits_value :: "int \<Rightarrow> string \<Rightarrow> int" where
  "digits_value b cs = foldl (\<lambda>a c. a * b + int (the (digit_of c))) 0 cs"

lemma code_digit_char: "d < 16 \<Longrightarrow> code (digit_char d) = (if d < 10 then 48 + d else 87 + d)"
  by (simp add: code_def digit_char_def)

lemma digit_of_digit_char [simp]: "d < 16 \<Longrightarrow> digit_of (digit_char d) = Some d"
  by (auto simp: digit_of_def code_digit_char)

lemma is_digit_digit_char [simp]: "d < b \<Longrightarrow> d < 16 \<Longrightarrow> is_digit b (digit_char d)"
  by (simp add: is_digit_def)

lemma digit_char_not_space [simp]: "d < 16 \<Longrightarrow> \<not> is_space (digit_char d)"
  by (auto simp: is_space_def code_digit_char)

lemma digit_char_neq [simp]:
  "d < 16 \<Longrightarrow> digit_char d \<noteq> CHR ''.''" "d < 16 \<Longrightarrow> digit_char d \<noteq> CHR ''-''"
  "d < 16 \<Longrightarrow> digit_char d \<noteq> CHR ''+''"
  using code_digit_char [of d] by (auto simp: code_def split: if_splits)

section \<open>std::to_string\<close>

function dec :: "int \<Rightarrow> string" where
  "dec n = (if n < 10 then [digit_char (nat n)] else dec (n div 10) @ [digit_char (nat (n mod 10))])"
  by pat_completeness auto
termination
  by (relation "measure nat") auto

declare dec.simps [simp del]

definition to_string :: "int \<Rightarrow> string" where
  "to_string n = (if n < 0 then ''-'' @ dec (- n) else dec n)"

lemma dec_nonempty [simp]: "dec n \<noteq> []"
  by (subst dec.simps) simp

lemma dec_digits: "0 \<le> n \<Longrightarrow> c \<in> set (dec n) \<Longrightarrow> \<exists>d<10. c = digit_char d"
proof (induction n rule: dec.induct)
  case (1 n)
  show ?case
  proof (cases "n < 10")
    case True
    then have "c = digit_char (nat n)" using "1.prems" by (subst (asm) dec.simps) auto
    then show ?thesis using True by (intro exI [of _ "nat n"]) auto
  next
    case False
    with "1.prems" have "c \<in> set (dec (n div 10)) \<or> c = digit_char (nat (n mod 10))"
      by (subst (asm) dec.simps) auto
    then show ?thesis
    proof
      assume "c \<in> set (dec (n div 10))"
      with "1.IH" False show ?thesis by auto
    next
      assume "c = digit_char (nat (n mod 10))"
      moreover have "nat (n mod 10) < 10" by (simp add: nat_less_iff)
      ultimately show ?thesis by blast
    qed
  qed
qed

lemma dec_all_digits: "0 \<le> n \<Longrightarrow> \<forall>c\<in>set (dec n). is_digit 10 c"
proof
  fix c assume "0 \<le> n" "c \<in> set (dec n)"
  then obtain d where "d < 10" "c = digit_char d" using dec_digits by blast
  then show "is_digit 10 c" by simp
qed

lemma digits_value_snoc: "digits_value b (cs @ [c]) = digits_value b cs * b + int (the (digit_of c))"
  by (simp add: digits_value_def)

lemma digits_value_dec [simp]: "0 \<le> n \<Longrightarrow> digits_value 10 (dec n) = n"
proof (induction n rule: dec.induct)
  case (1 n)
  show ?case
  proof (cases "n < 10")
    case True
    then show ?thesis using "1.prems" by (subst dec.simps) (simp add: digits_value_def)
  next
    case False
    have "nat (n mod 10) < 16" by (simp add: nat_less_iff)
    then show ?thesis using 1 False by (subst dec.simps) (simp add: digits_value_snoc)
  qed
qed

section \<open>Reading numbers\<close>

text \<open>
  The common core of \<^verbatim>\<open>strtol\<close>, \<^verbatim>\<open>strtoll\<close> and \<^verbatim>\<open>strtoul\<close>: skip white space, an
  optional sign, in base 16 an optional \<^verbatim>\<open>0x\<close> that a digit follows, then the longest run of
  digits. No digits is no conversion. The result is the sign, the magnitude and the unread rest.
\<close>

definition drop_sign :: "string \<Rightarrow> bool \<times> string" where
  "drop_sign s =
     (case s of [] \<Rightarrow> (False, s)
      | c # cs \<Rightarrow> if c = CHR ''-'' then (True, cs) else if c = CHR ''+'' then (False, cs) else (False, s))"

definition drop_0x :: "nat \<Rightarrow> string \<Rightarrow> string" where
  "drop_0x b s =
     (case s of z # x # d # cs \<Rightarrow>
        if b = 16 \<and> z = CHR ''0'' \<and> (x = CHR ''x'' \<or> x = CHR ''X'') \<and> is_digit 16 d
        then d # cs else s
      | _ \<Rightarrow> s)"

definition strto :: "nat \<Rightarrow> string \<Rightarrow> (bool \<times> int \<times> string) option" where
  "strto b s =
     (let (neg, s1) = drop_sign (dropWhile is_space s);
          s2 = drop_0x b s1;
          ds = takeWhile (is_digit b) s2
      in if ds = [] then None else Some (neg, digits_value (int b) ds, dropWhile (is_digit b) s2))"

definition signed :: "bool \<Rightarrow> int \<Rightarrow> int" where
  "signed neg m = (if neg then - m else m)"

text \<open>\<^verbatim>\<open>std::stoi\<close> and \<^verbatim>\<open>std::stoll\<close> in base 10: the rest of the text is ignored.\<close>

definition stoi :: "string \<Rightarrow> int outcome" where
  "stoi s = (case strto 10 s of
       None \<Rightarrow> Inl InvalidArgument
     | Some (neg, m, _) \<Rightarrow> if int_range (signed neg m) then Inr (signed neg m) else Inl OutOfRange)"

definition stoll :: "string \<Rightarrow> int outcome" where
  "stoll s = (case strto 10 s of
       None \<Rightarrow> Inl InvalidArgument
     | Some (neg, m, _) \<Rightarrow> if llong_range (signed neg m) then Inr (signed neg m) else Inl OutOfRange)"

text \<open>\<^verbatim>\<open>std::stoul\<close>: the magnitude must fit 64 bits, a minus sign negates it modulo \<open>2 ^ 64\<close>.\<close>

definition stoul :: "nat \<Rightarrow> string \<Rightarrow> 64 word outcome" where
  "stoul b s = (case strto b s of
       None \<Rightarrow> Inl InvalidArgument
     | Some (neg, m, _) \<Rightarrow>
         if m < 2 ^ 64 then Inr (if neg then - word_of_int m else word_of_int m) else Inl OutOfRange)"

lemma dropWhile_head: "xs \<noteq> [] \<Longrightarrow> \<not> P (hd xs) \<Longrightarrow> dropWhile P xs = xs"
  by (cases xs) auto

lemma hd_dec: "0 \<le> n \<Longrightarrow> \<exists>d<10. hd (dec n) = digit_char d"
  by (rule dec_digits [of n]) simp_all

lemma drop_sign_dec: "0 \<le> n \<Longrightarrow> drop_sign (dec n @ r) = (False, dec n @ r)"
proof -
  assume "0 \<le> n"
  then obtain d where "d < 10" "hd (dec n) = digit_char d" using hd_dec by blast
  moreover obtain c cs where "dec n = c # cs" by (cases "dec n") auto
  ultimately show ?thesis by (simp add: drop_sign_def)
qed

lemma skip_space_dec: "0 \<le> n \<Longrightarrow> dropWhile is_space (dec n @ r) = dec n @ r"
proof (rule dropWhile_head)
  assume "0 \<le> n"
  then obtain d where "d < 10" "hd (dec n) = digit_char d" using hd_dec by blast
  then show "\<not> is_space (hd (dec n @ r))" by simp
qed simp

lemma drop_0x_10 [simp]: "drop_0x 10 s = s"
  by (simp add: drop_0x_def split: list.split)

lemma takeWhile_all_append:
  "\<forall>c\<in>set xs. P c \<Longrightarrow> r = [] \<or> \<not> P (hd r) \<Longrightarrow> takeWhile P (xs @ r) = xs \<and> dropWhile P (xs @ r) = r"
  by (induction xs) (cases r; auto)+

text \<open>Reading back what was printed, whatever follows the number.\<close>

lemma strto_to_string:
  assumes "r = [] \<or> \<not> is_digit 10 (hd r)"
  shows "strto 10 (to_string n @ r) = Some (n < 0, \<bar>n\<bar>, r)"
proof -
  have run: "takeWhile (is_digit 10) (dec m @ r) = dec m \<and> dropWhile (is_digit 10) (dec m @ r) = r"
    if "0 \<le> m" for m
    using dec_all_digits [OF that] assms by (rule takeWhile_all_append)
  show ?thesis
  proof (cases "n < 0")
    case True
    have "dropWhile is_space (''-'' @ dec (- n) @ r) = ''-'' @ dec (- n) @ r"
      by (simp add: is_space_def code_def)
    then show ?thesis using True run
      by (simp add: strto_def to_string_def drop_sign_def)
  next
    case False
    then show ?thesis using run
      by (simp add: strto_def to_string_def skip_space_dec drop_sign_dec)
  qed
qed

lemma signed_abs [simp]: "signed (n < 0) \<bar>n\<bar> = n"
  by (simp add: signed_def)

lemma stoi_to_string [simp]: "int_range n \<Longrightarrow> stoi (to_string n) = Inr n"
  using strto_to_string [of "[]" n] by (simp add: stoi_def)

lemma stoll_to_string [simp]: "llong_range n \<Longrightarrow> stoll (to_string n) = Inr n"
  using strto_to_string [of "[]" n] by (simp add: stoll_def)

lemma to_string_nonempty [simp]: "to_string n \<noteq> []"
  by (simp add: to_string_def)

lemma to_string_no_dot: "CHR ''.'' \<notin> set (to_string n)"
proof -
  have "CHR ''.'' \<notin> set (dec m)" if "0 \<le> m" for m
  proof
    assume "CHR ''.'' \<in> set (dec m)"
    with that obtain d where "d < 10" "CHR ''.'' = digit_char d" using dec_digits by blast
    then show False using digit_char_neq(1) [of d] by simp
  qed
  then show ?thesis by (simp add: to_string_def)
qed

lemma to_string_inj: "to_string m = to_string n \<Longrightarrow> m = n"
proof -
  assume eq: "to_string m = to_string n"
  have "strto 10 (to_string m) = Some (m < 0, \<bar>m\<bar>, [])"
    "strto 10 (to_string n) = Some (n < 0, \<bar>n\<bar>, [])"
    using strto_to_string [of "[]"] by auto
  with eq show "m = n" by auto
qed

section \<open>Reading integers from a stream\<close>

text \<open>
  \<^verbatim>\<open>while (stream >> n)\<close>: each extraction skips white space and reads one integer; a value
  that is no \<^verbatim>\<open>int\<close>, or text that is no number, ends the loop.
\<close>

definition extract_int :: "string \<Rightarrow> (int \<times> string) option" where
  "extract_int s = (case strto 10 s of
       None \<Rightarrow> None
     | Some (neg, m, r) \<Rightarrow> if int_range (signed neg m) then Some (signed neg m, r) else None)"

lemma length_drop_sign: "length (snd (drop_sign s)) \<le> length s"
  by (simp add: drop_sign_def split: list.split)

lemma strto_shorter: "strto 10 s = Some (neg, m, r) \<Longrightarrow> length r < length s"
proof -
  assume "strto 10 s = Some (neg, m, r)"
  then obtain s1 where s1: "s1 = snd (drop_sign (dropWhile is_space s))"
    and ne: "takeWhile (is_digit 10) s1 \<noteq> []" and r: "r = dropWhile (is_digit 10) s1"
    by (auto simp: strto_def Let_def split: prod.splits if_splits)
  have "length s1 = length (takeWhile (is_digit 10) s1) + length r"
    using r by (metis length_append takeWhile_dropWhile_id)
  moreover have "0 < length (takeWhile (is_digit 10) s1)" using ne by blast
  moreover have "length s1 \<le> length s"
    using s1 length_drop_sign [of "dropWhile is_space s"] length_dropWhile_le [of is_space s] by simp
  ultimately show "length r < length s" by linarith
qed

lemma extract_int_shorter [termination_simp]:
  "extract_int s = Some (n, r) \<Longrightarrow> length r < length s"
  by (auto simp: extract_int_def split: option.splits if_splits dest: strto_shorter)

fun extract_ints :: "string \<Rightarrow> int list" where
  "extract_ints s = (case extract_int s of None \<Rightarrow> [] | Some (n, r) \<Rightarrow> n # extract_ints r)"

declare extract_ints.simps [simp del]

text \<open>What \<^verbatim>\<open>stream << n << newline\<close> wrote for a list of integers.\<close>

definition print_lines :: "int list \<Rightarrow> string" where
  "print_lines ns = concat (map (\<lambda>n. to_string n @ [CHR 10]) ns)"

lemma print_lines_append: "print_lines (xs @ ys) = print_lines xs @ print_lines ys"
  by (simp add: print_lines_def)

lemma strto_skip: "is_space c \<Longrightarrow> strto b (c # s) = strto b s"
  by (simp add: strto_def)

lemma extract_ints_newline: "extract_ints (CHR 10 # s) = extract_ints s"
  by (subst (1 2) extract_ints.simps)
    (simp add: extract_int_def strto_skip is_space_def code_def)

lemma extract_ints_print:
  "\<forall>n\<in>set ns. int_range n \<Longrightarrow> extract_ints (print_lines ns @ s) = ns @ extract_ints s"
proof (induction ns)
  case Nil
  then show ?case by (simp add: print_lines_def)
next
  case (Cons n ns)
  let ?r = "CHR 10 # print_lines ns @ s"
  have "\<not> is_digit 10 (CHR 10)" by (simp add: is_digit_def digit_of_def code_def)
  then have "strto 10 (to_string n @ ?r) = Some (n < 0, \<bar>n\<bar>, ?r)"
    by (intro strto_to_string) simp
  then have "extract_int (print_lines (n # ns) @ s) = Some (n, ?r)"
    using Cons.prems by (simp add: extract_int_def print_lines_def)
  then show ?case using Cons
    by (subst extract_ints.simps) (simp add: extract_ints_newline)
qed

section \<open>std::getline with a delimiter\<close>

text \<open>
  \<^verbatim>\<open>while (std::getline(ss, segment, d)) segments.push_back(segment)\<close>: a delimiter at the
  very end starts no further segment.
\<close>

function getline_all :: "char \<Rightarrow> string \<Rightarrow> string list" where
  "getline_all d s =
     (if s = [] then []
      else takeWhile (\<lambda>c. c \<noteq> d) s # getline_all d (tl (dropWhile (\<lambda>c. c \<noteq> d) s)))"
  by pat_completeness auto
termination
proof (relation "measure (\<lambda>(d, s). length s)")
  fix d :: char and s :: string
  assume "s \<noteq> []"
  then have "0 < length s" by simp
  then show "((d, tl (dropWhile (\<lambda>c. c \<noteq> d) s)), (d, s)) \<in> measure (\<lambda>(d, s). length s)"
    using length_dropWhile_le [of "\<lambda>c. c \<noteq> d" s] by (auto simp del: length_greater_0_conv)
qed simp

declare getline_all.simps [simp del]

lemma getline_all_Nil [simp]: "getline_all d [] = []"
  by (subst getline_all.simps) simp

lemma getline_all_last: "d \<notin> set s \<Longrightarrow> s \<noteq> [] \<Longrightarrow> getline_all d s = [s]"
proof -
  assume d: "d \<notin> set s" and s: "s \<noteq> []"
  have "takeWhile (\<lambda>c. c \<noteq> d) s = s"
    using d by (auto simp: takeWhile_eq_all_conv)
  moreover have "dropWhile (\<lambda>c. c \<noteq> d) s = []"
    using d by (auto simp: dropWhile_eq_Nil_conv)
  ultimately show ?thesis using s getline_all.simps [of d s]
    by (simp only: if_False list.sel getline_all_Nil)
qed

lemma getline_all_step: "d \<notin> set s \<Longrightarrow> getline_all d (s @ d # r) = s # getline_all d r"
proof -
  assume d: "d \<notin> set s"
  then have "takeWhile (\<lambda>c. c \<noteq> d) (s @ d # r) = s \<and> dropWhile (\<lambda>c. c \<noteq> d) (s @ d # r) = d # r"
    by (intro takeWhile_all_append) auto
  then show ?thesis by (subst getline_all.simps) simp
qed

section \<open>Bytes in hexadecimal\<close>

text \<open>
  \<^verbatim>\<open>ss << std::hex << std::setfill('0') << std::setw(2) << static_cast<int>(b)\<close> for every
  unsigned byte \<open>b\<close>.
\<close>

definition hex_byte :: "char \<Rightarrow> string" where
  "hex_byte c = [digit_char (code c div 16), digit_char (code c mod 16)]"

definition hex_string :: "string \<Rightarrow> string" where
  "hex_string bs = concat (map hex_byte bs)"

lemma code_less [simp]: "code c < 256"
  by (simp add: code_def)

lemma code_div_16 [simp]: "code c div 16 < 16"
  using code_less [of c] by (simp add: less_mult_imp_div_less)

lemma length_hex_string [simp]: "length (hex_string bs) = 2 * length bs"
  by (induction bs) (simp_all add: hex_string_def hex_byte_def)

lemma hex_string_digit: "c \<in> set (hex_string bs) \<Longrightarrow> \<exists>d<16. c = digit_char d"
  unfolding hex_string_def hex_byte_def
  by (auto intro: exI [where x = "code _ div 16"] exI [where x = "code _ mod 16"])

lemma hex_string_no_dot: "CHR ''.'' \<notin> set (hex_string bs)"
proof
  assume "CHR ''.'' \<in> set (hex_string bs)"
  then obtain d where "d < 16" "CHR ''.'' = digit_char d" using hex_string_digit by blast
  then show False using digit_char_neq(1) [of d] by simp
qed

lemma digit_char_inj: "d < 16 \<Longrightarrow> e < 16 \<Longrightarrow> digit_char d = digit_char e \<Longrightarrow> d = e"
  using digit_of_digit_char by (metis option.inject)

lemma hex_byte_inj: "hex_byte c = hex_byte d \<Longrightarrow> c = d"
proof -
  assume "hex_byte c = hex_byte d"
  then have "code c div 16 = code d div 16" "code c mod 16 = code d mod 16"
    by (auto simp: hex_byte_def intro!: digit_char_inj)
  then have "code c = code d" by (metis mult_div_mod_eq)
  then show "c = d" by (simp add: code_def)
qed

lemma hex_string_inj: "hex_string xs = hex_string ys \<Longrightarrow> xs = ys"
proof (induction xs arbitrary: ys)
  case Nil
  then show ?case by (cases ys) (auto simp: hex_string_def hex_byte_def)
next
  case (Cons x xs)
  then obtain y zs where ys: "ys = y # zs"
    by (cases ys) (auto simp: hex_string_def hex_byte_def)
  with Cons.prems have "hex_byte x @ hex_string xs = hex_byte y @ hex_string zs"
    by (simp add: hex_string_def)
  then have "hex_byte x = hex_byte y" "hex_string xs = hex_string zs"
    by (simp_all add: hex_byte_def)
  with Cons.IH ys show ?case by (simp add: hex_byte_inj)
qed

section \<open>Paths\<close>

text \<open>\<^verbatim>\<open>std::filesystem::path::operator/\<close> on a POSIX system.\<close>

definition path_append :: "string \<Rightarrow> string \<Rightarrow> string" where
  "path_append dir p =
     (if p \<noteq> [] \<and> hd p = CHR ''/'' then p
      else if dir = [] \<or> last dir = CHR ''/'' then dir @ p
      else dir @ ''/'' @ p)"

text \<open>The last component, \<^verbatim>\<open>path::filename()\<close>.\<close>

definition path_filename :: "string \<Rightarrow> string" where
  "path_filename p = rev (takeWhile (\<lambda>c. c \<noteq> CHR ''/'') (rev p))"

end
