(* ===== verification/Database.thy ===== *)
theory Database
  imports Std_Text "HOL-Library.Multiset"
begin

text \<open>
  The metadata store: the tables of \<^verbatim>\<open>db/init.sql\<close> as lists of rows, and what the master
  relies on of PostgreSQL and libpqxx, which are not part of the repository. A transaction either
  commits all its statements or leaves the tables as they were.
\<close>

section \<open>Tables\<close>

record worker_row =
  worker_id :: int
  internal_host :: string
  internal_port :: int
  w_advertised_host :: string
  w_advertised_port :: int
  free_space :: int
  status :: string
  last_heartbeat :: int

record user_row =
  uid :: int
  email :: string
  password_hash :: string
  salt :: string

record file_row =
  file_id :: int
  owner :: int
  filename :: string
  file_bytes :: int
  file_chunks :: "string list"

record chunk_row =
  chunk_hash :: string
  nodes :: "int list"
  ref_count :: int
  created_at :: int

record cluster_row =
  cluster_id :: int
  cluster_name :: string
  active_nodes :: "int list"

record shard_row =
  bucket_id :: int
  shard_cluster :: int

record db =
  worker_nodes :: "worker_row list"
  users :: "user_row list"
  files :: "file_row list"
  chunks :: "chunk_row list"
  clusters :: "cluster_row list"
  shard_map :: "shard_row list"
  worker_seq :: int
  user_seq :: int
  file_seq :: int
  cluster_seq :: int

text \<open>The tables \<^verbatim>\<open>init.sql\<close> creates: empty, with every serial column starting at 1.\<close>

definition empty_db :: db where
  "empty_db = \<lparr>worker_nodes = [], users = [], files = [], chunks = [], clusters = [],
     shard_map = [], worker_seq = 1, user_seq = 1, file_seq = 1, cluster_seq = 1\<rparr>"

section \<open>What the program relies on of PostgreSQL\<close>

text \<open>
  One value of type \<open>pg\<close> is the server as one transaction meets it: whether the connection is
  made and the commit goes through, the transaction's timestamp in microseconds, which texts fit
  a \<^verbatim>\<open>VARCHAR(n)\<close> column, how array literals are read and written, and which rows a
  \<^verbatim>\<open>LIMIT\<close> without an \<^verbatim>\<open>ORDER BY\<close> keeps (for the orphan query, after
  \<^verbatim>\<open>SKIP LOCKED\<close>), and the version it names.
\<close>

record pg =
  connects :: bool
  commits :: bool
  clock :: int
  varchar_fits :: "nat \<Rightarrow> string \<Rightarrow> bool"
  text_array_in :: "string \<Rightarrow> string list option"
  text_array_out :: "string list \<Rightarrow> string"
  int_array_in :: "string \<Rightarrow> int list option"
  int_array_out :: "int list \<Rightarrow> string"
  limit_chunks :: "int \<Rightarrow> string list \<Rightarrow> string list"
  limit_buckets :: "int \<Rightarrow> int list \<Rightarrow> int list"
  server_version :: string

definition hours :: "int \<Rightarrow> int" where
  "hours h = h * 3600000000"

text \<open>A text that is an array element without quoting: a SHA-256 hash in hexadecimal is one.\<close>

definition plain_element :: "string \<Rightarrow> bool" where
  "plain_element h \<longleftrightarrow> h \<noteq> [] \<and> (\<forall>c\<in>set h. is_digit 16 c)"

definition array_literal :: "string list \<Rightarrow> string" where
  "array_literal xs = ''{'' @ join '','' xs @ ''}''"

text \<open>
  The documented behaviour: a literal of unquoted elements is read as the list of them, what the
  server writes, quoted where it has to be, it reads back, and \<^verbatim>\<open>LIMIT n\<close> keeps at most \<open>n\<close> of the rows (and as many as
  there are, where no lock hides any).
\<close>

definition arrays_ok :: "pg \<Rightarrow> bool" where
  "arrays_ok pg \<longleftrightarrow>
     (\<forall>hs. (\<forall>h\<in>set hs. plain_element h) \<longrightarrow> text_array_in pg (array_literal hs) = Some hs) \<and>
     (\<forall>hs. text_array_in pg (text_array_out pg hs) = Some hs) \<and>
     (\<forall>ns. (\<forall>n\<in>set ns. int_range n) \<longrightarrow>
        int_array_in pg (array_literal (map to_string ns)) = Some ns \<and>
        int_array_in pg (int_array_out pg ns) = Some ns)"

definition limits_ok :: "pg \<Rightarrow> bool" where
  "limits_ok pg \<longleftrightarrow>
     (\<forall>n hs. mset (limit_chunks pg n hs) \<subseteq># mset hs \<and> int (length (limit_chunks pg n hs)) \<le> max 0 n) \<and>
     (\<forall>n bs. mset (limit_buckets pg n bs) \<subseteq># mset bs \<and>
        length (limit_buckets pg n bs) = min (nat n) (length bs))"

definition pg_ok :: "pg \<Rightarrow> bool" where
  "pg_ok pg \<longleftrightarrow> arrays_ok pg \<and> limits_ok pg"

section \<open>Transactions\<close>

text \<open>
  \<^verbatim>\<open>pqxx::connection conn(...); pqxx::work txn(conn); body; txn.commit();\<close> When the body
  throws, the destructor of the transaction rolls it back.
\<close>

definition transact :: "pg \<Rightarrow> (db, 'a) action \<Rightarrow> (db, 'a) action" where
  "transact pg body = (\<lambda>s.
     if \<not> connects pg then (Inl PqFailure, s)
     else case body s of
         (Inl e, _) \<Rightarrow> (Inl e, s)
       | (Inr x, s') \<Rightarrow> if commits pg then (Inr x, s') else (Inl PqFailure, s))"

lemma transact_eq_Inr:
  "transact pg body s = (Inr x, t) \<longleftrightarrow> connects pg \<and> commits pg \<and> body s = (Inr x, t)"
  by (auto simp: transact_def split: prod.splits sum.splits)

lemma transact_Inl: "transact pg body s = (Inl e, t) \<Longrightarrow> t = s"
  by (auto simp: transact_def split: prod.splits sum.splits if_splits)

lemma preserves_transact [preserves_intros]: "preserves P body \<Longrightarrow> preserves P (transact pg body)"
  by (auto simp: preserves_def transact_def split: prod.splits sum.splits)

text \<open>
  What a library call of libpqxx does with a null field: \<^verbatim>\<open>as<T>()\<close> throws.
\<close>

definition as_field :: "'a option \<Rightarrow> (db, 'a) action" where
  "as_field v = (case v of None \<Rightarrow> throw PqConversion | Some x \<Rightarrow> ret x)"

lemma as_field_Some [outcome_simps]: "as_field (Some x) = ret x"
  by (simp add: as_field_def)

lemma as_field_None [outcome_simps]: "as_field None = throw PqConversion"
  by (simp add: as_field_def)

lemma as_field_eq_Inr [outcome_simps]: "as_field v s = (Inr x, t) \<longleftrightarrow> v = Some x \<and> t = s"
  by (auto simp: as_field_def ret_def throw_def split: option.splits)

section \<open>Looking rows up\<close>

definition find_chunk :: "string \<Rightarrow> db \<Rightarrow> chunk_row option" where
  "find_chunk h d = List.find (\<lambda>r. chunk_hash r = h) (chunks d)"

definition update_chunks :: "(chunk_row \<Rightarrow> bool) \<Rightarrow> (chunk_row \<Rightarrow> chunk_row) \<Rightarrow> db \<Rightarrow> db" where
  "update_chunks p u d = d\<lparr>chunks := map (\<lambda>r. if p r then u r else r) (chunks d)\<rparr>"

lemma find_chunk_Some: "find_chunk h d = Some r \<Longrightarrow> r \<in> set (chunks d) \<and> chunk_hash r = h"
  unfolding find_chunk_def by (rule find_Some_in)

lemma find_chunk_None: "find_chunk h d = None \<longleftrightarrow> h \<notin> chunk_hash ` set (chunks d)"
  by (auto simp: find_chunk_def find_None_conv)

lemma find_chunk_in:
  "distinct (map chunk_hash (chunks d)) \<Longrightarrow> r \<in> set (chunks d) \<Longrightarrow> find_chunk (chunk_hash r) d = Some r"
  unfolding find_chunk_def by (rule find_distinct_key)

lemma find_map_key:
  "(\<And>r. k (u r) = k r) \<Longrightarrow> List.find (\<lambda>r. k r = h) (map u rs) = map_option u (List.find (\<lambda>r. k r = h) rs)"
  by (induction rs) auto

lemma find_update_chunks:
  assumes "\<And>r. chunk_hash (u r) = chunk_hash r"
  shows "find_chunk h (update_chunks p u d) = map_option (\<lambda>r. if p r then u r else r) (find_chunk h d)"
  using assms by (simp add: find_chunk_def update_chunks_def find_map_key)

lemma update_chunks_hashes:
  assumes "\<And>r. chunk_hash (u r) = chunk_hash r"
  shows "map chunk_hash (chunks (update_chunks p u d)) = map chunk_hash (chunks d)"
  using assms by (simp add: update_chunks_def)

lemma update_chunks_frame [simp]:
  "files (update_chunks p u d) = files d" "worker_nodes (update_chunks p u d) = worker_nodes d"
  "users (update_chunks p u d) = users d" "clusters (update_chunks p u d) = clusters d"
  "shard_map (update_chunks p u d) = shard_map d"
  by (simp_all add: update_chunks_def)

text \<open>
  \<^verbatim>\<open>(SELECT json_agg(json_build_object(...)) FROM worker_nodes WHERE worker_id = ANY(ids))\<close>:
  the objects for the workers named, null when there is none.
\<close>

record node_object =
  internal_coord :: string
  j_advertised_host :: string
  j_advertised_port :: int

definition node_objects :: "int list \<Rightarrow> db \<Rightarrow> node_object list option" where
  "node_objects ids d =
     (let ws = filter (\<lambda>w. worker_id w \<in> set ids) (worker_nodes d)
      in if ws = [] then None
         else Some (map (\<lambda>w. \<lparr>internal_coord = internal_host w @ '':'' @ to_string (internal_port w),
                              j_advertised_host = w_advertised_host w,
                              j_advertised_port = w_advertised_port w\<rparr>) ws))"

section \<open>A concrete server\<close>

text \<open>
  A server that meets the documented behaviour, for evaluating the model on concrete inputs.
\<close>

definition read_array :: "string \<Rightarrow> string list" where
  "read_array s = (let body = butlast (tl s) in getline_all CHR '','' body)"

text \<open>Elements that are no hashes are written in quotes, with a backslash before quotes and backslashes.\<close>

definition escape_element :: "string \<Rightarrow> string" where
  "escape_element h = concat (map (\<lambda>c. if c = CHR 34 \<or> c = CHR 92 then [CHR 92, c] else [c]) h)"

definition quoted_literal :: "string list \<Rightarrow> string" where
  "quoted_literal hs = ''{'' @ join '','' (map (\<lambda>h. CHR 34 # escape_element h @ [CHR 34]) hs) @ ''}''"

fun unquote :: "string option \<Rightarrow> string \<Rightarrow> string list" where
  "unquote a [] = []"
| "unquote None (c # s) = unquote (if c = CHR 34 then Some [] else None) s"
| "unquote (Some a) (c # s) =
     (if c = CHR 34 then a # unquote None s
      else if c = CHR 92 then (case s of [] \<Rightarrow> [] | e # s' \<Rightarrow> unquote (Some (a @ [e])) s')
      else unquote (Some (a @ [c])) s)"

definition write_texts :: "string list \<Rightarrow> string" where
  "write_texts hs = (if list_all plain_element hs then array_literal hs else quoted_literal hs)"

definition read_texts :: "string \<Rightarrow> string list" where
  "read_texts s = (if take 2 s = [CHR ''{'', CHR 34] then unquote None s else read_array s)"

definition read_ints :: "string list \<Rightarrow> int list option" where
  "read_ints xs = those (map (\<lambda>x. case stoi x of Inl _ \<Rightarrow> None | Inr n \<Rightarrow> Some n) xs)"

definition sample_pg :: "int \<Rightarrow> pg" where
  "sample_pg now = \<lparr>connects = True, commits = True, clock = now,
     varchar_fits = (\<lambda>n s. length s \<le> n),
     text_array_in = (\<lambda>s. Some (read_texts s)), text_array_out = write_texts,
     int_array_in = (\<lambda>s. read_ints (read_array s)),
     int_array_out = (\<lambda>ns. array_literal (map to_string ns)),
     limit_chunks = (\<lambda>n hs. take (nat n) hs), limit_buckets = (\<lambda>n bs. take (nat n) bs),
     server_version = ''PostgreSQL''\<rparr>"

lemma getline_all_join:
  assumes "\<forall>x\<in>set xs. x \<noteq> [] \<and> CHR '','' \<notin> set x"
  shows "getline_all CHR '','' (join '','' xs) = xs"
  using assms
proof (induction xs rule: induct_list012)
  case (3 x y zs)
  then show ?case by (simp add: getline_all_step)
qed (auto simp: getline_all_last)

lemma read_array_literal:
  "\<forall>x\<in>set xs. x \<noteq> [] \<and> CHR '','' \<notin> set x \<Longrightarrow> read_array (array_literal xs) = xs"
  by (simp add: read_array_def array_literal_def getline_all_join)

lemma plain_no_comma: "plain_element h \<Longrightarrow> h \<noteq> [] \<and> CHR '','' \<notin> set h"
  by (auto simp: plain_element_def is_digit_def digit_of_def code_def)

lemma to_string_no_comma: "CHR '','' \<notin> set (to_string n)"
proof -
  have "CHR '','' \<notin> set (dec m)" if "0 \<le> m" for m
  proof
    assume "CHR '','' \<in> set (dec m)"
    then have "is_digit 10 (CHR '','')" using dec_all_digits [OF that] by blast
    then show False by (simp add: is_digit_def digit_of_def code_def)
  qed
  then show ?thesis by (simp add: to_string_def)
qed

lemma read_ints_to_string: "\<forall>n\<in>set ns. int_range n \<Longrightarrow> read_ints (map to_string ns) = Some ns"
  by (induction ns) (auto simp: read_ints_def)

lemma mset_take_subseteq: "mset (take n xs) \<subseteq># mset xs"
  by (metis append_take_drop_id mset_append mset_subset_eq_add_left)

lemma unquote_escaped: "unquote (Some a) (escape_element h @ CHR 34 # s) = (a @ h) # unquote None s"
  by (induction h arbitrary: a) (auto simp: escape_element_def)

lemma unquote_literal: "unquote None (quoted_literal hs) = hs"
proof -
  have "unquote None (join '','' (map (\<lambda>h. CHR 34 # escape_element h @ [CHR 34]) hs) @ ''}'') = hs"
    by (induction hs rule: induct_list012) (simp_all add: unquote_escaped)
  then show ?thesis by (simp add: quoted_literal_def)
qed

lemma plain_literal: "list_all plain_element hs \<Longrightarrow> read_texts (array_literal hs) = hs"
proof -
  assume plain: "list_all plain_element hs"
  have "take 2 (array_literal hs) \<noteq> [CHR ''{'', CHR 34]"
  proof (cases hs)
    case (Cons h hs')
    then obtain c s where "h = c # s" "is_digit 16 c" using plain by (cases h) (auto simp: plain_element_def)
    moreover have "\<not> is_digit 16 (CHR 34)" by (simp add: is_digit_def digit_of_def code_def)
    ultimately show ?thesis using Cons by (cases hs') (auto simp: array_literal_def)
  qed (simp add: array_literal_def)
  then show "read_texts (array_literal hs) = hs"
    using plain by (simp add: read_texts_def read_array_literal plain_no_comma list_all_iff)
qed

lemma texts_written: "read_texts (write_texts hs) = hs"
proof (cases "list_all plain_element hs")
  case True
  then show ?thesis by (simp add: write_texts_def plain_literal)
next
  case False
  then obtain h hs' where "hs = h # hs'" by (cases hs) auto
  then have "take 2 (quoted_literal hs) = [CHR ''{'', CHR 34]" by (cases hs') (simp_all add: quoted_literal_def)
  then show ?thesis using False by (simp add: write_texts_def read_texts_def unquote_literal)
qed

lemma sample_pg_ok: "pg_ok (sample_pg now)"
proof -
  have "arrays_ok (sample_pg now)"
    by (auto simp: arrays_ok_def sample_pg_def plain_literal texts_written list_all_iff read_array_literal
        to_string_no_comma read_ints_to_string)
  moreover have "limits_ok (sample_pg now)"
    by (auto simp: limits_ok_def sample_pg_def mset_take_subseteq min.commute)
  ultimately show ?thesis by (simp add: pg_ok_def)
qed

end
