(* ===== verification/Repository.thy ===== *)
theory Repository
  imports Database
begin

text \<open>
  The operations of \<^verbatim>\<open>master/PostgresRepository.hpp\<close>, one definition per method, as actions
  on the tables. A method that catches its exceptions returns its value directly; one that lets
  them out is an action.
\<close>

section \<open>Private helpers\<close>

definition ParseNodePlanFromJson :: "string \<Rightarrow> node_object list option \<Rightarrow> ChunkRoutingPlan" where
  "ParseNodePlanFromJson h json_nodes_data =
     (case json_nodes_data of
        None \<Rightarrow> \<lparr>plan_hash = h, assigned_nodes = []\<rparr>
      | Some items \<Rightarrow>
          \<lparr>plan_hash = h,
           assigned_nodes = map (\<lambda>i. \<lparr>advertised_host = j_advertised_host i,
                                      advertised_port = j_advertised_port i\<rparr>) items\<rparr>)"

text \<open>
  The bucket of a hash. The value of \<^verbatim>\<open>stoul\<close> is cut to an \<^verbatim>\<open>unsigned int\<close>, the
  remainder is taken with the bucket count converted to unsigned, and converted back to
  \<^verbatim>\<open>int\<close>; a count of zero is a division by zero.
\<close>

definition CalculateBucketId :: "string \<Rightarrow> int \<Rightarrow> int outcome" where
  "CalculateBucketId sha256_hex num_buckets =
     (if length sha256_hex < 8 then Inr 0
      else case stoul 16 (take 8 sha256_hex) of
          Inl _ \<Rightarrow> Inr 0
        | Inr v \<Rightarrow>
            let hash_int = (ucast v :: 32 word); n = (word_of_int num_buckets :: 32 word)
            in if n = 0 then Inl Trap else Inr (sint (hash_int mod n)))"

text \<open>A parameter the server fails to read as an array is an SQL error.\<close>

definition sql_value :: "'a option \<Rightarrow> (db, 'a) action" where
  "sql_value v = (case v of None \<Rightarrow> throw PqFailure | Some x \<Rightarrow> ret x)"

lemma sql_value_Some [outcome_simps]: "sql_value (Some x) = ret x"
  by (simp add: sql_value_def)

lemma sql_value_None [outcome_simps]: "sql_value None = throw PqFailure"
  by (simp add: sql_value_def)

lemma preserves_sql_value [preserves_intros]: "preserves P (sql_value v)"
  by (cases v) (simp_all add: outcome_simps preserves_intros)

lemma sql_value_eq_Inr [outcome_simps]: "sql_value v s = (Inr x, t) \<longleftrightarrow> v = Some x \<and> t = s"
  by (auto simp: sql_value_def ret_def throw_def split: option.splits)

definition VerifyNodesExist :: "pg \<Rightarrow> int list \<Rightarrow> (db, unit) action" where
  "VerifyNodesExist pg node_ids =
     andthen (require (node_ids \<noteq> []) (RuntimeError ''Validation failed: Worker ID list cannot be empty.''))
     (\<lambda>_. let unique_ids = remdups node_ids in
       andthen (sql_value (int_array_in pg (array_literal (map to_string unique_ids))))
       (\<lambda>ids. andthen (get (\<lambda>d. length (filter (\<lambda>w. worker_id w \<in> set ids) (worker_nodes d))))
       (\<lambda>valid_count. require (valid_count = length unique_ids)
          (RuntimeError ''Validation failed: One or more provided worker IDs do not exist.''))))"

definition GetDatabaseVersion :: "pg \<Rightarrow> (db, string) action" where
  "GetDatabaseVersion pg = transact pg (ret (server_version pg))"

section \<open>Users\<close>

definition insert_user :: "pg \<Rightarrow> string \<Rightarrow> string \<Rightarrow> string \<Rightarrow> (db, unit) action" where
  "insert_user pg e h s =
     andthen (require (varchar_fits pg 255 e \<and> varchar_fits pg 255 h \<and> varchar_fits pg 64 s) PqFailure)
     (\<lambda>_. andthen (get (\<lambda>d. map email (users d)))
     (\<lambda>taken. andthen (require (e \<notin> set taken) PqFailure)
     (\<lambda>_. modify (\<lambda>d. d\<lparr>users := users d @ [\<lparr>uid = user_seq d, email = e, password_hash = h, salt = s\<rparr>],
                        user_seq := user_seq d + 1\<rparr>))))"

definition CreateUser :: "pg \<Rightarrow> string \<Rightarrow> string \<Rightarrow> string \<Rightarrow> db \<Rightarrow> bool \<times> db" where
  "CreateUser pg e h s d =
     (case transact pg (insert_user pg e h s) d of
        (Inr _, d') \<Rightarrow> (True, d')
      | (Inl _, d') \<Rightarrow> (False, d'))"

definition GetUserByEmail :: "pg \<Rightarrow> string \<Rightarrow> (db, UserRecord) action" where
  "GetUserByEmail pg e =
     transact pg (get (\<lambda>d. case List.find (\<lambda>u. email u = e) (users d) of
         None \<Rightarrow> new_UserRecord
       | Some u \<Rightarrow> \<lparr>found = True, user_id = uid u, user_password_hash = password_hash u,
                    user_salt = salt u\<rparr>))"

section \<open>Worker discovery\<close>

definition upsert_worker :: "pg \<Rightarrow> string \<Rightarrow> int \<Rightarrow> string \<Rightarrow> int \<Rightarrow> int \<Rightarrow> db \<Rightarrow> db" where
  "upsert_worker pg ihost iport ahost aport space d =
     (if \<exists>w\<in>set (worker_nodes d). internal_host w = ihost \<and> internal_port w = iport
      then d\<lparr>worker_nodes := map (\<lambda>w.
               if internal_host w = ihost \<and> internal_port w = iport
               then w\<lparr>w_advertised_host := ahost, w_advertised_port := aport, free_space := space,
                      last_heartbeat := clock pg,
                      status := (if status w = ''READ_ONLY'' then ''READ_ONLY'' else ''ACTIVE'')\<rparr>
               else w) (worker_nodes d)\<rparr>
      else d\<lparr>worker_nodes := worker_nodes d @
               [\<lparr>worker_id = worker_seq d, internal_host = ihost, internal_port = iport,
                 w_advertised_host = ahost, w_advertised_port = aport, free_space = space,
                 status = ''ACTIVE'', last_heartbeat = clock pg\<rparr>],
             worker_seq := worker_seq d + 1\<rparr>)"

definition RegisterWorker :: "pg \<Rightarrow> string \<Rightarrow> int \<Rightarrow> string \<Rightarrow> int \<Rightarrow> int \<Rightarrow> (db, unit) action" where
  "RegisterWorker pg ihost iport ahost aport space =
     transact pg
       (andthen (require (varchar_fits pg 255 ihost \<and> varchar_fits pg 255 ahost) PqFailure)
       (\<lambda>_. modify (upsert_worker pg ihost iport ahost aport space)))"

section \<open>Deduplication and storage\<close>

definition insert_chunk :: "pg \<Rightarrow> string \<Rightarrow> string \<Rightarrow> (db, unit) action" where
  "insert_chunk pg h pg_nodes_array =
     andthen (sql_value (int_array_in pg pg_nodes_array))
     (\<lambda>ids. andthen (require (varchar_fits pg 64 h) PqFailure)
     (\<lambda>_. modify (\<lambda>d. if find_chunk h d = None
        then d\<lparr>chunks := chunks d @ [\<lparr>chunk_hash = h, nodes = ids, ref_count = 0, created_at = clock pg\<rparr>]\<rparr>
        else d)))"

text \<open>\<^verbatim>\<open>FROM shard_map s JOIN clusters c ... WHERE s.bucket_id = $1\<close>, the first row.\<close>

definition route :: "int \<Rightarrow> db \<Rightarrow> int list option" where
  "route b d =
     (case filter (\<lambda>s. bucket_id s = b \<and> (\<exists>c\<in>set (clusters d). cluster_id c = shard_cluster s)) (shard_map d) of
        [] \<Rightarrow> None
      | s # _ \<Rightarrow> map_option active_nodes (List.find (\<lambda>c. cluster_id c = shard_cluster s) (clusters d)))"

definition touch :: "pg \<Rightarrow> string \<Rightarrow> db \<Rightarrow> db" where
  "touch pg h = update_chunks (\<lambda>r. chunk_hash r = h) (\<lambda>r. r\<lparr>created_at := clock pg\<rparr>)"

definition filter_new :: "pg \<Rightarrow> int \<Rightarrow> string \<Rightarrow> (db, ChunkRoutingPlan option) action" where
  "filter_new pg num_buckets h =
     (case CalculateBucketId h num_buckets of
        Inl e \<Rightarrow> throw e
      | Inr b \<Rightarrow> andthen (get (\<lambda>d. map_option (\<lambda>ids. (ids, node_objects ids d)) (route b d)))
          (\<lambda>routing_res. case routing_res of
             None \<Rightarrow> throw (RuntimeError (''Shard map uninitialized for bucket '' @ to_string b))
           | Some (ids, node_data) \<Rightarrow>
               andthen (as_field node_data)
               (\<lambda>_. andthen (insert_chunk pg h (int_array_out pg ids))
               (\<lambda>_. ret (Some (ParseNodePlanFromJson h node_data))))))"

definition filter_known :: "pg \<Rightarrow> string \<Rightarrow> chunk_row \<Rightarrow> node_object list option \<Rightarrow>
    (db, ChunkRoutingPlan option) action" where
  "filter_known pg h row node_data =
     (if ref_count row = -1 then throw (RuntimeError ''CHUNK_LOCKED'')
      else andthen (modify (touch pg h))
        (\<lambda>_. if ref_count row = 0
             then andthen (as_field node_data) (\<lambda>_. ret (Some (ParseNodePlanFromJson h node_data)))
             else ret None))"

definition filter_one :: "pg \<Rightarrow> int \<Rightarrow> string \<Rightarrow> (db, ChunkRoutingPlan option) action" where
  "filter_one pg num_buckets h =
     andthen (get (\<lambda>d. map_option (\<lambda>row. (row, node_objects (nodes row) d)) (find_chunk h d)))
     (\<lambda>res. case res of
        None \<Rightarrow> filter_new pg num_buckets h
      | Some (row, node_data) \<Rightarrow> filter_known pg h row node_data)"

definition FilterMissingChunks :: "pg \<Rightarrow> int \<Rightarrow> string list \<Rightarrow> (db, ChunkRoutingPlan list) action" where
  "FilterMissingChunks pg num_buckets client_hashes =
     transact pg (for_collect (filter_one pg num_buckets) client_hashes)"

text \<open>\<^verbatim>\<open>UPDATE chunks SET ref_count = ref_count + delta ...\<close>: an \<^verbatim>\<open>INT\<close> column overflows with an error.\<close>

definition add_refs :: "int \<Rightarrow> (chunk_row \<Rightarrow> bool) \<Rightarrow> (chunk_row \<Rightarrow> chunk_row) \<Rightarrow> (db, unit) action" where
  "add_refs delta p u =
     andthen (get (\<lambda>d. \<forall>r\<in>set (chunks d). p r \<longrightarrow> int_range (ref_count r + delta)))
     (\<lambda>fits. andthen (require fits PqFailure)
     (\<lambda>_. modify (update_chunks p (\<lambda>r. u (r\<lparr>ref_count := ref_count r + delta\<rparr>)))))"

definition insert_file :: "pg \<Rightarrow> int \<Rightarrow> string \<Rightarrow> int \<Rightarrow> string list \<Rightarrow> (db, unit) action" where
  "insert_file pg user name bytes arr =
     andthen (require (varchar_fits pg 255 name) PqFailure)
     (\<lambda>_. andthen (get (\<lambda>d. user \<in> uid ` set (users d)))
     (\<lambda>known. andthen (require known PqFailure)
     (\<lambda>_. modify (\<lambda>d. d\<lparr>files := files d @ [\<lparr>file_id = file_seq d, owner = user, filename = name,
                                              file_bytes = bytes, file_chunks = arr\<rparr>],
                        file_seq := file_seq d + 1\<rparr>))))"

definition CommitFile :: "pg \<Rightarrow> int \<Rightarrow> string \<Rightarrow> int \<Rightarrow> string list \<Rightarrow> (db, unit) action" where
  "CommitFile pg user name bytes hashes =
     transact pg
       (andthen (sql_value (text_array_in pg (array_literal hashes)))
       (\<lambda>arr. andthen (insert_file pg user name bytes arr)
       (\<lambda>_. for_each (\<lambda>h. add_refs 1 (\<lambda>r. chunk_hash r = h) (\<lambda>r. r\<lparr>created_at := clock pg\<rparr>)) hashes)))"

definition file_matches :: "int \<Rightarrow> string \<Rightarrow> file_row \<Rightarrow> bool" where
  "file_matches user name f \<longleftrightarrow> filename f = name \<and> owner f = user"

text \<open>
  \<^verbatim>\<open>FROM files f CROSS JOIN unnest(f.chunks) WITH ORDINALITY ... JOIN chunks c ... ORDER BY u.ord\<close>.
  The join drops a hash that has no chunk record.
\<close>

definition plan_rows :: "int \<Rightarrow> string \<Rightarrow> db \<Rightarrow> (nat \<times> string \<times> node_object list option) list" where
  "plan_rows user name d =
     sort_key fst (concat (map (\<lambda>f. List.map_filter (\<lambda>(i, h).
         map_option (\<lambda>c. (i, h, node_objects (nodes c) d)) (find_chunk h d))
       (enumerate 1 (file_chunks f))) (filter (file_matches user name) (files d))))"

definition GetDownloadPlan :: "pg \<Rightarrow> int \<Rightarrow> string \<Rightarrow> (db, FileDownloadManifest) action" where
  "GetDownloadPlan pg user name =
     transact pg
       (andthen (get (\<lambda>d. List.find (file_matches user name) (files d)))
       (\<lambda>file_res. case file_res of
          None \<Rightarrow> throw (RuntimeError ''File not found or access denied.'')
        | Some f \<Rightarrow> andthen (get (plan_rows user name))
            (\<lambda>rows. ret \<lparr>file_size = file_bytes f,
               plans = map (\<lambda>(_, h, data). ParseNodePlanFromJson h
                              (case data of None \<Rightarrow> Some [] | Some x \<Rightarrow> Some x)) rows\<rparr>)))"

definition FileExists :: "pg \<Rightarrow> int \<Rightarrow> string \<Rightarrow> (db, bool) action" where
  "FileExists pg user name =
     transact pg (get (\<lambda>d. List.find (file_matches user name) (files d) \<noteq> None))"

text \<open>The early return for a missing file comes before the commit.\<close>

definition DeleteFile :: "pg \<Rightarrow> int \<Rightarrow> string \<Rightarrow> (db, bool) action" where
  "DeleteFile pg user name = (\<lambda>d.
     if \<not> connects pg then (Inl PqFailure, d)
     else case List.find (file_matches user name) (files d) of
         None \<Rightarrow> (Inr False, d)
       | Some f \<Rightarrow> transact pg
           (andthen (sql_value (text_array_in pg (text_array_out pg (file_chunks f))))
           (\<lambda>arr. andthen (add_refs (-1) (\<lambda>r. chunk_hash r \<in> set arr) (\<lambda>r. r))
           (\<lambda>_. andthen (modify (\<lambda>d. d\<lparr>files := filter (\<lambda>f. \<not> file_matches user name f) (files d)\<rparr>))
           (\<lambda>_. ret True)))) d)"

section \<open>Garbage collection\<close>

definition orphan_candidates :: "pg \<Rightarrow> int \<Rightarrow> db \<Rightarrow> string list" where
  "orphan_candidates pg expiry_hours d =
     map chunk_hash (filter (\<lambda>r. ref_count r = 0 \<and> created_at r < clock pg - hours expiry_hours) (chunks d))"

definition worker_locations :: "int list \<Rightarrow> db \<Rightarrow> WorkerLocation list" where
  "worker_locations ids d =
     map (\<lambda>w. \<lparr>loc_host = internal_host w, loc_port = internal_port w\<rparr>)
       (filter (\<lambda>w. worker_id w \<in> set ids) (worker_nodes d))"

definition tombstone :: "string list \<Rightarrow> db \<Rightarrow> db" where
  "tombstone hs = update_chunks (\<lambda>r. chunk_hash r \<in> set hs) (\<lambda>r. r\<lparr>ref_count := -1\<rparr>)"

text \<open>
  The exception is caught and whatever the vector holds is returned: nothing when the query
  fails, but every orphan read when it is the commit that fails, although the tombstones are then
  rolled back.
\<close>

definition GetOrphanedChunks :: "pg \<Rightarrow> int \<Rightarrow> int \<Rightarrow> db \<Rightarrow> OrphanedChunk list \<times> db" where
  "GetOrphanedChunks pg expiry_hours limit d =
     (if \<not> connects pg then ([], d)
      else let picked = limit_chunks pg limit (orphan_candidates pg expiry_hours d);
               orphans = map (\<lambda>r. \<lparr>orphan_hash = chunk_hash r, locations = worker_locations (nodes r) d\<rparr>)
                           (filter (\<lambda>r. chunk_hash r \<in> set picked) (chunks d))
           in (orphans, if commits pg then tombstone picked d else d))"

definition DeleteChunkRecordsBulk :: "pg \<Rightarrow> string list \<Rightarrow> db \<Rightarrow> bool \<times> db" where
  "DeleteChunkRecordsBulk pg hashes d =
     (if hashes = [] then (True, d)
      else case transact pg (modify (\<lambda>d. d\<lparr>chunks := filter (\<lambda>r. \<not> (ref_count r = -1 \<and> chunk_hash r \<in> set hashes)) (chunks d)\<rparr>)) d of
          (Inr _, d') \<Rightarrow> (True, d')
        | (Inl _, d') \<Rightarrow> (False, d'))"

definition RevertTombstone :: "pg \<Rightarrow> string \<Rightarrow> db \<Rightarrow> db" where
  "RevertTombstone pg h d =
     snd (transact pg (modify (update_chunks (\<lambda>r. chunk_hash r = h \<and> ref_count r = -1)
            (\<lambda>r. r\<lparr>ref_count := 0, created_at := clock pg\<rparr>))) d)"

section \<open>Cluster scaling\<close>

text \<open>C++ integer division truncates towards zero.\<close>

definition trunc_div :: "int \<Rightarrow> int \<Rightarrow> int" where
  "trunc_div a b = sgn a * sgn b * (\<bar>a\<bar> div \<bar>b\<bar>)"

definition insert_cluster :: "pg \<Rightarrow> string \<Rightarrow> string \<Rightarrow> (db, int) action" where
  "insert_cluster pg name arr =
     andthen (sql_value (int_array_in pg arr))
     (\<lambda>ids. andthen (require (varchar_fits pg 50 name) PqFailure)
     (\<lambda>_. andthen (get (\<lambda>d. name \<in> cluster_name ` set (clusters d)))
     (\<lambda>taken. andthen (require (\<not> taken) PqFailure)
     (\<lambda>_. andthen (get cluster_seq)
     (\<lambda>new. andthen (modify (\<lambda>d. d\<lparr>clusters := clusters d @ [\<lparr>cluster_id = new, cluster_name = name, active_nodes = ids\<rparr>],
                                   cluster_seq := cluster_seq d + 1\<rparr>))
     (\<lambda>_. ret new))))))"

definition owned_buckets :: "int \<Rightarrow> db \<Rightarrow> int list" where
  "owned_buckets c d = map bucket_id (filter (\<lambda>s. shard_cluster s = c) (shard_map d))"

text \<open>\<^verbatim>\<open>SELECT cluster_id, COUNT(bucket_id) FROM shard_map GROUP BY cluster_id\<close>.\<close>

definition bucket_counts :: "db \<Rightarrow> (int \<times> int) list" where
  "bucket_counts d =
     map (\<lambda>c. (c, int (length (owned_buckets c d)))) (remdups (map shard_cluster (shard_map d)))"

text \<open>The bootstrap: \<^verbatim>\<open>generate_series(0, num_buckets - 1)\<close>, all owned by the new cluster.\<close>

definition bootstrap_shards :: "int \<Rightarrow> int \<Rightarrow> db \<Rightarrow> db" where
  "bootstrap_shards new num_buckets d =
     (let ids = [0..num_buckets - 1]
      in d\<lparr>shard_map :=
           map (\<lambda>s. if bucket_id s \<in> set ids then s\<lparr>shard_cluster := new\<rparr> else s) (shard_map d) @
           map (\<lambda>b. \<lparr>bucket_id = b, shard_cluster = new\<rparr>)
             (filter (\<lambda>b. b \<notin> bucket_id ` set (shard_map d)) ids)\<rparr>)"

definition move_buckets :: "pg \<Rightarrow> int \<Rightarrow> int \<Rightarrow> int \<Rightarrow> db \<Rightarrow> db" where
  "move_buckets pg new existing n d =
     (let picked = limit_buckets pg n (owned_buckets existing d)
      in d\<lparr>shard_map := map (\<lambda>s. if bucket_id s \<in> set picked then s\<lparr>shard_cluster := new\<rparr> else s) (shard_map d)\<rparr>)"

definition rebalance :: "pg \<Rightarrow> int \<Rightarrow> int \<Rightarrow> (int \<times> int) list \<Rightarrow> (db, unit) action" where
  "rebalance pg new target_buckets current =
     for_each (\<lambda>(existing, current_owned).
         if current_owned - target_buckets > 0
         then modify (move_buckets pg new existing (current_owned - target_buckets))
         else ret ()) current"

definition AddCluster :: "pg \<Rightarrow> int \<Rightarrow> string \<Rightarrow> int list \<Rightarrow> (db, unit) action" where
  "AddCluster pg num_buckets name active_node_ids =
     transact pg
       (andthen (VerifyNodesExist pg active_node_ids)
       (\<lambda>_. andthen (insert_cluster pg name (array_literal (map to_string active_node_ids)))
       (\<lambda>new. andthen (get bucket_counts)
       (\<lambda>current_clusters.
          if current_clusters = [] then modify (bootstrap_shards new num_buckets)
          else rebalance pg new (trunc_div num_buckets (int (length current_clusters) + 1)) current_clusters))))"

definition ReplaceCluster :: "pg \<Rightarrow> int \<Rightarrow> int list \<Rightarrow> (db, unit) action" where
  "ReplaceCluster pg cid new_worker_ids =
     transact pg
       (andthen (get (\<lambda>d. cid \<in> cluster_id ` set (clusters d)))
       (\<lambda>known. andthen (require known (RuntimeError ''Validation failed: Target cluster_id does not exist.''))
       (\<lambda>_. andthen (VerifyNodesExist pg new_worker_ids)
       (\<lambda>_. andthen (modify (\<lambda>d. d\<lparr>worker_nodes := map (\<lambda>w.
               if \<exists>c\<in>set (clusters d). cluster_id c = cid \<and> worker_id w \<in> set (active_nodes c)
               then w\<lparr>status := ''READ_ONLY''\<rparr> else w) (worker_nodes d)\<rparr>))
       (\<lambda>_. andthen (sql_value (int_array_in pg (array_literal (map to_string new_worker_ids))))
       (\<lambda>ids. modify (\<lambda>d. d\<lparr>clusters := map (\<lambda>c. if cluster_id c = cid then c\<lparr>active_nodes := ids\<rparr> else c)
                (clusters d)\<rparr>)))))))"

end
