(* ===== verification/Repository_Facts.thy ===== *)
theory Repository_Facts
  imports Repository
begin

text \<open>
  What the operations of the repository do when they succeed, stated as equations between the
  tables before and after: the lemmas every later proof about the metadata store rests on.
\<close>

section \<open>Upload negotiation\<close>

definition missing :: "db \<Rightarrow> string \<Rightarrow> bool" where
  "missing d h \<longleftrightarrow> (case find_chunk h d of None \<Rightarrow> True | Some r \<Rightarrow> ref_count r = 0)"

definition new_row :: "pg \<Rightarrow> string \<Rightarrow> int list \<Rightarrow> chunk_row" where
  "new_row pg h ids = \<lparr>chunk_hash = h, nodes = ids, ref_count = 0, created_at = clock pg\<rparr>"

definition add_row :: "chunk_row \<Rightarrow> db \<Rightarrow> db" where
  "add_row r d = d\<lparr>chunks := chunks d @ [r]\<rparr>"

lemma find_snoc:
  "List.find P (xs @ [y]) = (case List.find P xs of Some x \<Rightarrow> Some x | None \<Rightarrow> if P y then Some y else None)"
  by (induction xs) auto

lemma find_add_row:
  "find_chunk h (add_row r d) =
     (case find_chunk h d of Some x \<Rightarrow> Some x | None \<Rightarrow> if chunk_hash r = h then Some r else None)"
  by (simp add: find_chunk_def add_row_def find_snoc)

lemma find_touch:
  "find_chunk k (touch pg h d) =
     map_option (\<lambda>r. if chunk_hash r = h then r\<lparr>created_at := clock pg\<rparr> else r) (find_chunk k d)"
  unfolding touch_def by (rule find_update_chunks) simp

lemma filter_new_Inr:
  assumes "filter_new pg nb h d = (Inr p, d')" and "find_chunk h d = None"
  shows "\<exists>ids plan. d' = add_row (new_row pg h ids) d \<and> p = Some plan \<and> plan_hash plan = h \<and> assigned_nodes plan \<noteq> []"
  using assms
  by (auto simp: filter_new_def insert_chunk_def outcome_simps andthen_eq_Inr add_row_def new_row_def
      ParseNodePlanFromJson_def node_objects_def throw_def get_def modify_def Let_def
      split: sum.splits option.splits prod.splits if_splits)

lemma filter_known_Inr:
  assumes "filter_known pg h row data d = (Inr p, d')" and "data = node_objects ids e"
  shows "ref_count row \<noteq> -1 \<and> d' = touch pg h d \<and>
     (if ref_count row = 0 then \<exists>plan. p = Some plan \<and> plan_hash plan = h \<and> assigned_nodes plan \<noteq> [] else p = None)"
  using assms
  by (auto simp: filter_known_def outcome_simps andthen_eq_Inr ParseNodePlanFromJson_def node_objects_def
      throw_def modify_def Let_def split: option.splits if_splits)

lemma filter_one_Inr:
  assumes "filter_one pg nb h d = (Inr p, d')"
  shows "(case find_chunk h d of
            None \<Rightarrow> \<exists>ids. d' = add_row (new_row pg h ids) d
          | Some r \<Rightarrow> ref_count r \<noteq> -1 \<and> d' = touch pg h d) \<and>
         (if missing d h then \<exists>plan. p = Some plan \<and> plan_hash plan = h \<and> assigned_nodes plan \<noteq> [] else p = None)"
proof (cases "find_chunk h d")
  case None
  with assms have "filter_new pg nb h d = (Inr p, d')" by (simp add: filter_one_def outcome_simps)
  from filter_new_Inr [OF this None] None show ?thesis by (auto simp: missing_def)
next
  case (Some r)
  with assms have "filter_known pg h r (node_objects (nodes r) d) d = (Inr p, d')"
    by (simp add: filter_one_def outcome_simps)
  from filter_known_Inr [OF this refl] Some show ?thesis by (auto simp: missing_def)
qed

text \<open>
  What negotiating does to the record of a hash \<open>k\<close>: unless it was asked for (\<open>asked\<close>), nothing;
  otherwise a new record is made, or the old one, which is no tombstone, is dated now.
\<close>

fun negotiated_row :: "pg \<Rightarrow> string \<Rightarrow> bool \<Rightarrow> chunk_row option \<Rightarrow> chunk_row option \<Rightarrow> bool" where
  "negotiated_row pg k asked None x = (if asked then \<exists>ids. x = Some (new_row pg k ids) else x = None)"
| "negotiated_row pg k asked (Some r) x =
     (x = Some (if asked then r\<lparr>created_at := clock pg\<rparr> else r) \<and> (asked \<longrightarrow> ref_count r \<noteq> -1))"

definition negotiated :: "pg \<Rightarrow> string set \<Rightarrow> db \<Rightarrow> db \<Rightarrow> bool" where
  "negotiated pg H d d' \<longleftrightarrow>
     (\<forall>k. negotiated_row pg k (k \<in> H) (find_chunk k d) (find_chunk k d')) \<and>
     files d' = files d \<and> users d' = users d \<and> worker_nodes d' = worker_nodes d \<and>
     clusters d' = clusters d \<and> shard_map d' = shard_map d \<and>
     (distinct (map chunk_hash (chunks d)) \<longrightarrow> distinct (map chunk_hash (chunks d')))"

lemma negotiated_rowD: "negotiated pg H d d' \<Longrightarrow> negotiated_row pg k (k \<in> H) (find_chunk k d) (find_chunk k d')"
  by (simp add: negotiated_def)

lemma negotiated_row_refl: "negotiated_row pg k False x x"
  by (cases x) auto

lemma negotiated_row_trans:
  "negotiated_row pg k a x y \<Longrightarrow> negotiated_row pg k b y z \<Longrightarrow> negotiated_row pg k (a \<or> b) x z"
  by (cases x; cases y) (auto simp: new_row_def split: if_splits)

lemma negotiated_refl: "negotiated pg {} d d"
  by (simp add: negotiated_def negotiated_row_refl)

lemma negotiated_trans:
  assumes "negotiated pg A d d1" and "negotiated pg B d1 d2"
  shows "negotiated pg (A \<union> B) d d2"
proof -
  have "negotiated_row pg k (k \<in> A \<union> B) (find_chunk k d) (find_chunk k d2)" for k
    using negotiated_row_trans [OF assms [THEN negotiated_rowD, of k]] by simp
  then show ?thesis using assms by (simp add: negotiated_def)
qed

lemma negotiated_one:
  assumes "filter_one pg nb h d = (Inr p, d')"
  shows "negotiated pg {h} d d'"
proof (cases "find_chunk h d")
  case None
  then obtain ids where d': "d' = add_row (new_row pg h ids) d" using filter_one_Inr [OF assms] by auto
  have "negotiated_row pg k (k \<in> {h}) (find_chunk k d) (find_chunk k d')" for k
    using None d' by (cases "find_chunk k d") (auto simp: find_add_row new_row_def)
  moreover have "h \<notin> chunk_hash ` set (chunks d)" using None by (simp add: find_chunk_None)
  ultimately show ?thesis using d' by (simp add: negotiated_def add_row_def new_row_def)
next
  case (Some r)
  then have d': "d' = touch pg h d" and r: "ref_count r \<noteq> -1" using filter_one_Inr [OF assms] by auto
  have "negotiated_row pg k (k \<in> {h}) (find_chunk k d) (find_chunk k d')" for k
    using Some d' r by (cases "find_chunk k d") (auto simp: find_touch dest: find_chunk_Some)
  then show ?thesis using d' by (simp add: negotiated_def touch_def update_chunks_hashes)
qed

lemma negotiated_missing: "negotiated pg H d d' \<Longrightarrow> missing d' k \<longleftrightarrow> missing d k"
  by (drule negotiated_rowD [of _ _ _ _ k], cases "find_chunk k d")
    (auto simp: missing_def new_row_def split: if_splits)

lemma for_collect_filter:
  assumes "for_collect (filter_one pg nb) hs d = (Inr ps, d')"
  shows "negotiated pg (set hs) d d' \<and> map plan_hash ps = filter (missing d) hs \<and>
         (\<forall>p\<in>set ps. assigned_nodes p \<noteq> [])"
  using assms
proof (induction hs arbitrary: d ps)
  case Nil
  then show ?case by (simp add: outcome_simps negotiated_refl)
next
  case (Cons h hs)
  from Cons.prems obtain p d1 qs where one: "filter_one pg nb h d = (Inr p, d1)"
    and rest: "for_collect (filter_one pg nb) hs d1 = (Inr qs, d')"
    and ps: "ps = (case p of None \<Rightarrow> qs | Some z \<Rightarrow> z # qs)"
    by (auto simp: andthen_eq_Inr outcome_simps)
  note n1 = negotiated_one [OF one]
  from Cons.IH [OF rest] have n2: "negotiated pg (set hs) d1 d'"
    and IH: "map plan_hash qs = filter (missing d1) hs" "\<forall>p\<in>set qs. assigned_nodes p \<noteq> []" by auto
  have "filter (missing d1) hs = filter (missing d) hs"
    by (rule filter_cong) (simp_all add: negotiated_missing [OF n1])
  then show ?case
    using negotiated_trans [OF n1 n2] filter_one_Inr [OF one] IH ps by (auto split: if_splits)
qed

lemma FilterMissingChunks_Inr:
  assumes "FilterMissingChunks pg nb hs d = (Inr ps, d')"
  shows "negotiated pg (set hs) d d'" and "map plan_hash ps = filter (missing d) hs"
    and "p \<in> set ps \<Longrightarrow> assigned_nodes p \<noteq> []"
  using assms for_collect_filter by (auto simp: FilterMissingChunks_def transact_eq_Inr)

lemma FilterMissingChunks_Inl: "FilterMissingChunks pg nb hs d = (Inl e, d') \<Longrightarrow> d' = d"
  by (simp add: FilterMissingChunks_def transact_Inl)

section \<open>References\<close>

text \<open>How often the committed files name a chunk.\<close>

definition refs_in :: "string \<Rightarrow> file_row list \<Rightarrow> int" where
  "refs_in h fs = sum_list (map (\<lambda>f. int (count_list (file_chunks f) h)) fs)"

definition refs :: "db \<Rightarrow> string \<Rightarrow> int" where
  "refs d h = refs_in h (files d)"

lemma refs_in_nonneg [simp]: "0 \<le> refs_in h fs"
  unfolding refs_in_def by (intro sum_list_nonneg) auto

lemma refs_nonneg [simp]: "0 \<le> refs d h"
  by (simp add: refs_def)

lemma refs_in_append: "refs_in h (fs @ gs) = refs_in h fs + refs_in h gs"
  by (simp add: refs_in_def)

lemma refs_in_pos: "f \<in> set fs \<Longrightarrow> h \<in> set (file_chunks f) \<Longrightarrow> 1 \<le> refs_in h fs"
proof -
  assume f: "f \<in> set fs" and h: "h \<in> set (file_chunks f)"
  have "0 < count_list (file_chunks f) h" using h by (metis count_list_0_iff neq0_conv)
  moreover have "int (count_list (file_chunks f) h) \<le> refs_in h fs"
    unfolding refs_in_def using f by (intro member_le_sum_list) auto
  ultimately show ?thesis by linarith
qed

lemma refs_in_0: "(\<And>f. f \<in> set fs \<Longrightarrow> h \<notin> set (file_chunks f)) \<Longrightarrow> refs_in h fs = 0"
  by (induction fs) (auto simp: refs_in_def)

lemma refs_in_filter: "refs_in h (filter P fs) \<le> refs_in h fs"
  unfolding refs_in_def by (rule sum_list_map_filter_le) simp

text \<open>Dropping the files that match, one of which names the chunk, drops a reference.\<close>

lemma refs_in_drop:
  assumes "f \<in> set fs" and "P f" and "h \<in> set (file_chunks f)"
  shows "refs_in h (filter (\<lambda>g. \<not> P g) fs) + 1 \<le> refs_in h fs"
proof -
  have "refs_in h fs = refs_in h (filter (\<lambda>g. \<not> P g) fs) + refs_in h (filter P fs)"
    by (induction fs) (auto simp: refs_in_def)
  moreover have "1 \<le> refs_in h (filter P fs)" using assms by (intro refs_in_pos [of f]) auto
  ultimately show ?thesis by linarith
qed

section \<open>Committing a file\<close>

lemma add_refs_Inr:
  "add_refs delta p u d = (Inr x, d') \<longleftrightarrow>
     (\<forall>r\<in>set (chunks d). p r \<longrightarrow> int_range (ref_count r + delta)) \<and>
     d' = update_chunks p (\<lambda>r. u (r\<lparr>ref_count := ref_count r + delta\<rparr>)) d"
  by (auto simp: add_refs_def andthen_eq_Inr outcome_simps)

abbreviation bump :: "pg \<Rightarrow> string \<Rightarrow> (db, unit) action" where
  "bump pg h \<equiv> add_refs 1 (\<lambda>r. chunk_hash r = h) (\<lambda>r. r\<lparr>created_at := clock pg\<rparr>)"

text \<open>The loop over the hashes of a commit adds as many references as the list has occurrences.\<close>

definition bumped :: "pg \<Rightarrow> string list \<Rightarrow> chunk_row \<Rightarrow> chunk_row" where
  "bumped pg hs r =
     (if chunk_hash r \<in> set hs
      then r\<lparr>ref_count := ref_count r + int (count_list hs (chunk_hash r)), created_at := clock pg\<rparr> else r)"

lemma bump_loop:
  assumes "for_each (bump pg) hs d = (Inr (), d')"
  shows "d' = d\<lparr>chunks := map (bumped pg hs) (chunks d)\<rparr>"
  using assms
proof (induction hs arbitrary: d)
  case Nil
  then show ?case by (simp add: outcome_simps bumped_def)
next
  case (Cons h hs)
  let ?d1 = "update_chunks (\<lambda>r. chunk_hash r = h) (\<lambda>r. r\<lparr>ref_count := ref_count r + 1, created_at := clock pg\<rparr>) d"
  from Cons.prems have "for_each (bump pg) hs ?d1 = (Inr (), d')"
    by (auto simp: andthen_eq_Inr add_refs_Inr)
  from Cons.IH [OF this] show ?case
    by (auto simp: update_chunks_def bumped_def)
qed

definition committed :: "pg \<Rightarrow> int \<Rightarrow> string \<Rightarrow> int \<Rightarrow> string list \<Rightarrow> string list \<Rightarrow> db \<Rightarrow> db" where
  "committed pg user name bytes arr hs d =
     d\<lparr>files := files d @ [\<lparr>file_id = file_seq d, owner = user, filename = name, file_bytes = bytes, file_chunks = arr\<rparr>],
       file_seq := file_seq d + 1, chunks := map (bumped pg hs) (chunks d)\<rparr>"

lemma CommitFile_Inr:
  assumes "CommitFile pg user name bytes hs d = (Inr (), d')"
  shows "\<exists>arr. text_array_in pg (array_literal hs) = Some arr \<and> user \<in> uid ` set (users d) \<and>
     d' = committed pg user name bytes arr hs d"
  using assms
  by (auto simp: CommitFile_def transact_eq_Inr andthen_eq_Inr insert_file_def outcome_simps
      committed_def split: if_splits dest!: bump_loop)

lemma CommitFile_plain:
  assumes "CommitFile pg user name bytes hs d = (Inr (), d')" and "pg_ok pg" and "\<forall>h\<in>set hs. plain_element h"
  shows "user \<in> uid ` set (users d) \<and> d' = committed pg user name bytes hs hs d"
  using CommitFile_Inr [OF assms(1)] assms(2,3) by (auto simp: pg_ok_def arrays_ok_def)

section \<open>Deleting a file\<close>

definition dropped :: "int \<Rightarrow> string \<Rightarrow> string list \<Rightarrow> db \<Rightarrow> db" where
  "dropped user name arr d =
     d\<lparr>chunks := map (\<lambda>r. if chunk_hash r \<in> set arr then r\<lparr>ref_count := ref_count r - 1\<rparr> else r) (chunks d),
       files := filter (\<lambda>f. \<not> file_matches user name f) (files d)\<rparr>"

lemma DeleteFile_Inr:
  assumes "DeleteFile pg user name d = (Inr b, d')"
  shows "(case List.find (file_matches user name) (files d) of
            None \<Rightarrow> \<not> b \<and> d' = d
          | Some f \<Rightarrow> b \<and> (\<exists>arr. text_array_in pg (text_array_out pg (file_chunks f)) = Some arr \<and>
                           d' = dropped user name arr d))"
  using assms
  by (auto simp: DeleteFile_def transact_eq_Inr andthen_eq_Inr outcome_simps add_refs_Inr
      dropped_def update_chunks_def split: if_splits option.splits)

lemma DeleteFile_Inl: "DeleteFile pg user name d = (Inl e, d') \<Longrightarrow> d' = d"
  by (auto simp: DeleteFile_def dest: transact_Inl split: if_splits option.splits)

end
