(* ===== verification/Store_Invariant.thy ===== *)
theory Store_Invariant
  imports Repository_Facts
begin

text \<open>
  The invariant that makes deduplication safe: a chunk that a committed file names has a record that
  counts at least as many references as the files hold, so the garbage collector never takes it.
  The code of a commit checks none of this. The invariant therefore speaks of a set of hashes, \<open>K\<close>, and
  every operation keeps it if no commit names a hash of that set before it has a record.
\<close>

section \<open>The invariant\<close>

definition counted :: "db \<Rightarrow> string \<Rightarrow> chunk_row \<Rightarrow> bool" where
  "counted d h r \<longleftrightarrow> -1 \<le> ref_count r \<and> refs d h \<le> max 0 (ref_count r)"

definition store_inv :: "string set \<Rightarrow> db \<Rightarrow> bool" where
  "store_inv K d \<longleftrightarrow>
     distinct (map chunk_hash (chunks d)) \<and>
     (\<forall>h r. h \<in> K \<longrightarrow> find_chunk h d = Some r \<longrightarrow> counted d h r) \<and>
     (\<forall>f\<in>set (files d). \<forall>h\<in>set (file_chunks f). h \<in> K \<longrightarrow> find_chunk h d \<noteq> None)"

text \<open>A live chunk has a record that is no tombstone.\<close>

definition live :: "string \<Rightarrow> db \<Rightarrow> bool" where
  "live h d \<longleftrightarrow> (case find_chunk h d of None \<Rightarrow> False | Some r \<Rightarrow> 0 \<le> ref_count r)"

definition committable :: "string list \<Rightarrow> db \<Rightarrow> bool" where
  "committable hs d \<longleftrightarrow> (\<forall>h\<in>set hs. plain_element h \<and> live h d)"

text \<open>
  A commit counts what it stores, as far as \<open>K\<close> goes: the elements of the array that are in \<open>K\<close> are live and
  were among the hashes, as often. Of hashes in hexadecimal the array has just these elements.
\<close>

definition commit_counts :: "pg \<Rightarrow> string set \<Rightarrow> string list \<Rightarrow> db \<Rightarrow> bool" where
  "commit_counts pg K hs d \<longleftrightarrow>
     (case text_array_in pg (array_literal hs) of
        None \<Rightarrow> True
      | Some arr \<Rightarrow> \<forall>h\<in>set arr. h \<in> K \<longrightarrow> live h d \<and> count_list arr h \<le> count_list hs h)"

lemma commit_counts_empty [simp]: "commit_counts pg {} hs d"
  by (simp add: commit_counts_def split: option.split)

lemma commit_counts_plain: "committable hs d \<Longrightarrow> pg_ok pg \<Longrightarrow> commit_counts pg K hs d"
  by (simp add: commit_counts_def committable_def pg_ok_def arrays_ok_def)

lemma commit_counts_weaken: "K' \<subseteq> K \<Longrightarrow> commit_counts pg K hs d \<Longrightarrow> commit_counts pg K' hs d"
  by (auto simp: commit_counts_def split: option.splits)

lemma store_invI:
  assumes "distinct (map chunk_hash (chunks d))"
    and "\<And>h r. h \<in> K \<Longrightarrow> find_chunk h d = Some r \<Longrightarrow> counted d h r"
    and "\<And>f h. f \<in> set (files d) \<Longrightarrow> h \<in> set (file_chunks f) \<Longrightarrow> h \<in> K \<Longrightarrow> find_chunk h d \<noteq> None"
  shows "store_inv K d"
  using assms by (auto simp: store_inv_def)

lemma store_inv_distinct: "store_inv K d \<Longrightarrow> distinct (map chunk_hash (chunks d))"
  by (simp add: store_inv_def)

lemma store_inv_counted: "store_inv K d \<Longrightarrow> h \<in> K \<Longrightarrow> find_chunk h d = Some r \<Longrightarrow> counted d h r"
  by (simp add: store_inv_def)

lemma store_inv_file:
  "store_inv K d \<Longrightarrow> f \<in> set (files d) \<Longrightarrow> h \<in> set (file_chunks f) \<Longrightarrow> h \<in> K \<Longrightarrow> find_chunk h d \<noteq> None"
  by (auto simp: store_inv_def)

lemma store_inv_weaken: "K' \<subseteq> K \<Longrightarrow> store_inv K d \<Longrightarrow> store_inv K' d"
  unfolding store_inv_def by blast

lemma store_inv_frame: "chunks d' = chunks d \<Longrightarrow> files d' = files d \<Longrightarrow> store_inv K d' \<longleftrightarrow> store_inv K d"
  by (simp add: store_inv_def counted_def refs_def find_chunk_def)

lemma store_inv_empty: "store_inv K empty_db"
  by (simp add: store_inv_def empty_db_def find_chunk_def)

text \<open>The heart of it: a chunk a file names is counted.\<close>

lemma store_inv_referenced:
  assumes "store_inv K d" and "f \<in> set (files d)" and "h \<in> set (file_chunks f)" and "h \<in> K"
  shows "\<exists>r. find_chunk h d = Some r \<and> 1 \<le> ref_count r"
proof -
  obtain r where r: "find_chunk h d = Some r" using store_inv_file [OF assms] by auto
  have "1 \<le> refs d h" unfolding refs_def using assms(2,3) by (rule refs_in_pos)
  with store_inv_counted [OF assms(1,4) r] r show ?thesis by (auto simp: counted_def)
qed

lemma unreferenced: "store_inv K d \<Longrightarrow> h \<in> K \<Longrightarrow> find_chunk h d = Some r \<Longrightarrow> ref_count r \<le> 0 \<Longrightarrow> refs d h = 0"
  using store_inv_counted [of K d h r] refs_nonneg [of d h] by (simp add: counted_def)

section \<open>Every operation keeps it\<close>

lemma find_map_rows:
  "(\<And>r. chunk_hash (u r) = chunk_hash r) \<Longrightarrow>
     find_chunk h (d\<lparr>chunks := map u (chunks d)\<rparr>) = map_option u (find_chunk h d)"
  by (simp add: find_chunk_def find_map_key)

lemma map_keep_key: "(\<And>r. k (u r) = k r) \<Longrightarrow> map (k \<circ> u) rs = map k rs"
  by simp

lemma find_filter_rows:
  assumes "distinct (map chunk_hash (chunks d))"
  shows "find_chunk h (d\<lparr>chunks := filter P (chunks d)\<rparr>) =
     (case find_chunk h d of None \<Rightarrow> None | Some r \<Rightarrow> if P r then Some r else None)"
proof -
  have "distinct (map chunk_hash rs) \<Longrightarrow> List.find (\<lambda>r. chunk_hash r = h) (filter P rs) =
     (case List.find (\<lambda>r. chunk_hash r = h) rs of None \<Rightarrow> None | Some r \<Rightarrow> if P r then Some r else None)" for rs
    by (induction rs) (auto split: option.splits dest!: find_Some_in intro: rev_image_eqI)
  with assms show ?thesis by (simp add: find_chunk_def)
qed

lemma FilterMissingChunks_inv:
  assumes "FilterMissingChunks pg nb hs d = (r, d')" and "store_inv K d"
  shows "store_inv K d'"
proof (cases r)
  case (Inl e)
  with assms show ?thesis using FilterMissingChunks_Inl by metis
next
  case (Inr ps)
  with assms(1) have n: "negotiated pg (set hs) d d'" using FilterMissingChunks_Inr(1) by metis
  then have fs: "files d' = files d" by (simp add: negotiated_def)
  show ?thesis
  proof (rule store_invI)
    show "distinct (map chunk_hash (chunks d'))"
      using n store_inv_distinct [OF assms(2)] by (simp add: negotiated_def)
  next
    fix h row assume h: "h \<in> K" and row: "find_chunk h d' = Some row"
    have rel: "negotiated_row pg h (h \<in> set hs) (find_chunk h d) (Some row)"
      using negotiated_rowD [OF n, of h] row by simp
    show "counted d' h row"
    proof (cases "find_chunk h d")
      case None
      then have "refs d h = 0" unfolding refs_def
        by (intro refs_in_0) (metis store_inv_file [OF assms(2)] h)
      with rel None fs show ?thesis by (auto simp: counted_def refs_def new_row_def split: if_splits)
    next
      case (Some r0)
      from store_inv_counted [OF assms(2) h Some] rel Some fs show ?thesis
        by (auto simp: counted_def refs_def split: if_splits)
    qed
  next
    fix f h assume "f \<in> set (files d')" and "h \<in> set (file_chunks f)" and "h \<in> K"
    then have "find_chunk h d \<noteq> None" using store_inv_file [OF assms(2)] fs by simp
    then show "find_chunk h d' \<noteq> None"
      using negotiated_rowD [OF n, of h] by (cases "find_chunk h d") auto
  qed
qed

lemma CommitFile_inv:
  assumes "CommitFile pg user name bytes hs d = (r, d')" and "store_inv K d" and "commit_counts pg K hs d"
  shows "store_inv K d'"
proof (cases r)
  case (Inl e)
  with assms show ?thesis by (auto simp: CommitFile_def dest: transact_Inl)
next
  case (Inr u)
  obtain arr where arr: "text_array_in pg (array_literal hs) = Some arr" and d': "d' = committed pg user name bytes arr hs d"
    using CommitFile_Inr [of pg user name bytes hs d d'] assms(1) Inr by auto
  have stored: "live h d \<and> count_list arr h \<le> count_list hs h" if "h \<in> set arr" "h \<in> K" for h
    using assms(3) arr that by (simp add: commit_counts_def)
  have find: "find_chunk h d' = map_option (bumped pg hs) (find_chunk h d)" for h
    by (simp add: d' committed_def find_chunk_def find_map_key bumped_def)
  have refs: "refs d' h = refs d h + int (count_list arr h)" for h
    by (simp add: d' committed_def refs_def refs_in_append) (simp add: refs_in_def)
  show ?thesis
  proof (rule store_invI)
    show "distinct (map chunk_hash (chunks d'))"
      using store_inv_distinct [OF assms(2)] by (simp add: d' committed_def map_keep_key bumped_def)
  next
    fix h row assume h: "h \<in> K" and "find_chunk h d' = Some row"
    then obtain r0 where r0: "find_chunk h d = Some r0" "row = bumped pg hs r0" using find by auto
    have row: "ref_count row = ref_count r0 + int (count_list hs h)"
      using find_chunk_Some [OF r0(1)] r0(2) by (auto simp: bumped_def count_list_0_iff)
    show "counted d' h row"
    proof (cases "h \<in> set arr")
      case True
      then show ?thesis using stored [OF True h] r0(1) store_inv_counted [OF assms(2) h r0(1)] row refs [of h]
        by (auto simp: counted_def live_def)
    next
      case False
      then have "count_list arr h = 0" by (simp add: count_list_0_iff)
      then show ?thesis using store_inv_counted [OF assms(2) h r0(1)] row refs [of h] by (auto simp: counted_def)
    qed
  next
    fix f h assume "f \<in> set (files d')" and h: "h \<in> set (file_chunks f)" "h \<in> K"
    then consider "f \<in> set (files d)" | "h \<in> set arr" by (auto simp: d' committed_def)
    then show "find_chunk h d' \<noteq> None"
      using store_inv_file [OF assms(2) _ h] stored [OF _ h(2)] find [of h] by cases (auto simp: live_def split: option.splits)
  qed
qed

lemma DeleteFile_dropped:
  assumes "DeleteFile pg user name d = (Inr True, d')" and "pg_ok pg"
  obtains f where "f \<in> set (files d)" and "file_matches user name f" and
    "List.find (file_matches user name) (files d) = Some f" and
    "d' = dropped user name (file_chunks f) d"
proof -
  obtain f arr where f: "List.find (file_matches user name) (files d) = Some f"
    and arr: "text_array_in pg (text_array_out pg (file_chunks f)) = Some arr" "d' = dropped user name arr d"
    using DeleteFile_Inr [OF assms(1)] by (auto split: option.splits)
  have "f \<in> set (files d)" "file_matches user name f" using find_Some_in [OF f] by auto
  moreover have "arr = file_chunks f"
    using arr(1) assms(2) by (simp add: pg_ok_def arrays_ok_def)
  ultimately show ?thesis using f arr that by blast
qed

lemma DeleteFile_inv:
  assumes "DeleteFile pg user name d = (r, d')" and "store_inv K d" and "pg_ok pg"
  shows "store_inv K d'"
proof (cases "r = Inr True")
  case False
  with assms(1,2) DeleteFile_Inr [of pg user name d _ d'] show ?thesis
    by (cases r) (auto dest: DeleteFile_Inl split: option.splits)
next
  case True
  with assms obtain f where f: "f \<in> set (files d)" "file_matches user name f"
    and d': "d' = dropped user name (file_chunks f) d" by (metis DeleteFile_dropped)
  have find: "find_chunk h d' = map_option (\<lambda>r. if chunk_hash r \<in> set (file_chunks f) then r\<lparr>ref_count := ref_count r - 1\<rparr> else r) (find_chunk h d)" for h
    by (simp add: d' dropped_def find_chunk_def find_map_key)
  have less: "refs d' h + (if h \<in> set (file_chunks f) then 1 else 0) \<le> refs d h" for h
    using refs_in_drop [where P = "file_matches user name", OF f, of h] refs_in_filter [of h]
    by (simp add: d' dropped_def refs_def)
  show ?thesis
  proof (rule store_invI)
    show "distinct (map chunk_hash (chunks d'))"
      using store_inv_distinct [OF assms(2)] by (simp add: d' dropped_def map_keep_key)
  next
    fix h row assume h: "h \<in> K" and "find_chunk h d' = Some row"
    then obtain r0 where r0: "find_chunk h d = Some r0"
      "row = (if chunk_hash r0 \<in> set (file_chunks f) then r0\<lparr>ref_count := ref_count r0 - 1\<rparr> else r0)" using find by auto
    then show "counted d' h row"
      using store_inv_counted [OF assms(2) h r0(1)] find_chunk_Some [OF r0(1)] less [of h] refs_in_pos [OF f(1), of h]
      by (auto simp: counted_def refs_def split: if_splits)
  next
    fix g h assume "g \<in> set (files d')" and h: "h \<in> set (file_chunks g)" "h \<in> K"
    then have "g \<in> set (files d)" by (simp add: d' dropped_def)
    then show "find_chunk h d' \<noteq> None"
      using store_inv_file [OF assms(2) _ h] find by auto
  qed
qed

text \<open>An update of the records that keeps them counted keeps the invariant.\<close>

lemma store_inv_update:
  assumes "store_inv K d" and hash: "\<And>r. chunk_hash (u r) = chunk_hash r"
    and keep: "\<And>h r. h \<in> K \<Longrightarrow> find_chunk h d = Some r \<Longrightarrow> p r \<Longrightarrow> counted d h (u r)"
  shows "store_inv K (update_chunks p u d)"
proof (rule store_invI)
  show "distinct (map chunk_hash (chunks (update_chunks p u d)))"
    using store_inv_distinct [OF assms(1)] by (simp add: update_chunks_hashes hash)
next
  fix h r assume h: "h \<in> K" and "find_chunk h (update_chunks p u d) = Some r"
  then obtain r0 where "find_chunk h d = Some r0" "r = (if p r0 then u r0 else r0)"
    by (auto simp: find_update_chunks hash)
  then show "counted (update_chunks p u d) h r"
    using keep [OF h] store_inv_counted [OF assms(1) h] by (auto simp: counted_def refs_def)
next
  fix f h assume "f \<in> set (files (update_chunks p u d))" "h \<in> set (file_chunks f)" "h \<in> K"
  then show "find_chunk h (update_chunks p u d) \<noteq> None"
    using store_inv_file [OF assms(1)] by (auto simp: find_update_chunks hash)
qed

lemma picked_candidates:
  assumes "pg_ok pg" and "h \<in> set (limit_chunks pg n (orphan_candidates pg e d))"
  shows "\<exists>r\<in>set (chunks d). chunk_hash r = h \<and> ref_count r = 0 \<and> created_at r < clock pg - hours e"
proof -
  have "mset (limit_chunks pg n (orphan_candidates pg e d)) \<subseteq># mset (orphan_candidates pg e d)"
    using assms(1) by (simp add: pg_ok_def limits_ok_def)
  then have "h \<in> set (orphan_candidates pg e d)" using assms(2) by (metis mset_subset_eqD set_mset_mset)
  then show ?thesis by (auto simp: orphan_candidates_def)
qed

lemma picked_row:
  assumes "store_inv K d" and "pg_ok pg" and "h \<in> set (limit_chunks pg n (orphan_candidates pg e d))"
  shows "\<exists>r. find_chunk h d = Some r \<and> ref_count r = 0 \<and> created_at r < clock pg - hours e"
  using picked_candidates [OF assms(2,3)] find_chunk_in [OF store_inv_distinct [OF assms(1)]] by blast

lemma GetOrphanedChunks_inv:
  assumes "GetOrphanedChunks pg e n d = (os, d')" and "store_inv K d" and "pg_ok pg"
  shows "store_inv K d'"
proof -
  let ?picked = "limit_chunks pg n (orphan_candidates pg e d)"
  have "store_inv K (tombstone ?picked d)"
    unfolding tombstone_def
  proof (rule store_inv_update [OF assms(2)])
    fix h r assume h: "h \<in> K" and r: "find_chunk h d = Some r" "chunk_hash r \<in> set ?picked"
    then have "h \<in> set ?picked" using find_chunk_Some by auto
    then have "ref_count r = 0" using picked_row [OF assms(2,3)] r(1) by fastforce
    then show "counted d h (r\<lparr>ref_count := - 1\<rparr>)"
      using unreferenced [OF assms(2) h r(1)] by (simp add: counted_def)
  qed simp
  then show ?thesis using assms(1,2) by (auto simp: GetOrphanedChunks_def Let_def split: if_splits)
qed

lemma RevertTombstone_inv: "store_inv K d \<Longrightarrow> store_inv K (RevertTombstone pg h d)"
proof -
  assume inv: "store_inv K d"
  let ?d = "update_chunks (\<lambda>r. chunk_hash r = h \<and> ref_count r = -1) (\<lambda>r. r\<lparr>ref_count := 0, created_at := clock pg\<rparr>) d"
  have "store_inv K ?d"
  proof (rule store_inv_update [OF inv])
    fix k r assume "k \<in> K" "find_chunk k d = Some r" "chunk_hash r = h \<and> ref_count r = -1"
    then show "counted d k (r\<lparr>ref_count := 0, created_at := clock pg\<rparr>)"
      using unreferenced [OF inv] by (simp add: counted_def)
  qed simp
  then show ?thesis using inv
    by (auto simp: RevertTombstone_def transact_def modify_def split: prod.splits sum.splits)
qed

lemma DeleteChunkRecordsBulk_eq:
  "DeleteChunkRecordsBulk pg hs d =
     (if hs = [] then (True, d)
      else if connects pg \<and> commits pg
      then (True, d\<lparr>chunks := filter (\<lambda>r. \<not> (ref_count r = -1 \<and> chunk_hash r \<in> set hs)) (chunks d)\<rparr>)
      else (False, d))"
  by (simp add: DeleteChunkRecordsBulk_def transact_def modify_def)

lemma DeleteChunkRecordsBulk_inv:
  assumes "DeleteChunkRecordsBulk pg hs d = (b, d')" and "store_inv K d"
  shows "store_inv K d'"
proof -
  let ?P = "\<lambda>r. \<not> (ref_count r = -1 \<and> chunk_hash r \<in> set hs)"
  let ?d = "d\<lparr>chunks := filter ?P (chunks d)\<rparr>"
  note find = find_filter_rows [OF store_inv_distinct [OF assms(2)]]
  have "store_inv K ?d"
  proof (rule store_invI)
    show "distinct (map chunk_hash (chunks ?d))"
      using store_inv_distinct [OF assms(2)] by (simp add: distinct_map_filter)
  next
    fix h r assume h: "h \<in> K" and "find_chunk h ?d = Some r"
    then have "find_chunk h d = Some r" unfolding find by (auto split: option.splits if_splits)
    then have "counted d h r" by (rule store_inv_counted [OF assms(2) h])
    then show "counted ?d h r" by (simp add: counted_def refs_def)
  next
    fix f h assume f: "f \<in> set (files ?d)" "h \<in> set (file_chunks f)" "h \<in> K"
    then have "f \<in> set (files d)" by simp
    with f(2,3) obtain r where r: "find_chunk h d = Some r" "1 \<le> ref_count r"
      using store_inv_referenced [OF assms(2)] by metis
    moreover have "?P r" using r(2) by simp
    ultimately show "find_chunk h ?d \<noteq> None" unfolding find by simp
  qed
  then show ?thesis using assms by (simp add: DeleteChunkRecordsBulk_eq split: if_splits)
qed

end
