(* ===== verification/Store_Safety.thy ===== *)
theory Store_Safety
  imports Store_Invariant
begin

text \<open>
  The histories of the metadata store as a step relation, one rule per operation of the
  repository, and what holds in every state they reach.
\<close>

section \<open>Histories\<close>

text \<open>
  The operations that the requests of clients, workers and administrators run, and those of the garbage
  collector. Every operation may fail at any time and is a step then, too. Nothing restricts a step but for the
  set \<open>K\<close>: the commits of the history count the hashes of \<open>K\<close> that they store (\<open>commit_counts\<close>), which the protocol
  provides for the hashes that a client negotiated (negotiate, transfer, commit, within the expiry time). With the empty
  set every history of operations is one.
\<close>

inductive request_step :: "int \<Rightarrow> string set \<Rightarrow> db \<Rightarrow> db \<Rightarrow> bool" for nb K where
  create_user: "CreateUser pg e h s d = (b, d') \<Longrightarrow> request_step nb K d d'"
| register_worker: "RegisterWorker pg ih ip ah ap sp d = (r, d') \<Longrightarrow> request_step nb K d d'"
| filter_missing: "FilterMissingChunks pg nb hs d = (r', d') \<Longrightarrow> request_step nb K d d'"
| commit_file: "commit_counts pg K hs d \<Longrightarrow> CommitFile pg u n bytes hs d = (r, d') \<Longrightarrow> request_step nb K d d'"
| delete_file: "pg_ok pg \<Longrightarrow> DeleteFile pg u n d = (r'', d') \<Longrightarrow> request_step nb K d d'"
| add_cluster: "AddCluster pg nb n ids d = (r, d') \<Longrightarrow> request_step nb K d d'"
| replace_cluster: "ReplaceCluster pg c ids d = (r, d') \<Longrightarrow> request_step nb K d d'"

inductive db_step :: "int \<Rightarrow> string set \<Rightarrow> db \<Rightarrow> db \<Rightarrow> bool" for nb K where
  request: "request_step nb K d d' \<Longrightarrow> db_step nb K d d'"
| get_orphans: "pg_ok pg \<Longrightarrow> GetOrphanedChunks pg ex lim d = (os, d') \<Longrightarrow> db_step nb K d d'"
| delete_records: "DeleteChunkRecordsBulk pg hs d = (b, d') \<Longrightarrow> db_step nb K d d'"
| revert: "db_step nb K d (RevertTombstone pg h d)"

inductive db_reachable :: "int \<Rightarrow> string set \<Rightarrow> db \<Rightarrow> bool" for nb K where
  start: "db_reachable nb K empty_db"
| step: "db_reachable nb K d \<Longrightarrow> db_step nb K d d' \<Longrightarrow> db_reachable nb K d'"

lemmas requested = db_step.request [OF request_step.create_user] db_step.request [OF request_step.register_worker]
  db_step.request [OF request_step.filter_missing] db_step.request [OF request_step.commit_file]
  db_step.request [OF request_step.delete_file] db_step.request [OF request_step.add_cluster]
  db_step.request [OF request_step.replace_cluster]

text \<open>The smaller the set, the more histories.\<close>

lemma request_step_weaken: "request_step nb K d d' \<Longrightarrow> K' \<subseteq> K \<Longrightarrow> request_step nb K' d d'"
  by (induction rule: request_step.induct) (auto intro: request_step.intros dest: commit_counts_weaken)

lemma db_step_weaken: "db_step nb K d d' \<Longrightarrow> K' \<subseteq> K \<Longrightarrow> db_step nb K' d d'"
  by (induction rule: db_step.induct) (auto intro: db_step.intros request_step_weaken)

lemma db_reachable_weaken: "db_reachable nb K d \<Longrightarrow> K' \<subseteq> K \<Longrightarrow> db_reachable nb K' d"
  by (induction rule: db_reachable.induct) (auto intro: db_reachable.intros db_step_weaken)

lemma db_reachable_steps: "(db_step nb K)\<^sup>*\<^sup>* d d' \<Longrightarrow> db_reachable nb K d \<Longrightarrow> db_reachable nb K d'"
  by (induction rule: rtranclp_induct) (auto intro: db_reachable.step)

text \<open>The operations on users, workers and clusters leave chunks and files alone.\<close>

definition same_store :: "db \<Rightarrow> db \<Rightarrow> bool" where
  "same_store d0 d \<longleftrightarrow> chunks d = chunks d0 \<and> files d = files d0"

lemma same_store_refl [simp]: "same_store d d"
  by (simp add: same_store_def)

lemma store_inv_same: "same_store d d' \<Longrightarrow> store_inv K d \<Longrightarrow> store_inv K d'"
  unfolding same_store_def by (metis store_inv_frame)

lemma same_storeI: "preserves (same_store d) m \<Longrightarrow> m d = (r, d') \<Longrightarrow> same_store d d'"
  by (drule preservesD) (simp_all add: same_store_def)

lemma preserves_VerifyNodesExist [preserves_intros]: "preserves P (VerifyNodesExist pg ids)"
  unfolding VerifyNodesExist_def Let_def by (rule preserves_intros)+

lemma CreateUser_store: "CreateUser pg e h s d = (b, d') \<Longrightarrow> same_store d d'"
proof -
  have "preserves (same_store d) (transact pg (insert_user pg e h s))"
    unfolding insert_user_def by (rule preserves_intros)+ (simp add: same_store_def)
  then show "CreateUser pg e h s d = (b, d') \<Longrightarrow> same_store d d'"
    by (auto simp: CreateUser_def split: prod.splits sum.splits dest: same_storeI)
qed

lemma RegisterWorker_store: "RegisterWorker pg ih ip ah ap sp d = (r, d') \<Longrightarrow> same_store d d'"
proof -
  have "preserves (same_store d) (RegisterWorker pg ih ip ah ap sp)"
    unfolding RegisterWorker_def by (rule preserves_intros)+ (simp add: same_store_def upsert_worker_def)
  then show "RegisterWorker pg ih ip ah ap sp d = (r, d') \<Longrightarrow> same_store d d'"
    by (rule same_storeI)
qed

lemma AddCluster_store: "AddCluster pg nb n ids d = (r, d') \<Longrightarrow> same_store d d'"
proof -
  have step: "preserves (same_store d) (case x of (existing, owned) \<Rightarrow>
      if owned - t > 0 then modify (move_buckets pg new existing (owned - t)) else ret ())" for x t new
    by (cases x) (simp add: preserves_def modify_def ret_def same_store_def move_buckets_def Let_def)
  have "preserves (same_store d) (insert_cluster pg n arr)" for arr
    unfolding insert_cluster_def by (rule preserves_intros | simp add: same_store_def)+
  moreover have "preserves (same_store d) (rebalance pg new t cs)" for new t cs
    unfolding rebalance_def by (rule preserves_for_each) (rule step)
  moreover have "preserves (same_store d) (modify (bootstrap_shards new nb))" for new
    by (rule preserves_intros)+ (simp add: same_store_def bootstrap_shards_def Let_def)
  ultimately have "preserves (same_store d) (AddCluster pg nb n ids)"
    unfolding AddCluster_def
    by (intro preserves_transact preserves_andthen preserves_VerifyNodesExist preserves_get preserves_ret) simp_all
  then show "AddCluster pg nb n ids d = (r, d') \<Longrightarrow> same_store d d'"
    by (rule same_storeI)
qed

lemma ReplaceCluster_store: "ReplaceCluster pg c ids d = (r, d') \<Longrightarrow> same_store d d'"
proof -
  have "preserves (same_store d) (ReplaceCluster pg c ids)"
    unfolding ReplaceCluster_def by (rule preserves_intros | simp add: same_store_def)+
  then show "ReplaceCluster pg c ids d = (r, d') \<Longrightarrow> same_store d d'"
    by (rule same_storeI)
qed

lemma request_step_inv: "request_step nb K d d' \<Longrightarrow> store_inv K d \<Longrightarrow> store_inv K d'"
proof (induction rule: request_step.induct)
  case (filter_missing pg hs d r' d')
  then show ?case by (blast intro: FilterMissingChunks_inv)
next
  case (commit_file pg hs d u n bytes r d')
  then show ?case by (blast intro: CommitFile_inv)
next
  case (delete_file pg u n d r'' d')
  then show ?case by (blast intro: DeleteFile_inv)
qed (blast intro: store_inv_same dest: CreateUser_store RegisterWorker_store AddCluster_store ReplaceCluster_store)+

lemma db_step_inv: "db_step nb K d d' \<Longrightarrow> store_inv K d \<Longrightarrow> store_inv K d'"
  by (induction rule: db_step.induct)
    (blast intro: request_step_inv GetOrphanedChunks_inv DeleteChunkRecordsBulk_inv RevertTombstone_inv)+

lemma reachable_store_inv: "db_reachable nb K d \<Longrightarrow> store_inv K d"
  by (induction rule: db_reachable.induct) (blast intro: store_inv_empty db_step_inv)+

section \<open>A run of the protocol\<close>

text \<open>
  A worker registers, a cluster is formed, a user signs up and commits a file whose content holds
  the same chunk twice: the states that the witnesses below evaluate.
\<close>

definition hash_a :: string where
  "hash_a = ''00000000000000000000000000000000000000000000000000000000000000aa''"

definition hash_b :: string where
  "hash_b = ''00000001000000000000000000000000000000000000000000000000000000bb''"

definition run_worker :: db where
  "run_worker = snd (RegisterWorker (sample_pg 1) ''worker_1'' 9001 ''127.0.0.1'' 9001 1000 empty_db)"

definition run_cluster :: db where
  "run_cluster = snd (AddCluster (sample_pg 2) 2 ''alpha'' [1] run_worker)"

definition run_user :: db where
  "run_user = snd (CreateUser (sample_pg 3) ''a@b.c'' ''h'' ''s'' run_cluster)"

definition run_init :: db where
  "run_init = snd (FilterMissingChunks (sample_pg 4) 2 [hash_a, hash_b, hash_a] run_user)"

definition run_commit :: db where
  "run_commit = snd (CommitFile (sample_pg 5) 1 ''f'' 3000000 [hash_a, hash_b, hash_a] run_init)"

definition run_delete :: db where
  "run_delete = snd (DeleteFile (sample_pg 6) 1 ''f'' run_commit)"

lemma reachable_worker: "db_reachable 2 K run_worker"
  unfolding run_worker_def
  by (rule db_reachable.step [OF db_reachable.start], rule db_step.request, rule request_step.register_worker, rule prod.collapse [symmetric])

lemma reachable_cluster: "db_reachable 2 K run_cluster"
  unfolding run_cluster_def
  by (rule db_reachable.step [OF reachable_worker], rule db_step.request, rule request_step.add_cluster, rule prod.collapse [symmetric])

lemma reachable_user: "db_reachable 2 K run_user"
  unfolding run_user_def
  by (rule db_reachable.step [OF reachable_cluster], rule db_step.request, rule request_step.create_user, rule prod.collapse [symmetric])

lemma reachable_init: "db_reachable 2 K run_init"
  unfolding run_init_def
  by (rule db_reachable.step [OF reachable_user], rule db_step.request, rule request_step.filter_missing, rule prod.collapse [symmetric])

lemma committable_init: "committable [hash_a, hash_b, hash_a] run_init"
  by code_simp

lemma reachable_commit: "db_reachable 2 K run_commit"
  unfolding run_commit_def
  by (rule db_reachable.step [OF reachable_init], rule db_step.request,
      rule request_step.commit_file [OF commit_counts_plain [OF committable_init sample_pg_ok]],
      rule prod.collapse [symmetric])

lemma reachable_delete: "db_reachable 2 K run_delete"
  unfolding run_delete_def
  by (rule db_reachable.step [OF reachable_commit], rule db_step.request, rule request_step.delete_file [OF sample_pg_ok],
      rule prod.collapse [symmetric])

text \<open>The states of the run, evaluated.\<close>

definition run_workers :: "worker_row list" where
  "run_workers = [\<lparr>worker_id = 1, internal_host = ''worker_1'', internal_port = 9001,
     w_advertised_host = ''127.0.0.1'', w_advertised_port = 9001, free_space = 1000,
     status = ''ACTIVE'', last_heartbeat = 1\<rparr>]"

definition run_file :: file_row where
  "run_file = \<lparr>file_id = 1, owner = 1, filename = ''f'', file_bytes = 3000000,
     file_chunks = [hash_a, hash_b, hash_a]\<rparr>"

definition run_db :: "file_row list \<Rightarrow> int \<Rightarrow> int \<Rightarrow> int \<Rightarrow> int \<Rightarrow> db" where
  "run_db fs seq t a b = \<lparr>worker_nodes = run_workers,
     users = [\<lparr>uid = 1, email = ''a@b.c'', password_hash = ''h'', salt = ''s''\<rparr>], files = fs,
     chunks = [\<lparr>chunk_hash = hash_a, nodes = [1], ref_count = a, created_at = t\<rparr>,
               \<lparr>chunk_hash = hash_b, nodes = [1], ref_count = b, created_at = t\<rparr>],
     clusters = [\<lparr>cluster_id = 1, cluster_name = ''alpha'', active_nodes = [1]\<rparr>],
     shard_map = [\<lparr>bucket_id = 0, shard_cluster = 1\<rparr>, \<lparr>bucket_id = 1, shard_cluster = 1\<rparr>],
     worker_seq = 2, user_seq = 2, file_seq = seq, cluster_seq = 2\<rparr>"

lemma run_init_eq: "run_init = run_db [] 1 4 0 0"
  by code_simp

lemma run_commit_eq: "run_commit = run_db [run_file] 2 5 2 1"
  unfolding run_commit_def run_init_eq by code_simp

lemma run_delete_eq: "run_delete = run_db [] 2 5 1 0"
  unfolding run_delete_def run_commit_eq by code_simp

section \<open>Garbage collection is safe\<close>

text \<open>C5: In every state that the operations of the repository reach, one transaction after the other, in any order and number and with any
  failures, a chunk that a committed file names has a record whose reference count is at least one, provided that every commit that
  stored this chunk found it live, with a record that is no tombstone, and had it among its hashes as often as it stored it, which
  well-formed hashes always are. The code of a commit checks neither; a client that negotiates its chunks before it commits them
  within the expiry time provides both.\<close>

theorem referenced_chunk_counted:
  assumes "db_reachable nb K d" and "f \<in> set (files d)" and "h \<in> set (file_chunks f)" and "h \<in> K"
  shows "\<exists>r. find_chunk h d = Some r \<and> 1 \<le> ref_count r"
  using store_inv_referenced [OF reachable_store_inv [OF assms(1)] assms(2-4)] .

lemma referenced_chunk_counted_witness:
  "\<exists>r. find_chunk hash_a run_commit = Some r \<and> 1 \<le> ref_count r"
  by (rule referenced_chunk_counted [OF reachable_commit [of "{hash_a}"], of run_file])
    (simp_all add: run_commit_eq run_db_def run_file_def)

text \<open>C13: The chunks the garbage collector takes in a reachable state have a record without references that was not
  negotiated for the expiry time, and it is a tombstone when the transaction commits. No committed file names such a chunk, provided
  that every commit that stored it found it live and had it among its hashes as often.\<close>

theorem orphans_unreferenced:
  assumes "db_reachable nb K d" and "pg_ok pg" and "GetOrphanedChunks pg e lim d = (os, d')" and "orp \<in> set os"
  shows "(orphan_hash orp \<in> K \<longrightarrow> refs d (orphan_hash orp) = 0) \<and>
     (\<exists>r. find_chunk (orphan_hash orp) d = Some r \<and> ref_count r = 0 \<and> created_at r < clock pg - hours e \<and>
        (commits pg \<longrightarrow> find_chunk (orphan_hash orp) d' = Some (r\<lparr>ref_count := -1\<rparr>)))"
proof -
  note inv = reachable_store_inv [OF assms(1)]
  let ?picked = "limit_chunks pg lim (orphan_candidates pg e d)"
  have h: "orphan_hash orp \<in> set ?picked" and d': "d' = (if commits pg then tombstone ?picked d else d)"
    using assms(3,4) by (auto simp: GetOrphanedChunks_def Let_def split: if_splits)
  obtain r where r: "find_chunk (orphan_hash orp) d = Some r" "ref_count r = 0" "created_at r < clock pg - hours e"
    using picked_row [OF inv assms(2) h] by auto
  then have "commits pg \<Longrightarrow> find_chunk (orphan_hash orp) d' = Some (r\<lparr>ref_count := -1\<rparr>)"
    using h find_chunk_Some [OF r(1)] by (simp add: d' tombstone_def find_update_chunks)
  with r show ?thesis using unreferenced [OF inv _ r(1)] by auto
qed

definition late :: int where
  "late = hours 48"

lemma run_orphans:
  "fst (GetOrphanedChunks (sample_pg late) 24 100 run_delete) =
     [\<lparr>orphan_hash = hash_b, locations = [\<lparr>loc_host = ''worker_1'', loc_port = 9001\<rparr>]\<rparr>]"
  unfolding run_delete_eq by code_simp

lemma orphans_unreferenced_witness: "refs run_delete hash_b = 0"
  using orphans_unreferenced [OF reachable_delete [of UNIV] sample_pg_ok prod.collapse [symmetric],
      of "\<lparr>orphan_hash = hash_b, locations = [\<lparr>loc_host = ''worker_1'', loc_port = 9001\<rparr>]\<rparr>" late 24 100]
  by (simp add: run_orphans)

section \<open>Upload negotiation\<close>

text \<open>C21: A negotiation that succeeds reports, in the order asked and as often as asked, exactly
  the hashes that have no record or no reference, each with at least one node; every hash asked
  for then has a record that is no tombstone, dated now, and no other record changes.\<close>

theorem negotiation_reports_missing:
  assumes "FilterMissingChunks pg nb hs d = (Inr ps, d')"
  shows "map plan_hash ps = filter (missing d) hs \<and> (\<forall>p\<in>set ps. assigned_nodes p \<noteq> []) \<and>
     (\<forall>h\<in>set hs. \<exists>r. find_chunk h d' = Some r \<and> ref_count r \<noteq> -1 \<and> created_at r = clock pg) \<and>
     (\<forall>h. h \<notin> set hs \<longrightarrow> find_chunk h d' = find_chunk h d)"
proof -
  note n = negotiated_rowD [OF FilterMissingChunks_Inr(1) [OF assms]]
  have "\<exists>r. find_chunk h d' = Some r \<and> ref_count r \<noteq> -1 \<and> created_at r = clock pg" if "h \<in> set hs" for h
    using n [of h] that by (cases "find_chunk h d") (auto simp: new_row_def)
  moreover have "find_chunk h d' = find_chunk h d" if "h \<notin> set hs" for h
    using n [of h] that by (cases "find_chunk h d") auto
  ultimately show ?thesis using FilterMissingChunks_Inr(2,3) [OF assms] by blast
qed

lemma run_negotiation: "FilterMissingChunks (sample_pg 4) 2 [hash_a, hash_b, hash_a] run_user =
   (Inr (map (\<lambda>h. \<lparr>plan_hash = h, assigned_nodes = [\<lparr>advertised_host = ''127.0.0.1'', advertised_port = 9001\<rparr>]\<rparr>)
      [hash_a, hash_b, hash_a]), run_db [] 1 4 0 0)"
  by code_simp

lemma negotiation_reports_missing_witness: "filter (missing run_user) [hash_a, hash_b, hash_a] = [hash_a, hash_b, hash_a]"
  using negotiation_reports_missing [OF run_negotiation] by (simp add: comp_def)

text \<open>A negotiation that asks for a chunk under deletion (a tombstone) fails and changes nothing.\<close>

theorem negotiation_refuses_tombstones:
  assumes "h \<in> set hs" and "find_chunk h d = Some r" and "ref_count r = -1"
  shows "\<exists>e. FilterMissingChunks pg nb hs d = (Inl e, d)"
proof -
  obtain res d' where res: "FilterMissingChunks pg nb hs d = (res, d')" by fastforce
  show ?thesis
  proof (cases res)
    case (Inl e)
    with res show ?thesis using FilterMissingChunks_Inl by blast
  next
    case (Inr ps)
    with negotiated_rowD [OF FilterMissingChunks_Inr(1), of pg nb hs d ps d' h] res assms show ?thesis by simp
  qed
qed

lemma negotiation_refuses_tombstones_witness:
  "\<exists>e. FilterMissingChunks (sample_pg 6) 2 [hash_b, hash_a] (run_db [] 2 5 (-1) 0) = (Inl e, run_db [] 2 5 (-1) 0)"
  by (rule negotiation_refuses_tombstones [of hash_a _ _ "\<lparr>chunk_hash = hash_a, nodes = [1], ref_count = -1, created_at = 5\<rparr>"])
    (simp_all add: run_db_def find_chunk_def hash_a_def)

text \<open>Negotiating hashes that are all referenced touches their records and reports nothing.\<close>

lemma for_collect_known:
  assumes "\<forall>h\<in>set hs. \<exists>r. find_chunk h d = Some r \<and> 1 \<le> ref_count r"
  shows "for_collect (filter_one pg nb) hs d = (Inr [], fold (touch pg) hs d)"
  using assms
proof (induction hs arbitrary: d)
  case (Cons h hs)
  then obtain r where r: "find_chunk h d = Some r" "1 \<le> ref_count r" by auto
  then have "filter_one pg nb h d = (Inr None, touch pg h d)"
    by (simp add: filter_one_def filter_known_def outcome_simps)
  moreover have "\<exists>r. find_chunk k (touch pg h d) = Some r \<and> 1 \<le> ref_count r" if k: "k \<in> set hs" for k
  proof -
    obtain q where "find_chunk k d = Some q" "1 \<le> ref_count q"
      using Cons.prems k by auto
    then show ?thesis by (simp add: find_touch)
  qed
  ultimately show ?case using Cons.IH by (simp add: outcome_simps)
qed (simp add: outcome_simps)

text \<open>C26: Deduplication: once a file is committed whose chunks were all live, negotiating the same chunks again reports
  none as missing, so a second upload transfers nothing.\<close>

theorem committed_chunks_deduplicate:
  assumes "\<forall>h\<in>set hs. live h d" and "CommitFile pg user name bytes hs d = (Inr (), d1)" and "connects pg'" and "commits pg'"
  shows "fst (FilterMissingChunks pg' nb hs d1) = Inr []"
proof -
  have "\<exists>r. find_chunk h d1 = Some r \<and> 1 \<le> ref_count r" if h: "h \<in> set hs" for h
  proof -
    obtain arr where d1: "d1 = committed pg user name bytes arr hs d" using CommitFile_Inr [OF assms(2)] by blast
    obtain r where r: "find_chunk h d = Some r" "0 \<le> ref_count r" using assms(1) h by (auto simp: live_def split: option.splits)
    then have "find_chunk h d1 = Some (bumped pg hs r)"
      by (simp add: d1 committed_def find_chunk_def find_map_key bumped_def)
    moreover have "1 \<le> ref_count (bumped pg hs r)"
      using r find_chunk_Some [OF r(1)] h count_list_0_iff [of hs h] by (auto simp: bumped_def simp del: count_list_0_iff)
    ultimately show ?thesis by blast
  qed
  then show ?thesis using for_collect_known [of hs d1 pg' nb] assms(3,4) by (simp add: FilterMissingChunks_def transact_def)
qed

lemma run_commit_result:
  "CommitFile (sample_pg 5) 1 ''f'' 3000000 [hash_a, hash_b, hash_a] run_init = (Inr (), run_commit)"
proof -
  have "fst (CommitFile (sample_pg 5) 1 ''f'' 3000000 [hash_a, hash_b, hash_a] run_init) = Inr ()"
    unfolding run_init_eq by code_simp
  then show ?thesis by (simp add: run_commit_def prod_eq_iff)
qed

lemma committed_chunks_deduplicate_witness:
  "fst (FilterMissingChunks (sample_pg 7) 2 [hash_a, hash_b, hash_a] run_commit) = Inr []"
  by (rule committed_chunks_deduplicate [OF _ run_commit_result])
    (use committable_init in \<open>simp_all add: committable_def sample_pg_def\<close>)

end
