(* ===== verification/File_Catalog.thy ===== *)
theory File_Catalog
  imports Store_Safety
begin

text \<open>
  The catalogue of files: what a download plan says of a committed file, what deleting a file
  undoes, and that one user's operations leave the files of the others alone.
\<close>

section \<open>Download plans\<close>

lemma file_matches_iff: "file_matches u n f \<longleftrightarrow> owner f = u \<and> filename f = n"
  by (auto simp: file_matches_def)

definition no_such_file :: "int \<Rightarrow> string \<Rightarrow> db \<Rightarrow> bool" where
  "no_such_file u n d \<longleftrightarrow> (\<forall>f\<in>set (files d). \<not> file_matches u n f)"

lemma find_conv_filter: "List.find P xs = (case filter P xs of [] \<Rightarrow> None | x # _ \<Rightarrow> Some x)"
  by (induction xs) auto

lemma find_no_such_file: "List.find (file_matches u n) (files d) = None \<longleftrightarrow> no_such_file u n d"
  by (auto simp: find_None_conv no_such_file_def)

text \<open>The rows of one file, in its order, without the chunks that have no record.\<close>

lemma sort_rows: "sort_key fst (List.map_filter (\<lambda>(i, h). map_option (\<lambda>c. (i, h, g c)) (t h)) (enumerate n hs))
    = List.map_filter (\<lambda>(i, h). map_option (\<lambda>c. (i, h, g c)) (t h)) (enumerate n hs)"
proof -
  let ?rows = "\<lambda>n hs. List.map_filter (\<lambda>(i, h). map_option (\<lambda>c. (i, h, g c)) (t h)) (enumerate n hs)"
  have low: "\<forall>x\<in>set (?rows n hs). n \<le> fst x" for n :: nat and hs
    by (induction hs arbitrary: n) (fastforce simp: map_filter_simps dest: Suc_leD split: option.splits)+
  have "sorted (map fst (?rows n hs))"
  proof (induction hs arbitrary: n)
    case (Cons h hs)
    then show ?case using low [of "Suc n" hs]
      by (auto simp: map_filter_simps split: option.splits intro: Suc_leD)
  qed (simp add: map_filter_simps)
  then show ?thesis by (rule sort_key_id_if_sorted)
qed

lemma plan_rows_one:
  assumes "filter (file_matches u n) (files d) = [f]"
  shows "map (\<lambda>(i, h, x). h) (plan_rows u n d) = filter (\<lambda>h. find_chunk h d \<noteq> None) (file_chunks f)"
proof -
  have "map (\<lambda>(i, h, x). h) (List.map_filter (\<lambda>(i, h). map_option (\<lambda>c. (i, h, node_objects (nodes c) d)) (find_chunk h d))
      (enumerate k hs)) = filter (\<lambda>h. find_chunk h d \<noteq> None) hs" for k hs
    by (induction hs arbitrary: k) (auto simp: map_filter_simps split: option.splits)
  then show ?thesis by (simp add: plan_rows_def assms sort_rows)
qed

lemma plan_hash_Parse [simp]: "plan_hash (ParseNodePlanFromJson h x) = h"
  by (simp add: ParseNodePlanFromJson_def split: option.splits)

lemma GetDownloadPlan_one:
  assumes "filter (file_matches u n) (files d) = [f]" and "connects pg" and "commits pg"
  shows "\<exists>m. GetDownloadPlan pg u n d = (Inr m, d) \<and> file_size m = file_bytes f \<and>
     map plan_hash (plans m) = filter (\<lambda>h. find_chunk h d \<noteq> None) (file_chunks f)"
proof -
  have "List.find (file_matches u n) (files d) = Some f"
    using assms(1) by (simp add: find_conv_filter)
  then show ?thesis using assms(2,3) plan_rows_one [OF assms(1)]
    by (simp add: GetDownloadPlan_def transact_def outcome_simps comp_def case_prod_unfold)
qed

text \<open>C28: Round trip: a file committed under a new name is planned for download with its size and
  exactly its chunks, in order, and planning changes nothing.\<close>

theorem commit_then_plan:
  assumes "pg_ok pg" and "committable hs d" and "no_such_file u n d"
    and "CommitFile pg u n bytes hs d = (Inr (), d1)" and "connects pg'" and "commits pg'"
  shows "\<exists>m. GetDownloadPlan pg' u n d1 = (Inr m, d1) \<and> file_size m = bytes \<and> map plan_hash (plans m) = hs"
proof -
  have d1: "d1 = committed pg u n bytes hs hs d"
    using CommitFile_plain [OF assms(4,1)] assms(2) by (simp add: committable_def)
  then obtain f where f: "filter (file_matches u n) (files d1) = [f]" "file_bytes f = bytes" "file_chunks f = hs"
    using assms(3) by (simp add: committed_def file_matches_iff no_such_file_def)
  have "find_chunk h d1 \<noteq> None" if "h \<in> set hs" for h
  proof -
    have "live h d" using assms(2) that by (simp add: committable_def)
    then obtain r where "find_chunk h d = Some r" unfolding live_def by (cases "find_chunk h d") simp_all
    then have "find_chunk h d1 = Some (bumped pg hs r)"
      by (simp add: d1 committed_def find_chunk_def find_map_key bumped_def)
    then show ?thesis by simp
  qed
  then have "filter (\<lambda>h. find_chunk h d1 \<noteq> None) hs = hs" by (simp add: filter_id_conv)
  with GetDownloadPlan_one [OF f(1) assms(5,6)] f show ?thesis by simp
qed

lemma commit_then_plan_witness:
  "\<exists>m. GetDownloadPlan (sample_pg 7) 1 ''f'' run_commit = (Inr m, run_commit) \<and> file_size m = 3000000 \<and>
     map plan_hash (plans m) = [hash_a, hash_b, hash_a]"
  by (rule commit_then_plan [OF sample_pg_ok committable_init _ run_commit_result])
    (simp_all add: sample_pg_def no_such_file_def run_init_eq run_db_def)

text \<open>A commit is not checked against the chunk table: hashes nobody ever uploaded are
  committed without an error, and the plan for the file then has none of them.\<close>

theorem commit_of_unknown_chunks:
  assumes "pg_ok pg" and "\<forall>h\<in>set hs. plain_element h \<and> find_chunk h d = None" and "no_such_file u n d"
    and "u \<in> uid ` set (users d)" and "varchar_fits pg 255 n" and "connects pg" and "commits pg"
  shows "\<exists>d1 m. CommitFile pg u n bytes hs d = (Inr (), d1) \<and>
     GetDownloadPlan pg u n d1 = (Inr m, d1) \<and> file_size m = bytes \<and> plans m = []"
proof -
  let ?f = "\<lparr>file_id = file_seq d, owner = u, filename = n, file_bytes = bytes, file_chunks = hs\<rparr>"
  let ?d1 = "d\<lparr>files := files d @ [?f], file_seq := file_seq d + 1\<rparr>"
  have loop: "for_each (bump pg) ks e = (Inr (), e)" if "\<forall>h\<in>set ks. h \<notin> chunk_hash ` set (chunks e)" for ks e
    using that
  proof (induction ks)
    case (Cons k ks)
    then have "update_chunks (\<lambda>r. chunk_hash r = k) u e = e" for u
      by (auto simp: update_chunks_def intro!: map_idI db.equality)
    then have "bump pg k e = (Inr (), e)" using Cons.prems by (auto simp: add_refs_Inr)
    then show ?case using Cons by (simp add: outcome_simps)
  qed (simp add: outcome_simps)
  have "text_array_in pg (array_literal hs) = Some hs" using assms(1,2) by (simp add: pg_ok_def arrays_ok_def)
  moreover have "insert_file pg u n bytes hs d = (Inr (), ?d1)"
    using assms(4,5) by (simp add: insert_file_def outcome_simps)
  moreover have "for_each (bump pg) hs ?d1 = (Inr (), ?d1)"
    using assms(2) by (intro loop) (simp add: find_chunk_None)
  ultimately have "CommitFile pg u n bytes hs d = (Inr (), ?d1)"
    using assms(6,7) by (simp add: CommitFile_def transact_def outcome_simps)
  moreover have "filter (file_matches u n) (files ?d1) = [?f]"
    using assms(3) by (simp add: file_matches_iff no_such_file_def)
  moreover have "filter (\<lambda>h. find_chunk h ?d1 \<noteq> None) hs = []"
    using assms(2) by (simp add: filter_empty_conv find_chunk_def)
  ultimately show ?thesis using GetDownloadPlan_one [of u n ?d1 ?f pg] assms(6,7) by simp
qed

lemma commit_of_unknown_chunks_witness:
  "\<exists>d1 m. CommitFile (sample_pg 4) 1 ''f'' 5 [hash_a] run_user = (Inr (), d1) \<and>
     GetDownloadPlan (sample_pg 4) 1 ''f'' d1 = (Inr m, d1) \<and> file_size m = 5 \<and> plans m = []"
  by (rule commit_of_unknown_chunks [OF sample_pg_ok]; code_simp)

section \<open>Deleting\<close>

text \<open>C37: After a successful delete the user has no file of that name: it does not exist, planning
  its download is refused, and every other file is still there.\<close>

theorem deleted_file_is_gone:
  assumes "DeleteFile pg u n d = (Inr True, d')" and "connects pg'" and "commits pg'"
  shows "FileExists pg' u n d' = (Inr False, d') \<and>
     GetDownloadPlan pg' u n d' = (Inl (RuntimeError ''File not found or access denied.''), d') \<and>
     files d' = filter (\<lambda>f. \<not> file_matches u n f) (files d)"
proof -
  have fs: "files d' = filter (\<lambda>f. \<not> file_matches u n f) (files d)"
    using DeleteFile_Inr [OF assms(1)] by (auto simp: dropped_def split: option.splits)
  then have "List.find (file_matches u n) (files d') = None" by (simp add: find_None_conv)
  then show ?thesis using assms(2,3) fs
    by (simp add: FileExists_def GetDownloadPlan_def transact_def outcome_simps)
qed

lemma run_delete_result: "DeleteFile (sample_pg 6) 1 ''f'' run_commit = (Inr True, run_delete)"
proof -
  have "fst (DeleteFile (sample_pg 6) 1 ''f'' run_commit) = Inr True"
    unfolding run_commit_eq by code_simp
  then show ?thesis by (simp add: run_delete_def prod_eq_iff)
qed

lemma deleted_file_is_gone_witness: "FileExists (sample_pg 7) 1 ''f'' run_delete = (Inr False, run_delete)"
  using deleted_file_is_gone [OF run_delete_result, of "sample_pg 7"] by (simp add: sample_pg_def)

lemma commit_keeps_others:
  assumes "CommitFile pg u n bytes hs d = (r, d')" and "v \<noteq> u"
  shows "filter (\<lambda>f. owner f = v) (files d') = filter (\<lambda>f. owner f = v) (files d)"
proof (cases r)
  case (Inl e)
  with assms show ?thesis by (auto simp: CommitFile_def dest: transact_Inl)
next
  case (Inr x)
  with assms CommitFile_Inr [of pg u n bytes hs d d'] show ?thesis by (auto simp: committed_def)
qed

lemma delete_keeps_others:
  assumes "DeleteFile pg u n d = (r, d')" and "v \<noteq> u"
  shows "filter (\<lambda>f. owner f = v) (files d') = filter (\<lambda>f. owner f = v) (files d)"
proof -
  have keep: "filter (\<lambda>f. owner f = v) (filter (\<lambda>f. \<not> file_matches u n f) fs) = filter (\<lambda>f. owner f = v) fs" for fs
    using assms(2) by (induction fs) (auto simp: file_matches_iff)
  show ?thesis
  proof (cases r)
    case (Inl e)
    with assms show ?thesis by (auto dest: DeleteFile_Inl)
  next
    case (Inr x)
    with assms DeleteFile_Inr [of pg u n d x d'] keep show ?thesis by (auto simp: dropped_def split: option.splits)
  qed
qed

text \<open>C29: Tenants are isolated: committing or deleting as one user leaves the files of every
  other user, their order included, as they are, whether the operation succeeds or fails.\<close>

theorem tenants_isolated:
  assumes "CommitFile pg u n bytes hs d = (r, d') \<or> DeleteFile pg u n d = (r', d')" and "v \<noteq> u"
  shows "filter (\<lambda>f. owner f = v) (files d') = filter (\<lambda>f. owner f = v) (files d)"
  using assms commit_keeps_others delete_keeps_others by blast

lemma tenants_isolated_witness: "filter (\<lambda>f. owner f = 2) (files run_delete) = filter (\<lambda>f. owner f = 2) (files run_commit)"
  by (rule tenants_isolated [OF disjI2 [OF run_delete_result]]) simp

text \<open>C30: Deleting a file releases one reference per chunk, however often the file holds it:
  a commit followed by the delete leaves a chunk that occurs k times with k - 1
  references too many, so a repeated chunk is never collected.\<close>

theorem delete_releases_once:
  assumes "pg_ok pg" and "committable hs d" and "no_such_file u n d"
    and "CommitFile pg u n bytes hs d = (Inr (), d1)" and "DeleteFile pg u n d1 = (Inr True, d2)"
    and "find_chunk h d = Some r" and "h \<in> set hs"
  shows "\<exists>r'. find_chunk h d2 = Some r' \<and> ref_count r' = ref_count r + int (count_list hs h) - 1"
proof -
  have d1: "d1 = committed pg u n bytes hs hs d"
    using CommitFile_plain [OF assms(4,1)] assms(2) by (simp add: committable_def)
  then have first: "List.find (file_matches u n) (files d1) =
      Some \<lparr>file_id = file_seq d, owner = u, filename = n, file_bytes = bytes, file_chunks = hs\<rparr>"
    using assms(3) by (simp add: find_conv_filter committed_def file_matches_iff no_such_file_def)
  obtain g where "List.find (file_matches u n) (files d1) = Some g" and "d2 = dropped u n (file_chunks g) d1"
    using DeleteFile_dropped [OF assms(5,1)] by metis
  moreover from this have "file_chunks g = hs" using first by auto
  ultimately have "d2 = dropped u n hs d1" by simp
  then have "find_chunk h d2 = map_option (\<lambda>r. if chunk_hash r \<in> set hs then r\<lparr>ref_count := ref_count r - 1\<rparr> else r) (find_chunk h d1)"
    by (simp add: dropped_def find_chunk_def find_map_key)
  moreover have "find_chunk h d1 = Some (bumped pg hs r)"
    using assms(6) by (simp add: d1 committed_def find_chunk_def find_map_key bumped_def)
  moreover have "chunk_hash r = h" using find_chunk_Some [OF assms(6)] by simp
  ultimately show ?thesis using assms(7) by (auto simp: bumped_def)
qed

text \<open>
  What the missing check costs: user 1 commits a hash before anybody negotiated it, user 2 negotiates and commits the same hash,
  and user 1 deletes its file. The record then counts no reference although the file of user 2 names the chunk, and a collection
  after the expiry time takes it.
\<close>

definition run_blind :: db where
  "run_blind = (let d1 = snd (CreateUser (sample_pg 5) ''c@d.e'' ''h'' ''s'' run_user);
     d2 = snd (CommitFile (sample_pg 5) 1 ''blind'' 5 [hash_a] d1);
     d3 = snd (FilterMissingChunks (sample_pg 5) 2 [hash_a] d2);
     d4 = snd (CommitFile (sample_pg 5) 2 ''f'' 5 [hash_a] d3) in
     snd (DeleteFile (sample_pg 5) 1 ''blind'' d4))"

theorem blind_commit_loses_chunk:
  "map (\<lambda>f. (owner f, filename f, file_chunks f)) (files run_blind) = [(2, ''f'', [hash_a])] \<and>
   map (\<lambda>r. (chunk_hash r, ref_count r)) (chunks run_blind) = [(hash_a, 0)] \<and>
   map orphan_hash (fst (GetOrphanedChunks (sample_pg late) 24 100 run_blind)) = [hash_a]"
  unfolding run_blind_def by code_simp

lemma run_delete_result': "DeleteFile (sample_pg 5) 1 ''f'' run_commit = (Inr True, run_delete)"
  unfolding run_delete_eq run_commit_eq by code_simp

lemma delete_releases_once_witness: "\<exists>r'. find_chunk hash_a run_delete = Some r' \<and> ref_count r' = 1"
proof -
  have none: "no_such_file 1 ''f'' run_init" by (simp add: no_such_file_def run_init_eq run_db_def)
  have row: "find_chunk hash_a run_init =
      Some \<lparr>chunk_hash = hash_a, nodes = [1], ref_count = 0, created_at = 4\<rparr>"
    by (simp add: run_init_eq run_db_def find_chunk_def)
  have "hash_b \<noteq> hash_a" by (simp add: hash_a_def hash_b_def)
  then show ?thesis
    using delete_releases_once [OF sample_pg_ok committable_init none run_commit_result run_delete_result' row]
    by simp
qed

end
