(* ===== verification/Cluster_Balance.thy ===== *)
theory Cluster_Balance
  imports Store_Safety
begin

text \<open>
  The clusters and the map from buckets to clusters: which shape the shard map always has, that
  every hash finds its nodes once a cluster exists, how a new cluster takes its share of the
  buckets, and what replacing the nodes of a cluster does to the workers.
\<close>

section \<open>The shape of the shard map\<close>

definition shards_inv :: "int \<Rightarrow> db \<Rightarrow> bool" where
  "shards_inv nb d \<longleftrightarrow>
     (shard_map d = [] \<or> map bucket_id (shard_map d) = [0..nb - 1]) \<and>
     shard_cluster ` set (shard_map d) \<subseteq> set (map cluster_id (clusters d)) \<and>
     (\<forall>c\<in>set (map cluster_id (clusters d)). c < cluster_seq d)"

text \<open>What the operations on users, chunks and files leave alone, and the part of it the shard map
  depends on.\<close>

definition same_topology :: "db \<Rightarrow> db \<Rightarrow> bool" where
  "same_topology d0 d \<longleftrightarrow> shard_map d = shard_map d0 \<and> cluster_seq d = cluster_seq d0 \<and>
     clusters d = clusters d0 \<and> worker_nodes d = worker_nodes d0"

definition same_shards :: "db \<Rightarrow> db \<Rightarrow> bool" where
  "same_shards d0 d \<longleftrightarrow> shard_map d = shard_map d0 \<and> cluster_seq d = cluster_seq d0 \<and>
     map cluster_id (clusters d) = map cluster_id (clusters d0)"

lemma same_shards_refl [simp]: "same_shards d d"
  by (simp add: same_shards_def)

lemma shards_inv_same: "same_shards d d' \<Longrightarrow> shards_inv nb d \<Longrightarrow> shards_inv nb d'"
  by (simp only: same_shards_def shards_inv_def) simp

lemma same_shardsI: "preserves (same_shards d) m \<Longrightarrow> m d = (r, d') \<Longrightarrow> same_shards d d'"
  by (drule preservesD) (simp_all add: same_shards_def)

lemma same_topologyI: "preserves (same_topology d) m \<Longrightarrow> m d = (r, d') \<Longrightarrow> same_topology d d'"
  by (drule preservesD) (simp_all add: same_topology_def)

lemma same_topology_shards: "same_topology d d' \<Longrightarrow> same_shards d d'"
  by (simp add: same_topology_def same_shards_def)

lemma same_topology_chunks: "same_topology d0 d \<Longrightarrow> same_topology d0 (update_chunks p u d)"
  by (simp add: same_topology_def update_chunks_def)

lemma preserves_same_add_refs: "preserves (same_topology d) (add_refs k p u)"
  unfolding add_refs_def by (rule preserves_intros | simp add: same_topology_chunks)+

lemma preserves_as_field [preserves_intros]: "preserves P (as_field v)"
  by (cases v) (simp_all add: outcome_simps preserves_intros)

lemma preserves_same_filter_one: "preserves (same_topology d) (filter_one pg nb h)"
proof -
  have insert: "preserves (same_topology d) (insert_chunk pg h arr)" for arr
    unfolding insert_chunk_def by (rule preserves_intros | simp add: same_topology_def)+
  have new: "preserves (same_topology d) (filter_new pg nb h)"
  proof (cases "CalculateBucketId h nb")
    case (Inr b)
    show ?thesis unfolding filter_new_def Inr sum.case
      by (rule preserves_andthen [OF preserves_get], split option.split)
        (auto intro!: preserves_intros insert)
  qed (simp add: filter_new_def preserves_throw)
  have known: "preserves (same_topology d) (filter_known pg h row v)" for row v
    unfolding filter_known_def touch_def
    by (auto intro!: preserves_intros same_topology_chunks)
  show ?thesis unfolding filter_one_def
    by (rule preserves_andthen [OF preserves_get]) (auto simp: new known split: option.splits prod.splits)
qed

lemma preserves_for_collect [preserves_intros]:
  "(\<And>x. preserves P (f x)) \<Longrightarrow> preserves P (for_collect f xs)"
  by (induction xs) (auto intro!: preserves_intros)

text \<open>Only a heartbeat and the two administrative operations touch workers, clusters and shards.\<close>

lemma step_topology:
  assumes "db_step nb K d d'"
  shows "same_topology d d' \<or> (\<exists>pg ih ip ah ap sp r. RegisterWorker pg ih ip ah ap sp d = (r, d')) \<or>
     (\<exists>pg n ids r. AddCluster pg nb n ids d = (r, d')) \<or> (\<exists>pg c ids r. ReplaceCluster pg c ids d = (r, d'))"
  using assms
proof (cases rule: db_step.cases)
  case request
  then show ?thesis
  proof (cases rule: request_step.cases)
  case (create_user pg e h s b)
  have "preserves (same_topology d) (transact pg (insert_user pg e h s))"
    unfolding insert_user_def by (rule preserves_intros)+ (simp add: same_topology_def)
  then show ?thesis using create_user
    by (auto simp: CreateUser_def split: prod.splits sum.splits dest!: same_topologyI)
next
  case (filter_missing pg hs r)
  have "preserves (same_topology d) (FilterMissingChunks pg nb hs)"
    unfolding FilterMissingChunks_def by (intro preserves_intros preserves_same_filter_one)
  then show ?thesis using filter_missing by (blast dest: same_topologyI)
next
  case (commit_file pg hs u n bytes r)
  have "preserves (same_topology d) (CommitFile pg u n bytes hs)"
    unfolding CommitFile_def insert_file_def
    by (intro preserves_intros preserves_same_add_refs) (simp add: same_topology_def)
  then show ?thesis using commit_file by (blast dest: same_topologyI)
next
  case (delete_file pg u n r)
  then show ?thesis
    by (cases r) (auto simp: same_topology_def dropped_def dest!: DeleteFile_Inl DeleteFile_Inr split: option.splits)
  qed blast+
next
  case (get_orphans pg ex lim os)
  then show ?thesis
    by (auto simp: GetOrphanedChunks_def tombstone_def Let_def same_topology_def update_chunks_def split: if_splits)
next
  case (delete_records pg hs b)
  then show ?thesis
    by (auto simp: DeleteChunkRecordsBulk_def transact_def modify_def same_topology_def split: if_splits)
next
  case (revert pg h)
  then show ?thesis
    by (simp add: RevertTombstone_def transact_def modify_def same_topology_def update_chunks_def)
qed

lemma bucket_counts_empty: "bucket_counts d = [] \<longleftrightarrow> shard_map d = []"
  by (simp add: bucket_counts_def)

lemma set_bucket_counts: "fst ` set (bucket_counts d) = shard_cluster ` set (shard_map d)"
  by (auto simp: bucket_counts_def image_iff)


section \<open>Every step keeps the shape\<close>

lemma shards_inv_start: "shards_inv nb empty_db"
  by (simp add: shards_inv_def empty_db_def)

lemma shards_inv_bootstrap:
  assumes "shards_inv nb d" and "shard_map d = []" and "n \<in> cluster_id ` set (clusters d)"
  shows "shards_inv nb (bootstrap_shards n nb d)"
  using assms by (auto simp: shards_inv_def bootstrap_shards_def comp_def)

lemma shards_inv_move:
  assumes "shards_inv nb d" and "n \<in> cluster_id ` set (clusters d)"
  shows "shards_inv nb (move_buckets pg n c k d)"
  using assms by (auto simp: shards_inv_def move_buckets_def Let_def comp_def if_distrib [of bucket_id] cong: if_cong)

lemma insert_cluster_Inr:
  "insert_cluster pg name arr d = (Inr n, d') \<longleftrightarrow>
     n = cluster_seq d \<and> varchar_fits pg 50 name \<and> name \<notin> cluster_name ` set (clusters d) \<and>
     (\<exists>ids. int_array_in pg arr = Some ids \<and>
        d' = d\<lparr>clusters := clusters d @ [\<lparr>cluster_id = cluster_seq d, cluster_name = name, active_nodes = ids\<rparr>],
               cluster_seq := cluster_seq d + 1\<rparr>)"
  by (auto simp: insert_cluster_def andthen_eq_Inr outcome_simps)

lemma VerifyNodesExist_state: "VerifyNodesExist pg ids d = (r, d') \<Longrightarrow> d' = d"
  using preservesD [OF preserves_VerifyNodesExist, where P = "\<lambda>x. x = d"] by simp

lemma shards_inv_insert:
  assumes "shards_inv nb d" and "insert_cluster pg name arr d = (Inr n, d')"
  shows "shards_inv nb d' \<and> n \<in> cluster_id ` set (clusters d') \<and> shard_map d' = shard_map d \<and> n = cluster_seq d"
proof -
  obtain ids where d': "d' = d\<lparr>clusters := clusters d @ [\<lparr>cluster_id = cluster_seq d, cluster_name = name, active_nodes = ids\<rparr>],
      cluster_seq := cluster_seq d + 1\<rparr>" and n: "n = cluster_seq d"
    using assms(2) by (auto simp: insert_cluster_Inr)
  have "\<forall>c\<in>set (clusters d). cluster_id c < cluster_seq d + 1"
    using assms(1) by (fastforce simp: shards_inv_def)
  then show ?thesis using assms(1) n by (auto simp: d' shards_inv_def)
qed

text \<open>The loop over the clusters as a function on the tables.\<close>

fun takeover :: "pg \<Rightarrow> int \<Rightarrow> int \<Rightarrow> (int \<times> int) list \<Rightarrow> db \<Rightarrow> db" where
  "takeover pg n t [] d = d"
| "takeover pg n t ((c, k) # cs) d =
     takeover pg n t cs (if k - t > 0 then move_buckets pg n c (k - t) d else d)"

lemma rebalance_takeover: "rebalance pg n t cs d = (Inr (), takeover pg n t cs d)"
  unfolding rebalance_def by (induction cs arbitrary: d) (auto simp: outcome_simps)

definition share :: "int \<Rightarrow> db \<Rightarrow> int" where
  "share nb d = trunc_div nb (int (length (bucket_counts d)) + 1)"

lemma AddCluster_Inr:
  assumes "AddCluster pg nb name ids d = (Inr (), d')"
  obtains e where "insert_cluster pg name (array_literal (map to_string ids)) d = (Inr (cluster_seq d), e)"
    and "d' = (if shard_map e = [] then bootstrap_shards (cluster_seq d) nb e
               else takeover pg (cluster_seq d) (share nb e) (bucket_counts e) e)"
proof -
  obtain e n where e: "insert_cluster pg name (array_literal (map to_string ids)) d = (Inr n, e)"
    and rest: "(if bucket_counts e = [] then modify (bootstrap_shards n nb)
       else rebalance pg n (trunc_div nb (int (length (bucket_counts e)) + 1)) (bucket_counts e)) e = (Inr (), d')"
    using assms by (auto simp: AddCluster_def transact_eq_Inr andthen_eq_Inr outcome_simps dest: VerifyNodesExist_state)
  have "n = cluster_seq d" using e by (simp add: insert_cluster_Inr)
  moreover from rest have "d' = (if shard_map e = [] then bootstrap_shards n nb e
      else takeover pg n (share nb e) (bucket_counts e) e)"
    by (auto simp: rebalance_takeover bucket_counts_empty outcome_simps share_def split: if_splits)
  ultimately show ?thesis using e that by blast
qed

lemma move_buckets_frame [simp]: "clusters (move_buckets pg n c k d) = clusters d"
  by (simp add: move_buckets_def Let_def)

lemma shards_inv_takeover:
  "shards_inv nb d \<Longrightarrow> n \<in> cluster_id ` set (clusters d) \<Longrightarrow> shards_inv nb (takeover pg n t cs d)"
  by (induction pg n t cs d rule: takeover.induct) (simp_all add: shards_inv_move)

lemma AddCluster_shards:
  assumes "AddCluster pg nb name ids d = (r, d')" and "shards_inv nb d"
  shows "shards_inv nb d'"
proof (cases r)
  case (Inl e)
  with assms show ?thesis by (auto simp: AddCluster_def dest: transact_Inl)
next
  case (Inr x)
  with assms(1) have "AddCluster pg nb name ids d = (Inr (), d')" by simp
  then obtain e where e: "insert_cluster pg name (array_literal (map to_string ids)) d = (Inr (cluster_seq d), e)"
    and d': "d' = (if shard_map e = [] then bootstrap_shards (cluster_seq d) nb e
               else takeover pg (cluster_seq d) (share nb e) (bucket_counts e) e)"
    by (rule AddCluster_Inr)
  show ?thesis using shards_inv_insert [OF assms(2) e] unfolding d'
    by (simp add: shards_inv_bootstrap shards_inv_takeover)
qed

lemma RegisterWorker_shards: "RegisterWorker pg ih ip ah ap sp d = (r, d') \<Longrightarrow> same_shards d d'"
proof -
  have "preserves (same_shards d) (RegisterWorker pg ih ip ah ap sp)"
    unfolding RegisterWorker_def by (rule preserves_intros)+ (simp add: same_shards_def upsert_worker_def)
  then show "RegisterWorker pg ih ip ah ap sp d = (r, d') \<Longrightarrow> same_shards d d'" by (rule same_shardsI)
qed

lemma ReplaceCluster_shards: "ReplaceCluster pg c ids d = (r, d') \<Longrightarrow> same_shards d d'"
proof -
  have "preserves (same_shards d) (ReplaceCluster pg c ids)"
    unfolding ReplaceCluster_def
    by (rule preserves_intros preserves_VerifyNodesExist | simp add: same_shards_def comp_def if_distrib [of cluster_id] cong: if_cong)+
  then show "ReplaceCluster pg c ids d = (r, d') \<Longrightarrow> same_shards d d'" by (rule same_shardsI)
qed

lemma db_step_shards: "db_step nb K d d' \<Longrightarrow> shards_inv nb d \<Longrightarrow> shards_inv nb d'"
  using step_topology [of nb K d d']
  by (blast intro: AddCluster_shards shards_inv_same dest: same_topology_shards RegisterWorker_shards ReplaceCluster_shards)

lemma reachable_shards: "db_reachable nb K d \<Longrightarrow> shards_inv nb d"
  by (induction rule: db_reachable.induct) (blast intro: shards_inv_start db_step_shards)+


section \<open>Routing\<close>

lemma filter_Cons_ex: "x \<in> set xs \<Longrightarrow> P x \<Longrightarrow> \<exists>y ys. filter P xs = y # ys \<and> P y"
  by (induction xs) auto

lemma CalculateBucketId_bounds:
  assumes "0 < nb" and "nb < 2 ^ 31"
  shows "\<exists>b. CalculateBucketId h nb = Inr b \<and> 0 \<le> b \<and> b < nb"
proof -
  have n: "uint (word_of_int nb :: 32 word) = nb" using assms by (simp add: uint_word_of_int)
  then have nz: "(word_of_int nb :: 32 word) \<noteq> 0" using assms by auto
  have "0 \<le> sint (x mod word_of_int nb :: 32 word) \<and> sint (x mod word_of_int nb :: 32 word) < nb" for x
  proof -
    have u: "uint (x mod word_of_int nb :: 32 word) = uint x mod nb" using n by (simp add: uint_mod_distrib)
    then have "sint (x mod word_of_int nb :: 32 word) = uint x mod nb"
      using assms(2) pos_mod_bound [OF assms(1), of "uint x"] pos_mod_sign [OF assms(1), of "uint x"]
      by (subst sint_uint, subst u, subst signed_take_bit_int_eq_self) (simp_all add: order.strict_trans2)
    then show ?thesis using assms(1) by simp
  qed
  then show ?thesis using assms(1) nz
    by (auto simp: CalculateBucketId_def Let_def split: sum.splits)
qed

text \<open>C38: Routing is total: once a cluster has been added, every hash a client sends, however
  malformed, falls into a bucket of the shard map that has a cluster with its nodes.\<close>

theorem every_hash_routes:
  assumes "db_reachable nb K d" and "shard_map d \<noteq> []" and "0 < nb" and "nb < 2 ^ 31"
  shows "\<exists>b ids. CalculateBucketId h nb = Inr b \<and> b \<in> {0..<nb} \<and> route b d = Some ids"
proof -
  obtain b where b: "CalculateBucketId h nb = Inr b" "0 \<le> b" "b < nb"
    using CalculateBucketId_bounds [OF assms(3,4)] by blast
  have inv: "map bucket_id (shard_map d) = [0..nb - 1]"
    "shard_cluster ` set (shard_map d) \<subseteq> cluster_id ` set (clusters d)"
    using reachable_shards [OF assms(1)] assms(2) by (auto simp: shards_inv_def)
  have "b \<in> bucket_id ` set (shard_map d)" using arg_cong [OF inv(1), of set] b by simp
  then obtain s where s: "s \<in> set (shard_map d)" "bucket_id s = b" by (metis imageE)
  have "shard_cluster s \<in> cluster_id ` set (clusters d)" using s(1) inv(2) by blast
  then have known: "\<exists>c\<in>set (clusters d). cluster_id c = shard_cluster s" by (metis imageE)
  let ?Q = "\<lambda>s. bucket_id s = b \<and> (\<exists>c\<in>set (clusters d). cluster_id c = shard_cluster s)"
  have "?Q s" by (rule conjI [OF s(2) known])
  from filter_Cons_ex [where P = ?Q, OF s(1) this]
  obtain s' ss where f: "filter ?Q (shard_map d) = s' # ss" and "?Q s'" by blast
  then have "List.find (\<lambda>c. cluster_id c = shard_cluster s') (clusters d) \<noteq> None"
    by (meson find_None_conv)
  then show ?thesis using b f by (auto simp: route_def)
qed

lemma every_hash_routes_witness:
  "\<exists>b ids. CalculateBucketId hash_b 2 = Inr b \<and> b \<in> {0..<2} \<and> route b run_user = Some ids"
proof (rule every_hash_routes [OF reachable_user])
  show "shard_map run_user \<noteq> []" by code_simp
qed simp_all

section \<open>A new cluster takes its share\<close>

definition owned :: "int \<Rightarrow> db \<Rightarrow> int" where
  "owned c d = int (length (owned_buckets c d))"

lemma owned_filter: "owned c d = int (length (filter (\<lambda>s. shard_cluster s = c) (shard_map d)))"
  by (simp add: owned_def owned_buckets_def)

lemma owned_after_move:
  "owned c' (move_buckets pg n c k d) = int (length (filter (\<lambda>s.
      (if bucket_id s \<in> set (limit_buckets pg k (owned_buckets c d)) then n else shard_cluster s) = c') (shard_map d)))"
proof -
  have rows: "length (filter (\<lambda>s. shard_cluster s = c') (map (\<lambda>s. if bucket_id s \<in> P then s\<lparr>shard_cluster := n\<rparr> else s) ss))
      = length (filter (\<lambda>s. (if bucket_id s \<in> P then n else shard_cluster s) = c') ss)" for P ss
    by (induction ss) auto
  have "shard_map (move_buckets pg n c k d) = map (\<lambda>s. if bucket_id s \<in> set (limit_buckets pg k (owned_buckets c d))
      then s\<lparr>shard_cluster := n\<rparr> else s) (shard_map d)"
    by (simp add: move_buckets_def Let_def)
  then show ?thesis by (simp only: owned_filter rows)
qed

lemma distinct_sub_mset: "mset ys \<subseteq># mset xs \<Longrightarrow> distinct xs \<Longrightarrow> distinct ys"
  unfolding distinct_count_atmost_1
  by (metis One_nat_def count_mset_0_iff le_SucE le_zero_eq mset_subset_eq_count mset_subset_eqD set_mset_mset)

lemma length_filter_keys:
  assumes "distinct (map k xs)" and "distinct ys" and "set ys \<subseteq> k ` set xs"
  shows "length (filter (\<lambda>x. k x \<in> set ys) xs) = length ys"
proof -
  have "distinct (map k (filter (\<lambda>x. k x \<in> set ys) xs))" using assms(1) by (simp add: distinct_map_filter)
  moreover have "set (map k (filter (\<lambda>x. k x \<in> set ys) xs)) = set ys" using assms(3) by auto
  ultimately show ?thesis using assms(2) by (metis distinct_card length_map)
qed

text \<open>One move: the old owner keeps what the share leaves it, the new one gains the same number,
  the others are not concerned.\<close>

lemma owned_move:
  assumes "distinct (map bucket_id (shard_map d))" and "limits_ok pg" and "0 \<le> k" and "k \<le> owned c d" and "c \<noteq> n"
  shows "owned c' (move_buckets pg n c k d) =
    (if c' = c then owned c d - k else if c' = n then owned n d + k else owned c' d)"
proof -
  define P where "P = limit_buckets pg k (owned_buckets c d)"
  have sub: "mset P \<subseteq># mset (owned_buckets c d)" and len: "int (length P) = k"
    using assms(2,3,4) by (auto simp: limits_ok_def owned_def P_def)
  have dist: "distinct (owned_buckets c d)" using assms(1) by (simp add: owned_buckets_def distinct_map_filter)
  have P: "distinct P" "set P \<subseteq> set (owned_buckets c d)"
    using distinct_sub_mset [OF sub dist] set_mset_mono [OF sub] by auto
  have inP: "shard_cluster s = c" if "s \<in> set (shard_map d)" "bucket_id s \<in> set P" for s
    using that P(2) assms(1) by (auto simp: owned_buckets_def dest: distinct_key_eq)
  have n: "length (filter (\<lambda>s. bucket_id s \<in> set P) (shard_map d)) = length P"
    using P by (intro length_filter_keys assms(1)) (auto simp: owned_buckets_def)
  have split: "length (filter Q xs) + length (filter R xs) = length (filter (\<lambda>x. Q x \<or> R x) xs)"
    if "\<forall>x\<in>set xs. \<not> (Q x \<and> R x)" for Q R and xs :: "shard_row list"
    using that by (induction xs) auto
  let ?new = "\<lambda>s. if bucket_id s \<in> set P then n else shard_cluster s"
  have after: "owned c' (move_buckets pg n c k d) = int (length (filter (\<lambda>s. ?new s = c') (shard_map d)))"
    by (simp only: owned_after_move P_def)
  consider "c' = c" | "c' = n" "c' \<noteq> c" | "c' \<noteq> c" "c' \<noteq> n" by blast
  then show ?thesis
  proof cases
    case 1
    have "filter (\<lambda>s. bucket_id s \<in> set P \<or> ?new s = c) (shard_map d) = filter (\<lambda>s. shard_cluster s = c) (shard_map d)"
      using inP by (auto intro: filter_cong)
    then show ?thesis
      using split [of "shard_map d" "\<lambda>s. bucket_id s \<in> set P" "\<lambda>s. ?new s = c"] n len assms(5) 1
      unfolding after unfolding owned_filter by simp
  next
    case 2
    have "filter (\<lambda>s. bucket_id s \<in> set P \<or> shard_cluster s = n) (shard_map d) = filter (\<lambda>s. ?new s = n) (shard_map d)"
      by (auto intro: filter_cong)
    then show ?thesis
      using split [of "shard_map d" "\<lambda>s. bucket_id s \<in> set P" "\<lambda>s. shard_cluster s = n"] n len inP assms(5) 2
      unfolding after unfolding owned_filter by auto
  next
    case 3
    have "filter (\<lambda>s. ?new s = c') (shard_map d) = filter (\<lambda>s. shard_cluster s = c') (shard_map d)"
      using inP 3 by (auto intro: filter_cong)
    then show ?thesis using 3 unfolding after unfolding owned_filter by simp
  qed
qed


definition excess :: "int \<Rightarrow> int \<Rightarrow> int" where
  "excess t k = max 0 (k - t)"

lemma move_distinct: "map bucket_id (shard_map (move_buckets pg n c k d)) = map bucket_id (shard_map d)"
  by (simp add: move_buckets_def Let_def comp_def if_distrib [of bucket_id] cong: if_cong)

text \<open>The counts the loop goes by were read before it began; they are still right when their
  cluster's turn comes, since only the new cluster gains.\<close>

lemma owned_takeover:
  assumes "distinct (map bucket_id (shard_map d))" and "limits_ok pg" and "0 \<le> t"
    and "distinct (map fst cs)" and "n \<notin> fst ` set cs" and "\<forall>(c, k)\<in>set cs. k = owned c d"
  shows "owned c (takeover pg n t cs d) =
    (if c \<in> fst ` set cs then min (owned c d) t
     else if c = n then owned n d + (\<Sum>(c, k)\<leftarrow>cs. excess t k) else owned c d)"
  using assms
proof (induction cs arbitrary: d)
  case (Cons x cs)
  obtain b k where x: "x = (b, k)" by fastforce
  define e where "e = (if k - t > 0 then move_buckets pg n b (k - t) d else d)"
  have k: "k = owned b d" and bn: "b \<noteq> n" using Cons.prems x by auto
  have d: "owned a e = (if a = b then min (owned b d) t else if a = n then owned n d + excess t k else owned a d)" for a
  proof (cases "k - t > 0")
    case True
    then have "owned a e = (if a = b then owned b d - (k - t) else if a = n then owned n d + (k - t) else owned a d)"
      using owned_move [OF Cons.prems(1,2), of "k - t" b n a] Cons.prems(3) k bn by (simp add: e_def)
    then show ?thesis using True k Cons.prems(3) by (auto simp: excess_def)
  next
    case False
    then show ?thesis using k by (simp add: excess_def e_def)
  qed
  have "k' = owned a e" if "(a, k') \<in> set cs" for a k'
  proof -
    have "a \<in> fst ` set cs" using that by force
    then have "a \<noteq> b" and "a \<noteq> n" using Cons.prems(4,5) x by auto
    moreover have "k' = owned a d" using Cons.prems(6) that by fastforce
    ultimately show ?thesis by (simp only: d if_False)
  qed
  then have "\<forall>(c, k)\<in>set cs. k = owned c e" by blast
  moreover have "distinct (map bucket_id (shard_map e))" using Cons.prems(1) by (simp add: move_distinct e_def)
  ultimately have "owned c (takeover pg n t cs e) =
    (if c \<in> fst ` set cs then min (owned c e) t
     else if c = n then owned n e + (\<Sum>(c, k)\<leftarrow>cs. excess t k) else owned c e)"
    using Cons.IH [of e] Cons.prems by simp
  moreover have "takeover pg n t (x # cs) d = takeover pg n t cs e" by (simp add: x e_def)
  ultimately show ?case using Cons.prems(4,5) x bn by (auto simp: d)
qed simp

lemma bucket_counts_owned: "bucket_counts d = map (\<lambda>c. (c, owned c d)) (remdups (map shard_cluster (shard_map d)))"
  by (simp add: bucket_counts_def owned_def)

lemma owned_zero: "c \<notin> shard_cluster ` set (shard_map d) \<Longrightarrow> owned c d = 0"
  by (auto simp: owned_filter filter_empty_conv)

text \<open>C32: A new cluster takes its share: adding one to a store that has shards keeps every bucket
  in place, cuts each cluster down to the truncated share of the bucket count, and gives the new
  cluster exactly what the others lose.\<close>

theorem new_cluster_takes_share:
  assumes "db_reachable nb K d" and "limits_ok pg" and "0 \<le> nb" and "shard_map d \<noteq> []"
    and "AddCluster pg nb name ids d = (Inr (), d')"
  shows "map bucket_id (shard_map d') = map bucket_id (shard_map d) \<and>
    (\<forall>c. owned c d' = (if c = cluster_seq d then \<Sum>(c, k)\<leftarrow>bucket_counts d. excess (share nb d) k
                       else min (owned c d) (share nb d)))"
proof -
  have inv: "shards_inv nb d" by (rule reachable_shards [OF assms(1)])
  obtain e where e: "insert_cluster pg name (array_literal (map to_string ids)) d = (Inr (cluster_seq d), e)"
    and d': "d' = (if shard_map e = [] then bootstrap_shards (cluster_seq d) nb e
               else takeover pg (cluster_seq d) (share nb e) (bucket_counts e) e)"
    using assms(5) by (rule AddCluster_Inr)
  have map: "shard_map e = shard_map d" using shards_inv_insert [OF inv e] by blast
  then have eq: "bucket_counts e = bucket_counts d" "owned c e = owned c d" "share nb e = share nb d" for c
    by (simp_all add: share_def bucket_counts_owned owned_filter)
  let ?t = "share nb d" and ?cs = "bucket_counts d"
  have d'_takeover: "d' = takeover pg (cluster_seq d) ?t ?cs e" using d' map eq assms(4) by simp
  have ids: "map bucket_id (shard_map d) = [0..nb - 1]" using inv assms(4) by (simp add: shards_inv_def)
  have new: "cluster_seq d \<notin> shard_cluster ` set (shard_map d)" using inv by (force simp: shards_inv_def)
  have t: "0 \<le> ?t" using assms(3) by (auto simp: share_def trunc_div_def sgn_if intro!: pos_imp_zdiv_nonneg_iff [THEN iffD2])
  have own: "owned c d' = (if c \<in> fst ` set ?cs then min (owned c e) ?t
     else if c = cluster_seq d then owned (cluster_seq d) e + (\<Sum>(c, k)\<leftarrow>?cs. excess ?t k) else owned c e)" for c
    unfolding d'_takeover
  proof (rule owned_takeover [OF _ assms(2) t])
    show "distinct (map bucket_id (shard_map e))" using ids map by simp
    show "distinct (map fst ?cs)" by (simp add: bucket_counts_def comp_def)
    show "cluster_seq d \<notin> fst ` set ?cs" using new by (simp add: set_bucket_counts)
    show "\<forall>(c, k)\<in>set ?cs. k = owned c e" using eq(2) by (auto simp: bucket_counts_owned)
  qed
  have "owned c d' = (if c = cluster_seq d then \<Sum>(c, k)\<leftarrow>?cs. excess ?t k else min (owned c d) ?t)" for c
    using own [of c] new owned_zero [of c d] t by (auto simp: set_bucket_counts eq(2))
  moreover have "map bucket_id (shard_map (takeover pg n u cs e)) = map bucket_id (shard_map e)" for n u cs e
    by (induction pg n u cs e rule: takeover.induct) (simp_all add: move_distinct)
  ultimately show ?thesis using d'_takeover map by simp
qed

lemma new_cluster_takes_share_witness:
  "\<exists>d'. AddCluster (sample_pg 4) 2 ''beta'' [1] run_user = (Inr (), d') \<and> owned 1 d' = 1 \<and> owned 2 d' = 1"
proof -
  obtain r d' where add: "AddCluster (sample_pg 4) 2 ''beta'' [1] run_user = (r, d')" by fastforce
  have "fst (AddCluster (sample_pg 4) 2 ''beta'' [1] run_user) = Inr ()" by code_simp
  then have add': "AddCluster (sample_pg 4) 2 ''beta'' [1] run_user = (Inr (), d')" using add by simp
  have vals: "cluster_seq run_user = 2" "owned 1 run_user = 2" "share 2 run_user = 1" "bucket_counts run_user = [(1, 2)]"
    "shard_map run_user \<noteq> []"
    by (code_simp, code_simp, code_simp, code_simp, code_simp)
  have "limits_ok (sample_pg 4)" using sample_pg_ok by (simp add: pg_ok_def)
  from new_cluster_takes_share [OF reachable_user this _ vals(5) add']
  have "owned 1 d' = 1 \<and> owned 2 d' = 1" by (simp add: vals excess_def)
  then show ?thesis using add' by blast
qed


section \<open>Replacing nodes\<close>

definition retired :: "int \<Rightarrow> db \<Rightarrow> bool" where
  "retired i d \<longleftrightarrow> (\<exists>w\<in>set (worker_nodes d). worker_id w = i \<and> status w = ''READ_ONLY'')"

lemma VerifyNodesExist_nonempty: "VerifyNodesExist pg ids d = (Inr (), e) \<Longrightarrow> ids \<noteq> []"
  by (auto simp: VerifyNodesExist_def outcome_simps split: if_splits)

definition replaced :: "int \<Rightarrow> int list \<Rightarrow> db \<Rightarrow> db" where
  "replaced cid ids d = d\<lparr>worker_nodes := map (\<lambda>w.
               if \<exists>c\<in>set (clusters d). cluster_id c = cid \<and> worker_id w \<in> set (active_nodes c)
               then w\<lparr>status := ''READ_ONLY''\<rparr> else w) (worker_nodes d),
       clusters := map (\<lambda>c. if cluster_id c = cid then c\<lparr>active_nodes := ids\<rparr> else c) (clusters d)\<rparr>"

lemma ReplaceCluster_Inr:
  assumes "ReplaceCluster pg cid ids d = (Inr (), d')"
  shows "\<exists>arr. int_array_in pg (array_literal (map to_string ids)) = Some arr \<and> ids \<noteq> [] \<and> d' = replaced cid arr d"
  using assms
  by (auto simp: ReplaceCluster_def transact_eq_Inr andthen_eq_Inr outcome_simps replaced_def split: if_splits
      dest: VerifyNodesExist_state VerifyNodesExist_nonempty)

lemma retired_replaced:
  "retired i (replaced cid ids d) \<longleftrightarrow> retired i d \<or> i \<in> worker_id ` set (worker_nodes d) \<and>
     (\<exists>c\<in>set (clusters d). cluster_id c = cid \<and> i \<in> set (active_nodes c))"
proof -
  have rows: "(\<exists>w\<in>set (map (\<lambda>w. if Q (worker_id w) then w\<lparr>status := ''READ_ONLY''\<rparr> else w) ws).
       worker_id w = i \<and> status w = ''READ_ONLY'')
    \<longleftrightarrow> (\<exists>w\<in>set ws. worker_id w = i \<and> status w = ''READ_ONLY'') \<or> i \<in> worker_id ` set ws \<and> Q i" for Q ws
    by (induction ws) auto
  have "worker_nodes (replaced cid ids d) = map (\<lambda>w. if \<exists>c\<in>set (clusters d). cluster_id c = cid \<and> worker_id w \<in> set (active_nodes c)
      then w\<lparr>status := ''READ_ONLY''\<rparr> else w) (worker_nodes d)"
    by (simp add: replaced_def)
  then show ?thesis
    by (simp only: retired_def rows [of "\<lambda>i. \<exists>c\<in>set (clusters d). cluster_id c = cid \<and> i \<in> set (active_nodes c)"])
qed

text \<open>Replacing the nodes of a cluster retires exactly its former nodes, gives the cluster the
  new ones and nothing else: the buckets, the chunk records with their locations, the files and
  the other clusters are as they were.\<close>

theorem replace_retires_former_nodes:
  assumes "ReplaceCluster pg cid ids d = (Inr (), d')" and "pg_ok pg" and "\<forall>i\<in>set ids. int_range i"
  shows "(\<forall>i. retired i d' \<longleftrightarrow> retired i d \<or> i \<in> worker_id ` set (worker_nodes d) \<and>
       (\<exists>c\<in>set (clusters d). cluster_id c = cid \<and> i \<in> set (active_nodes c))) \<and>
     clusters d' = map (\<lambda>c. if cluster_id c = cid then c\<lparr>active_nodes := ids\<rparr> else c) (clusters d) \<and>
     shard_map d' = shard_map d \<and> chunks d' = chunks d \<and> files d' = files d"
proof -
  obtain arr where arr: "int_array_in pg (array_literal (map to_string ids)) = Some arr" and d': "d' = replaced cid arr d"
    using ReplaceCluster_Inr [OF assms(1)] by blast
  have "arr = ids" using arr assms(2,3) by (simp add: pg_ok_def arrays_ok_def)
  then show ?thesis unfolding d' by (simp only: retired_replaced) (simp add: replaced_def)
qed

lemma replace_retires_former_nodes_witness:
  "\<exists>d'. ReplaceCluster (sample_pg 6) 1 [1] run_commit = (Inr (), d') \<and> retired 1 d' \<and> chunks d' = chunks run_commit"
proof -
  obtain r d' where rep: "ReplaceCluster (sample_pg 6) 1 [1] run_commit = (r, d')" by fastforce
  have "fst (ReplaceCluster (sample_pg 6) 1 [1] run_commit) = Inr ()"
    unfolding run_commit_eq by code_simp
  then have rep': "ReplaceCluster (sample_pg 6) 1 [1] run_commit = (Inr (), d')" using rep by simp
  have "retired 1 d' \<and> chunks d' = chunks run_commit"
    using replace_retires_former_nodes [OF rep' sample_pg_ok]
    by (simp add: run_commit_eq run_db_def run_workers_def int_range_def)
  then show ?thesis using rep' by blast
qed

lemma retired_update:
  assumes "\<And>w. worker_id (u w) = worker_id w \<and> (status w = ''READ_ONLY'' \<longrightarrow> status (u w) = ''READ_ONLY'')"
  shows "retired i d \<Longrightarrow> retired i (d\<lparr>worker_nodes := map u (worker_nodes d)\<rparr>)"
  using assms by (auto simp: retired_def)

lemma retired_upsert:
  assumes "retired i d"
  shows "retired i (upsert_worker pg ih ip ah ap sp d)"
proof (cases "\<exists>w\<in>set (worker_nodes d). internal_host w = ih \<and> internal_port w = ip")
  case True
  then show ?thesis unfolding upsert_worker_def if_P [OF True]
    by (intro retired_update assms) simp
next
  case False
  then show ?thesis using assms by (auto simp: upsert_worker_def retired_def)
qed

lemma retired_AddCluster:
  assumes "AddCluster pg nb n ids d = (r, d')" and "retired i d"
  shows "retired i d'"
proof (cases r)
  case (Inl e)
  with assms show ?thesis by (auto simp: AddCluster_def dest: transact_Inl)
next
  case (Inr x)
  with assms(1) have "AddCluster pg nb n ids d = (Inr (), d')" by simp
  then obtain e where e: "insert_cluster pg n (array_literal (map to_string ids)) d = (Inr (cluster_seq d), e)"
    and d': "d' = (if shard_map e = [] then bootstrap_shards (cluster_seq d) nb e
               else takeover pg (cluster_seq d) (share nb e) (bucket_counts e) e)"
    by (rule AddCluster_Inr)
  have "worker_nodes e = worker_nodes d" using e by (auto simp: insert_cluster_Inr)
  moreover have "worker_nodes (takeover pg m t cs x) = worker_nodes x" for m t cs x
    by (induction pg m t cs x rule: takeover.induct) (simp_all add: move_buckets_def Let_def)
  ultimately show ?thesis using assms(2) unfolding d' by (simp add: retired_def bootstrap_shards_def Let_def)
qed

text \<open>C39: Retirement is final: no operation of the store, a heartbeat of the retired worker
  included, brings a worker that is read-only back into service or drops it.\<close>

theorem retirement_is_final:
  assumes "db_step nb K d d'" and "retired i d"
  shows "retired i d'"
proof -
  have "retired i d'" if "RegisterWorker pg ih ip ah ap sp d = (r, d')" for pg ih ip ah ap sp r
  proof -
    have "preserves (retired i) (RegisterWorker pg ih ip ah ap sp)"
      unfolding RegisterWorker_def by (rule preserves_intros | simp add: retired_upsert)+
    then show ?thesis using that assms(2) by (rule preservesD)
  qed
  moreover have "retired i d'" if "ReplaceCluster pg c ids d = (r, d')" for pg c ids r
  proof (cases r)
    case (Inl e)
    with that assms(2) show ?thesis by (auto simp: ReplaceCluster_def dest: transact_Inl)
  next
    case (Inr x)
    with that ReplaceCluster_Inr obtain arr where "d' = replaced c arr d" by (metis old.unit.exhaust)
    then show ?thesis using assms(2) by (simp add: retired_replaced)
  qed
  moreover have "retired i d'" if "same_topology d d'"
    using that assms(2) by (simp add: same_topology_def retired_def)
  ultimately show ?thesis using step_topology [OF assms(1)] retired_AddCluster [OF _ assms(2)] by blast
qed

lemma retirement_is_final_witness:
  "retired 1 (snd (RegisterWorker (sample_pg 9) ''worker_1'' 9001 ''10.0.0.1'' 9001 5 (replaced 1 [1] run_commit)))"
proof (rule retirement_is_final)
  show "db_step 2 {} (replaced 1 [1] run_commit)
      (snd (RegisterWorker (sample_pg 9) ''worker_1'' 9001 ''10.0.0.1'' 9001 5 (replaced 1 [1] run_commit)))"
    by (rule requested, rule prod.collapse [symmetric])
  show "retired 1 (replaced 1 [1] run_commit)"
    by (simp add: retired_replaced run_commit_eq run_db_def run_workers_def)
qed

end
