(* ===== verification/Metadata_Interface.thy ===== *)
theory Metadata_Interface
  imports Store_Safety
begin

text \<open>
  \<^verbatim>\<open>master/IMetadataRepository.hpp\<close>: the abstract class the master's handlers and its
  collector work on, as a record of operations on an arbitrary state, and
  \<^verbatim>\<open>PostgresRepository\<close> as the instance of it. What a collector may rely on is a locale,
  interpreted at the end on the instance.
\<close>

section \<open>The operations\<close>

record 's IMetadataRepository =
  op_GetDatabaseVersion :: "('s, string) action"
  op_CreateUser :: "string \<Rightarrow> string \<Rightarrow> string \<Rightarrow> ('s, bool) action"
  op_GetUserByEmail :: "string \<Rightarrow> ('s, UserRecord) action"
  op_RegisterWorker :: "string \<Rightarrow> int \<Rightarrow> string \<Rightarrow> int \<Rightarrow> int \<Rightarrow> ('s, unit) action"
  op_FilterMissingChunks :: "string list \<Rightarrow> ('s, ChunkRoutingPlan list) action"
  op_CommitFile :: "int \<Rightarrow> string \<Rightarrow> int \<Rightarrow> string list \<Rightarrow> ('s, unit) action"
  op_GetDownloadPlan :: "int \<Rightarrow> string \<Rightarrow> ('s, FileDownloadManifest) action"
  op_FileExists :: "int \<Rightarrow> string \<Rightarrow> ('s, bool) action"
  op_DeleteFile :: "int \<Rightarrow> string \<Rightarrow> ('s, bool) action"
  op_GetOrphanedChunks :: "int \<Rightarrow> int \<Rightarrow> ('s, OrphanedChunk list) action"
  op_DeleteChunkRecordsBulk :: "string list \<Rightarrow> ('s, bool) action"
  op_RevertTombstone :: "string \<Rightarrow> ('s, unit) action"
  op_AddCluster :: "string \<Rightarrow> int list \<Rightarrow> ('s, unit) action"
  op_ReplaceCluster :: "int \<Rightarrow> int list \<Rightarrow> ('s, unit) action"

section \<open>The PostgreSQL instance\<close>

text \<open>
  The database server over time: the tables, and the server as the n-th transaction meets it.
  Every method opens a connection of its own and runs one transaction.
\<close>

record pg_world =
  tables :: db
  server :: "nat \<Rightarrow> pg"
  turn :: nat

definition now :: "pg_world \<Rightarrow> pg" where
  "now w = server w (turn w)"

definition after_turn :: "db \<Rightarrow> pg_world \<Rightarrow> pg_world" where
  "after_turn d w = w\<lparr>tables := d, turn := turn w + 1\<rparr>"

definition in_turn :: "(pg \<Rightarrow> (db, 'a) action) \<Rightarrow> (pg_world, 'a) action" where
  "in_turn f w = (case f (now w) (tables w) of (r, d) \<Rightarrow> (r, after_turn d w))"

text \<open>A method that lets no exception out.\<close>

definition no_throw :: "('s \<Rightarrow> 'a \<times> 's) \<Rightarrow> ('s, 'a) action" where
  "no_throw f s = (case f s of (x, s') \<Rightarrow> (Inr x, s'))"

definition PostgresRepository :: "int \<Rightarrow> pg_world IMetadataRepository" where
  "PostgresRepository buckets =
     \<lparr>op_GetDatabaseVersion = in_turn GetDatabaseVersion,
      op_CreateUser = (\<lambda>e h s. in_turn (\<lambda>pg. no_throw (CreateUser pg e h s))),
      op_GetUserByEmail = (\<lambda>e. in_turn (\<lambda>pg. GetUserByEmail pg e)),
      op_RegisterWorker = (\<lambda>ih ip ah ap sp. in_turn (\<lambda>pg. RegisterWorker pg ih ip ah ap sp)),
      op_FilterMissingChunks = (\<lambda>hs. in_turn (\<lambda>pg. FilterMissingChunks pg buckets hs)),
      op_CommitFile = (\<lambda>u n b hs. in_turn (\<lambda>pg. CommitFile pg u n b hs)),
      op_GetDownloadPlan = (\<lambda>u n. in_turn (\<lambda>pg. GetDownloadPlan pg u n)),
      op_FileExists = (\<lambda>u n. in_turn (\<lambda>pg. FileExists pg u n)),
      op_DeleteFile = (\<lambda>u n. in_turn (\<lambda>pg. DeleteFile pg u n)),
      op_GetOrphanedChunks = (\<lambda>e n. in_turn (\<lambda>pg. no_throw (GetOrphanedChunks pg e n))),
      op_DeleteChunkRecordsBulk = (\<lambda>hs. in_turn (\<lambda>pg. no_throw (DeleteChunkRecordsBulk pg hs))),
      op_RevertTombstone = (\<lambda>h. in_turn (\<lambda>pg. no_throw (\<lambda>d. ((), RevertTombstone pg h d)))),
      op_AddCluster = (\<lambda>n ids. in_turn (\<lambda>pg. AddCluster pg buckets n ids)),
      op_ReplaceCluster = (\<lambda>c ids. in_turn (\<lambda>pg. ReplaceCluster pg c ids))\<rparr>"

text \<open>
  A client of the repository is never alone with it: handlers, heartbeats and the collector run in threads of their own.
  \<open>others\<close> says what the rest of the system does to the tables after each operation of this client, given how
  many transactions have passed.
\<close>

definition in_company :: "(nat \<Rightarrow> db \<Rightarrow> db) \<Rightarrow> (pg_world, 'a) action \<Rightarrow> (pg_world, 'a) action" where
  "in_company others m w = (case m w of (r, w') \<Rightarrow> (r, w'\<lparr>tables := others (turn w') (tables w')\<rparr>))"

definition busy :: "(nat \<Rightarrow> db \<Rightarrow> db) \<Rightarrow> pg_world IMetadataRepository \<Rightarrow> pg_world IMetadataRepository" where
  "busy others R =
     \<lparr>op_GetDatabaseVersion = in_company others (op_GetDatabaseVersion R),
      op_CreateUser = (\<lambda>e h s. in_company others (op_CreateUser R e h s)),
      op_GetUserByEmail = (\<lambda>e. in_company others (op_GetUserByEmail R e)),
      op_RegisterWorker = (\<lambda>ih ip ah ap sp. in_company others (op_RegisterWorker R ih ip ah ap sp)),
      op_FilterMissingChunks = (\<lambda>hs. in_company others (op_FilterMissingChunks R hs)),
      op_CommitFile = (\<lambda>u n b hs. in_company others (op_CommitFile R u n b hs)),
      op_GetDownloadPlan = (\<lambda>u n. in_company others (op_GetDownloadPlan R u n)),
      op_FileExists = (\<lambda>u n. in_company others (op_FileExists R u n)),
      op_DeleteFile = (\<lambda>u n. in_company others (op_DeleteFile R u n)),
      op_GetOrphanedChunks = (\<lambda>e n. in_company others (op_GetOrphanedChunks R e n)),
      op_DeleteChunkRecordsBulk = (\<lambda>hs. in_company others (op_DeleteChunkRecordsBulk R hs)),
      op_RevertTombstone = (\<lambda>h. in_company others (op_RevertTombstone R h)),
      op_AddCluster = (\<lambda>n ids. in_company others (op_AddCluster R n ids)),
      op_ReplaceCluster = (\<lambda>c ids. in_company others (op_ReplaceCluster R c ids))\<rparr>"

lemma in_company_alone: "in_company (\<lambda>_ d. d) m = m"
  by (simp add: in_company_def fun_eq_iff split: prod.split)

lemma busy_alone: "busy (\<lambda>_ d. d) R = R"
  by (simp add: busy_def in_company_alone)

lemma in_company_turn:
  "f (now w) (tables w) = (r, d) \<Longrightarrow> in_company others (in_turn f) w = (r, after_turn (others (turn w + 1) d) w)"
  by (simp add: in_company_def in_turn_def after_turn_def)

lemma in_turn_apply: "f (now w) (tables w) = (r, d) \<Longrightarrow> in_turn f w = (r, after_turn d w)"
  by (simp add: in_turn_def)

lemma in_turn_eq: "in_turn f w = (r, w') \<longleftrightarrow> (\<exists>d. f (now w) (tables w) = (r, d) \<and> w' = after_turn d w)"
  by (auto simp: in_turn_def split: prod.splits)

lemma no_throw_eq: "no_throw f s = (r, s') \<longleftrightarrow> (\<exists>x. r = Inr x \<and> f s = (x, s'))"
  by (auto simp: no_throw_def split: prod.splits)

lemma after_turn_simps [simp]:
  "tables (after_turn d w) = d" "server (after_turn d w) = server w" "turn (after_turn d w) = turn w + 1"
  by (simp_all add: after_turn_def)

section \<open>What a collector relies on\<close>

datatype chunk_state = Unknown | Idle | Referenced | Tombstoned

text \<open>
  The contract of the three operations of the collector. Where a transaction may fail to commit,
  the operation may have had no effect; \<open>reliable\<close> says that from here on every one commits.
\<close>

locale collectable =
  fixes R :: "'s IMetadataRepository"
    and good :: "'s \<Rightarrow> bool"
    and reliable :: "'s \<Rightarrow> bool"
    and state :: "'s \<Rightarrow> string \<Rightarrow> chunk_state"
  assumes get_law: "\<And>s e n r s'. good s \<Longrightarrow> op_GetOrphanedChunks R e n s = (r, s') \<Longrightarrow>
      good s' \<and> (\<exists>os. r = Inr os \<and> (\<forall>orp\<in>set os. state s (orphan_hash orp) = Idle) \<and>
        (state s' = (\<lambda>h. if h \<in> orphan_hash ` set os then Tombstoned else state s h) \<or>
         \<not> reliable s \<and> state s' = state s))"
    and drop_law: "\<And>s hs r s'. good s \<Longrightarrow> op_DeleteChunkRecordsBulk R hs s = (r, s') \<Longrightarrow>
      good s' \<and> (\<exists>b. r = Inr b \<and> (reliable s \<longrightarrow> b) \<and>
        state s' = (\<lambda>h. if b \<and> h \<in> set hs \<and> state s h = Tombstoned then Unknown else state s h))"
    and revert_law: "\<And>s h r s'. good s \<Longrightarrow> op_RevertTombstone R h s = (r, s') \<Longrightarrow>
      good s' \<and> r = Inr () \<and> (state s' = (\<lambda>k. if k = h \<and> state s k = Tombstoned then Idle else state s k) \<or>
         \<not> reliable s \<and> state s' = state s)"
    and reliable_law: "\<And>s e n hs h. good s \<Longrightarrow> reliable s \<Longrightarrow>
      reliable (snd (op_GetOrphanedChunks R e n s)) \<and> reliable (snd (op_DeleteChunkRecordsBulk R hs s)) \<and>
      reliable (snd (op_RevertTombstone R h s))"

section \<open>The instance keeps the contract\<close>

definition chunk_state_of :: "db \<Rightarrow> string \<Rightarrow> chunk_state" where
  "chunk_state_of d h =
     (case find_chunk h d of
        None \<Rightarrow> Unknown
      | Some r \<Rightarrow> if ref_count r = -1 then Tombstoned else if ref_count r = 0 then Idle else Referenced)"

definition world_good :: "pg_world \<Rightarrow> bool" where
  "world_good w \<longleftrightarrow> store_inv {} (tables w) \<and> (\<forall>i\<ge>turn w. pg_ok (server w i))"

definition world_reliable :: "pg_world \<Rightarrow> bool" where
  "world_reliable w \<longleftrightarrow> (\<forall>i\<ge>turn w. connects (server w i) \<and> commits (server w i))"

lemma world_good_now: "world_good w \<Longrightarrow> pg_ok (now w)"
  by (simp add: world_good_def now_def)

lemma world_good_after: "world_good w \<Longrightarrow> store_inv {} d \<Longrightarrow> world_good (after_turn d w)"
  by (simp add: world_good_def)

lemma world_reliable_now: "world_reliable w \<Longrightarrow> connects (now w) \<and> commits (now w)"
  by (simp add: world_reliable_def now_def)

lemma world_reliable_after: "world_reliable w \<Longrightarrow> world_reliable (after_turn d w)"
  by (simp add: world_reliable_def)

lemma GetOrphanedChunks_state:
  assumes "store_inv K d" and "pg_ok pg" and "GetOrphanedChunks pg e n d = (os, d')"
  shows "(\<forall>orp\<in>set os. chunk_state_of d (orphan_hash orp) = Idle) \<and>
     chunk_state_of d' = (if connects pg \<and> commits pg then
        (\<lambda>h. if h \<in> orphan_hash ` set os then Tombstoned else chunk_state_of d h) else chunk_state_of d)"
proof (cases "connects pg")
  case True
  let ?picked = "limit_chunks pg n (orphan_candidates pg e d)"
  have os: "orphan_hash ` set os = set ?picked \<inter> chunk_hash ` set (chunks d)" and d': "d' = (if commits pg then tombstone ?picked d else d)"
    using assms(3) True by (auto simp: GetOrphanedChunks_def Let_def image_image)
  have idle: "chunk_state_of d h = Idle \<and> h \<in> chunk_hash ` set (chunks d)" if "h \<in> set ?picked" for h
    using picked_row [OF assms(1,2) that] find_chunk_Some by (fastforce simp: chunk_state_of_def)
  then have os': "orphan_hash ` set os = set ?picked" using os by blast
  have "chunk_state_of (tombstone ?picked d) h = (if h \<in> set ?picked then Tombstoned else chunk_state_of d h)" for h
    using idle [of h] find_chunk_Some [of h d]
    by (auto simp: tombstone_def find_update_chunks chunk_state_of_def split: option.splits)
  then show ?thesis using idle os' True by (auto simp: d')
qed (use assms(3) in \<open>simp add: GetOrphanedChunks_def\<close>)

lemma DeleteChunkRecordsBulk_state:
  assumes "store_inv K d" and "DeleteChunkRecordsBulk pg hs d = (b, d')"
  shows "chunk_state_of d' = (\<lambda>h. if b \<and> h \<in> set hs \<and> chunk_state_of d h = Tombstoned then Unknown else chunk_state_of d h)"
proof
  fix h
  show "chunk_state_of d' h = (if b \<and> h \<in> set hs \<and> chunk_state_of d h = Tombstoned then Unknown else chunk_state_of d h)"
    using assms(2) find_chunk_Some [of h d]
    by (auto simp: DeleteChunkRecordsBulk_eq chunk_state_of_def find_filter_rows [OF store_inv_distinct [OF assms(1)]]
        split: if_splits option.splits)
qed

lemma RevertTombstone_state:
  "chunk_state_of (RevertTombstone pg h d) = (if connects pg \<and> commits pg then
     (\<lambda>k. if k = h \<and> chunk_state_of d k = Tombstoned then Idle else chunk_state_of d k) else chunk_state_of d)"
proof (cases "connects pg \<and> commits pg")
  case True
  then have rev: "RevertTombstone pg h d = update_chunks (\<lambda>r. chunk_hash r = h \<and> ref_count r = -1)
      (\<lambda>r. r\<lparr>ref_count := 0, created_at := clock pg\<rparr>) d"
    by (simp add: RevertTombstone_def transact_def modify_def)
  have "chunk_state_of (RevertTombstone pg h d) k =
      (if k = h \<and> chunk_state_of d k = Tombstoned then Idle else chunk_state_of d k)" for k
  proof (cases "find_chunk k d")
    case (Some r)
    then have "chunk_hash r = k" using find_chunk_Some by blast
    then show ?thesis using Some unfolding rev
      by (auto simp: find_update_chunks chunk_state_of_def)
  qed (auto simp: rev find_update_chunks chunk_state_of_def)
  then show ?thesis using True by (auto intro: ext)
next
  case False
  then have "RevertTombstone pg h d = d" by (auto simp: RevertTombstone_def transact_def modify_def)
  then show ?thesis using False by auto
qed

interpretation postgres: collectable "PostgresRepository nb" world_good world_reliable "\<lambda>w. chunk_state_of (tables w)"
proof
  fix s e n r s'
  assume s: "world_good s" and run: "op_GetOrphanedChunks (PostgresRepository nb) e n s = (r, s')"
  then obtain os d where os: "r = Inr os" "GetOrphanedChunks (now s) e n (tables s) = (os, d)" "s' = after_turn d s"
    by (auto simp: PostgresRepository_def in_turn_eq no_throw_eq)
  have inv: "store_inv {} (tables s)" using s by (simp add: world_good_def)
  note GetOrphanedChunks_state [OF inv world_good_now [OF s] os(2)]
  moreover have "world_good s'"
    using world_good_after [OF s GetOrphanedChunks_inv [OF os(2) inv world_good_now [OF s]]] os(3) by simp
  ultimately show "world_good s' \<and> (\<exists>os. r = Inr os \<and> (\<forall>orp\<in>set os. chunk_state_of (tables s) (orphan_hash orp) = Idle) \<and>
        (chunk_state_of (tables s') = (\<lambda>h. if h \<in> orphan_hash ` set os then Tombstoned else chunk_state_of (tables s) h) \<or>
         \<not> world_reliable s \<and> chunk_state_of (tables s') = chunk_state_of (tables s)))"
    using os world_reliable_now [of s] by (auto split: if_splits)
next
  fix s hs r s'
  assume s: "world_good s" and run: "op_DeleteChunkRecordsBulk (PostgresRepository nb) hs s = (r, s')"
  then obtain b d where b: "r = Inr b" "DeleteChunkRecordsBulk (now s) hs (tables s) = (b, d)" "s' = after_turn d s"
    by (auto simp: PostgresRepository_def in_turn_eq no_throw_eq)
  have inv: "store_inv {} (tables s)" using s by (simp add: world_good_def)
  have "world_reliable s \<Longrightarrow> b" using b(2) world_reliable_now [of s] by (auto simp: DeleteChunkRecordsBulk_eq split: if_splits)
  then show "world_good s' \<and> (\<exists>b. r = Inr b \<and> (world_reliable s \<longrightarrow> b) \<and>
        chunk_state_of (tables s') = (\<lambda>h. if b \<and> h \<in> set hs \<and> chunk_state_of (tables s) h = Tombstoned then Unknown
          else chunk_state_of (tables s) h))"
    using b DeleteChunkRecordsBulk_state [OF inv b(2)] world_good_after [OF s DeleteChunkRecordsBulk_inv [OF b(2) inv]] by auto
next
  fix s h r s'
  assume s: "world_good s" and run: "op_RevertTombstone (PostgresRepository nb) h s = (r, s')"
  then have r: "r = Inr ()" "s' = after_turn (RevertTombstone (now s) h (tables s)) s"
    by (auto simp: PostgresRepository_def in_turn_eq no_throw_eq)
  have "store_inv {} (tables s)" using s by (simp add: world_good_def)
  then have "world_good s'" using world_good_after [OF s RevertTombstone_inv] r(2) by blast
  then show "world_good s' \<and> r = Inr () \<and>
      (chunk_state_of (tables s') = (\<lambda>k. if k = h \<and> chunk_state_of (tables s) k = Tombstoned then Idle else chunk_state_of (tables s) k) \<or>
       \<not> world_reliable s \<and> chunk_state_of (tables s') = chunk_state_of (tables s))"
    using r world_reliable_now [of s] RevertTombstone_state [of "now s" h "tables s"] by (auto split: if_splits)
next
  fix s e n hs h
  assume "world_reliable s"
  then show "world_reliable (snd (op_GetOrphanedChunks (PostgresRepository nb) e n s)) \<and>
      world_reliable (snd (op_DeleteChunkRecordsBulk (PostgresRepository nb) hs s)) \<and>
      world_reliable (snd (op_RevertTombstone (PostgresRepository nb) h s))"
    by (simp add: PostgresRepository_def in_turn_def world_reliable_after split: prod.split)
qed

end
