(* ===== verification/Collector.thy ===== *)
theory Collector
  imports Metadata_Interface
begin

text \<open>
  The garbage collector of \<^verbatim>\<open>master/main.cpp\<close>: the requests to the workers, the parallel
  purge of a batch, the sweep that repeats batches until nothing is left, and the daemon around it,
  over any implementation of the repository interface; and that a sweep is safe while others use the repository.
\<close>

section \<open>Deleting the replicas\<close>

text \<open>
  What a worker makes of a request: no response at all, a response with its status, or an exception
  of the HTTP client. The workers' answers are an arbitrary function of the worker and the chunk; a
  batch asks for each pair once.
\<close>

datatype reply = NoResponse | Response int | Throws

type_synonym answers = "WorkerLocation \<Rightarrow> string \<Rightarrow> reply"

record delete_request =
  dest :: WorkerLocation
  path :: string

definition delete_path :: "string \<Rightarrow> string" where
  "delete_path h = ''/chunk?hash='' @ h"

fun delete_replicas :: "answers \<Rightarrow> string \<Rightarrow> WorkerLocation list \<Rightarrow> bool \<Rightarrow> (delete_request list, bool) action" where
  "delete_replicas ans h [] all_success = ret all_success"
| "delete_replicas ans h (loc # locs) all_success =
     andthen (modify (\<lambda>sent. sent @ [\<lparr>dest = loc, path = delete_path h\<rparr>]))
     (\<lambda>_. case ans loc h of
        Throws \<Rightarrow> throw (RuntimeError [])
      | NoResponse \<Rightarrow> delete_replicas ans h locs False
      | Response st \<Rightarrow> delete_replicas ans h locs (if st \<noteq> 200 then False else all_success))"

definition DeletePhysicalChunkFromWorkers :: "answers \<Rightarrow> OrphanedChunk \<Rightarrow> (delete_request list, bool) action" where
  "DeletePhysicalChunkFromWorkers ans orphan = delete_replicas ans (orphan_hash orphan) (locations orphan) True"

text \<open>
  One task per orphan on the pool. The tasks finish in some order, \<open>order\<close>, which is how their
  requests go out; the results are collected from the futures in the order of the batch, and a task
  that threw counts as failed. The set of hashes is a list without repetition.
\<close>

definition task_result :: "answers \<Rightarrow> OrphanedChunk \<Rightarrow> bool" where
  "task_result ans orphan =
     (case fst (DeletePhysicalChunkFromWorkers ans orphan []) of Inl _ \<Rightarrow> False | Inr success \<Rightarrow> success)"

definition PurgeOrphanBatchParallel :: "answers \<Rightarrow> (OrphanedChunk list \<Rightarrow> OrphanedChunk list) \<Rightarrow> OrphanedChunk list \<Rightarrow>
    string list \<times> delete_request list" where
  "PurgeOrphanBatchParallel ans order orphans =
     (remdups (map orphan_hash (filter (task_result ans) orphans)),
      concat (map (\<lambda>orphan. snd (DeletePhysicalChunkFromWorkers ans orphan [])) (order orphans)))"

section \<open>The sweep\<close>

text \<open>
  One turn of the loop: what \<^verbatim>\<open>keep_running\<close> is when the loop tests it, what the workers
  answer, and in which order the tasks run.
\<close>

record gc_turn =
  keep_running :: bool
  replies :: answers
  task_order :: "OrphanedChunk list \<Rightarrow> OrphanedChunk list"

definition settle_batch :: "'s IMetadataRepository \<Rightarrow> OrphanedChunk list \<Rightarrow> string list \<Rightarrow> ('s, int) action" where
  "settle_batch R orphans purged =
     andthen (if purged \<noteq> [] then op_DeleteChunkRecordsBulk R purged else ret True)
     (\<lambda>delete_success.
        andthen (if \<not> delete_success then for_each (op_RevertTombstone R) (map orphan_hash orphans)
                 else for_each (op_RevertTombstone R) (filter (\<lambda>h. h \<notin> set purged) (map orphan_hash orphans)))
        (\<lambda>_. ret (if delete_success then int (length purged) else 0)))"

text \<open>
  The inner loop over a list of turns, with the requests sent and the running total. When the list
  of turns is used up the loop is still running: the result is then \<open>None\<close>.
\<close>

fun sweep :: "'s IMetadataRepository \<Rightarrow> gc_turn list \<Rightarrow> int \<Rightarrow> delete_request list \<Rightarrow>
    ('s, int option \<times> delete_request list) action" where
  "sweep R [] deleted sent = ret (None, sent)"
| "sweep R (t # ts) deleted sent =
     (if \<not> keep_running t then ret (Some deleted, sent)
      else andthen (op_GetOrphanedChunks R 24 100)
        (\<lambda>orphans. if orphans = [] then ret (Some deleted, sent)
           else let (purged, requests) = PurgeOrphanBatchParallel (replies t) (task_order t) orphans
             in andthen (settle_batch R orphans purged)
               (\<lambda>n. sweep R ts (deleted + n) (sent @ requests))))"

text \<open>
  The daemon: a sweep per day while it keeps running. An exception ends the sweep, not the daemon.
\<close>

fun GarbageCollectorDaemon :: "'s IMetadataRepository \<Rightarrow> (bool \<times> gc_turn list) list \<Rightarrow> 's \<Rightarrow> 's" where
  "GarbageCollectorDaemon R [] s = s"
| "GarbageCollectorDaemon R ((running, turns) # days) s =
     (if running then GarbageCollectorDaemon R days (snd (sweep R turns 0 [] s)) else s)"

section \<open>What is purged\<close>

lemma delete_replicas_result:
  "fst (delete_replicas ans h locs b sent) = Inr True \<longleftrightarrow> b \<and> (\<forall>loc\<in>set locs. ans loc h = Response 200)"
  by (induction ans h locs b arbitrary: sent rule: delete_replicas.induct)
    (auto simp: outcome_simps split: reply.splits)

lemma delete_replicas_sent:
  "\<exists>n. snd (delete_replicas ans h locs b sent) = sent @ map (\<lambda>loc. \<lparr>dest = loc, path = delete_path h\<rparr>) (take n locs)"
proof (induction locs arbitrary: b sent)
  case (Cons loc locs)
  let ?sent = "sent @ [\<lparr>dest = loc, path = delete_path h\<rparr>]"
  show ?case
  proof (cases "ans loc h = Throws")
    case True
    then show ?thesis by (intro exI [of _ 1]) (simp add: outcome_simps)
  next
    case False
    then obtain b' where "delete_replicas ans h (loc # locs) b sent = delete_replicas ans h locs b' ?sent"
      by (cases "ans loc h") (auto simp: outcome_simps)
    moreover obtain n where
      "snd (delete_replicas ans h locs b' ?sent) = ?sent @ map (\<lambda>loc. \<lparr>dest = loc, path = delete_path h\<rparr>) (take n locs)"
      using Cons.IH by blast
    ultimately show ?thesis by (intro exI [of _ "Suc n"]) simp
  qed
qed (simp add: outcome_simps)

definition confirmed :: "answers \<Rightarrow> OrphanedChunk \<Rightarrow> bool" where
  "confirmed ans orphan \<longleftrightarrow> (\<forall>loc\<in>set (locations orphan). ans loc (orphan_hash orphan) = Response 200)"

lemma task_result_confirmed: "task_result ans orphan \<longleftrightarrow> confirmed ans orphan"
proof -
  have "fst (DeletePhysicalChunkFromWorkers ans orphan []) = Inr True \<longleftrightarrow> confirmed ans orphan"
    by (simp add: DeletePhysicalChunkFromWorkers_def delete_replicas_result confirmed_def)
  then show ?thesis by (auto simp: task_result_def split: sum.splits)
qed

lemma purged_set: "set (fst (PurgeOrphanBatchParallel ans order orphans)) = orphan_hash ` {orp \<in> set orphans. confirmed ans orp}"
  by (auto simp: PurgeOrphanBatchParallel_def task_result_confirmed)

lemma requests_hashes:
  assumes "set (order orphans) = set orphans" and "req \<in> set (snd (PurgeOrphanBatchParallel ans order orphans))"
  shows "\<exists>orp\<in>set orphans. path req = delete_path (orphan_hash orp) \<and> dest req \<in> set (locations orp)"
proof -
  obtain orp where orp: "orp \<in> set orphans" "req \<in> set (snd (DeletePhysicalChunkFromWorkers ans orp []))"
    using assms by (auto simp: PurgeOrphanBatchParallel_def)
  moreover obtain n where "snd (DeletePhysicalChunkFromWorkers ans orp []) =
      map (\<lambda>loc. \<lparr>dest = loc, path = delete_path (orphan_hash orp)\<rparr>) (take n (locations orp))"
    using delete_replicas_sent [of ans "orphan_hash orp" "locations orp" True "[]"]
    by (auto simp: DeletePhysicalChunkFromWorkers_def)
  ultimately show ?thesis by (fastforce dest: in_set_takeD)
qed

definition collected :: "chunk_state \<Rightarrow> bool" where
  "collected c \<longleftrightarrow> c = Idle \<or> c = Tombstoned"

section \<open>A batch, for any repository that keeps the contract\<close>

context collectable
begin

lemma revert_loop:
  assumes "good s" and "for_each (op_RevertTombstone R) hs s = (r, s')"
  shows "good s' \<and> r = Inr () \<and> (reliable s \<longrightarrow> reliable s') \<and>
    (\<forall>k. state s' k = state s k \<or> k \<in> set hs \<and> state s k = Tombstoned \<and> state s' k = Idle) \<and>
    (reliable s \<longrightarrow> (\<forall>k\<in>set hs. state s' k \<noteq> Tombstoned))"
  using assms
proof (induction hs arbitrary: s)
  case (Cons h hs)
  obtain q s1 where one: "op_RevertTombstone R h s = (q, s1)" by fastforce
  note law = revert_law [OF Cons.prems(1) one]
  then have "for_each (op_RevertTombstone R) hs s1 = (r, s')"
    using Cons.prems(2) one by (simp add: outcome_simps)
  note rest = Cons.IH [OF _ this]
  have rel: "reliable s \<Longrightarrow> reliable s1" using reliable_law [OF Cons.prems(1)] one by (metis snd_conv)
  have st: "state s1 k = state s k \<or> k = h \<and> state s k = Tombstoned \<and> state s1 k = Idle" for k
    using law by (auto split: if_splits)
  have st_rel: "reliable s \<Longrightarrow> state s1 h \<noteq> Tombstoned" using law by auto
  have one_rest: "state s' k = state s1 k \<or> k \<in> set hs \<and> state s1 k = Tombstoned \<and> state s' k = Idle" for k
    using rest law by blast
  have "state s' k = state s k \<or> k \<in> set (h # hs) \<and> state s k = Tombstoned \<and> state s' k = Idle" for k
    using one_rest [of k] st [of k] by auto
  moreover have "state s' k \<noteq> Tombstoned" if "reliable s" "k \<in> set (h # hs)" for k
  proof (cases "k \<in> set hs")
    case True
    then show ?thesis using that rest rel law by blast
  next
    case False
    then have "k = h" "state s' k = state s1 k" using that one_rest [of k] by auto
    then show ?thesis using st_rel that by simp
  qed
  ultimately show ?case using rest law rel by blast
qed (simp add: outcome_simps)

text \<open>
  What becomes of the chunks of a batch, whatever fails: chunks outside the batch are not touched,
  a record is dropped only if it was confirmed, and with a reliable database no tombstone is left.
\<close>

lemma settle_batch_outcome:
  assumes "good s" and "settle_batch R orphans purged s = (r, s')" and "set purged \<subseteq> orphan_hash ` set orphans"
  shows "good s' \<and> (\<exists>n. r = Inr n) \<and> (reliable s \<longrightarrow> reliable s') \<and>
    (\<forall>h. state s' h = state s h \<or> h \<in> orphan_hash ` set orphans \<and> state s h = Tombstoned \<and>
        (state s' h = Idle \<or> state s' h = Unknown \<and> h \<in> set purged)) \<and>
    (reliable s \<longrightarrow> (\<forall>h\<in>orphan_hash ` set orphans. state s h = Tombstoned \<longrightarrow>
        state s' h = (if h \<in> set purged then Unknown else Idle)))"
proof -
  obtain q s1 where del: "(if purged \<noteq> [] then op_DeleteChunkRecordsBulk R purged else ret True) s = (q, s1)"
    by fastforce
  have "good s1 \<and> (reliable s \<longrightarrow> reliable s1) \<and> (\<exists>b. q = Inr b \<and> (reliable s \<longrightarrow> b) \<and>
      state s1 = (\<lambda>h. if b \<and> h \<in> set purged \<and> state s h = Tombstoned then Unknown else state s h))"
  proof (cases "purged = []")
    case True
    then show ?thesis using del assms(1) by (auto simp: outcome_simps)
  next
    case False
    then have "op_DeleteChunkRecordsBulk R purged s = (q, s1)" using del by simp
    moreover from this have "reliable s \<Longrightarrow> reliable s1" using reliable_law [OF assms(1), where hs = purged] by simp
    ultimately show ?thesis using drop_law [OF assms(1)] by blast
  qed
  then obtain b where good: "good s1" and rel: "reliable s \<longrightarrow> reliable s1" and q: "q = Inr b" "reliable s \<longrightarrow> b"
    and st: "state s1 = (\<lambda>h. if b \<and> h \<in> set purged \<and> state s h = Tombstoned then Unknown else state s h)"
    by blast
  let ?revert = "if \<not> b then map orphan_hash orphans else filter (\<lambda>h. h \<notin> set purged) (map orphan_hash orphans)"
  obtain u s2 where loop: "for_each (op_RevertTombstone R) ?revert s1 = (u, s2)" by fastforce
  note rl = revert_loop [OF good loop]
  then have after: "state s2 h = state s1 h \<or> h \<in> set ?revert \<and> state s1 h = Tombstoned \<and> state s2 h = Idle" for h
    by blast
  have "r = Inr (if b then int (length purged) else 0) \<and> s' = s2"
    using assms(2) del q loop rl
    by (auto simp: settle_batch_def outcome_simps split: if_splits)
  moreover have "state s2 h = state s h \<or> h \<in> orphan_hash ` set orphans \<and> state s h = Tombstoned \<and>
        (state s2 h = Idle \<or> state s2 h = Unknown \<and> h \<in> set purged)" for h
    using rl st assms(3) by (auto split: if_splits)
  moreover have "state s2 h = (if h \<in> set purged then Unknown else Idle)"
    if "reliable s" "h \<in> orphan_hash ` set orphans" "state s h = Tombstoned" for h
  proof (cases "h \<in> set purged")
    case True
    then have "h \<notin> set ?revert" "state s1 h = Unknown" using q(2) that st by auto
    then show ?thesis using after [of h] True by metis
  next
    case False
    then have "h \<in> set ?revert" "state s1 h = Tombstoned" using q(2) that st by auto
    then show ?thesis using after [of h] rl rel that(1) False by metis
  qed
  ultimately show ?thesis using rl rel by blast
qed

text \<open>
  A sweep, however many batches it takes and whatever fails on the way: it raises nothing, moves
  chunks only between idle, tombstoned and unknown, and asks the workers to delete only chunks that
  were idle or tombstoned when it began.
\<close>

lemma sweep_outcome:
  assumes "good s" and "\<forall>t\<in>set ts. \<forall>os. set (task_order t os) = set os" and "sweep R ts n sent s = (r, s')"
  shows "good s' \<and> (\<exists>k reqs. r = Inr (k, sent @ reqs) \<and>
      (\<forall>req\<in>set reqs. \<exists>h. path req = delete_path h \<and> collected (state s h))) \<and>
    (\<forall>h. \<not> collected (state s h) \<longrightarrow> state s' h = state s h)"
  using assms
proof (induction ts arbitrary: n sent s)
  case (Cons t ts)
  obtain q s1 where get: "op_GetOrphanedChunks R 24 100 s = (q, s1)" by fastforce
  obtain os where good1: "good s1" and q: "q = Inr os" and idle: "\<forall>orp\<in>set os. state s (orphan_hash orp) = Idle"
    and st1: "state s1 = (\<lambda>h. if h \<in> orphan_hash ` set os then Tombstoned else state s h) \<or> state s1 = state s"
    using get_law [OF Cons.prems(1) get] by blast
  have idle': "state s h = Idle" if "h \<in> orphan_hash ` set os" for h using idle that by blast
  consider "\<not> keep_running t" | "keep_running t" "os = []" | "keep_running t" "os \<noteq> []" by blast
  then show ?case
  proof cases
    case 1
    then show ?thesis using Cons.prems(1,3) by (auto simp: outcome_simps)
  next
    case 2
    then show ?thesis using Cons.prems(3) get q st1 good1 by (auto simp: outcome_simps)
  next
    case 3
    obtain purged requests where purge: "PurgeOrphanBatchParallel (replies t) (task_order t) os = (purged, requests)"
      by fastforce
    have sub: "set purged \<subseteq> orphan_hash ` set os" using purged_set [of "replies t" "task_order t" os] purge by auto
    obtain u s2 where settle: "settle_batch R os purged s1 = (u, s2)" by fastforce
    note out = settle_batch_outcome [OF good1 settle sub]
    from out obtain m where u: "u = Inr m" by blast
    from out have good2: "good s2" by blast
    from out have st2: "state s2 h = state s1 h \<or> h \<in> orphan_hash ` set os" for h by blast
    have rest: "sweep R ts (n + m) (sent @ requests) s2 = (r, s')"
      using Cons.prems(3) 3 get q purge settle u by (simp add: outcome_simps)
    have before: "state s2 h = state s h" if "\<not> collected (state s h)" for h
      using that idle' [of h] st1 st2 [of h] by (auto simp: collected_def)
    obtain k reqs where IH: "good s'" "r = Inr (k, (sent @ requests) @ reqs)"
      "\<forall>req\<in>set reqs. \<exists>h. path req = delete_path h \<and> collected (state s2 h)"
      "\<forall>h. \<not> collected (state s2 h) \<longrightarrow> state s' h = state s2 h"
      using Cons.IH [OF good2 _ rest] Cons.prems(2) by (meson list.set_intros(2))
    have "\<exists>h. path req = delete_path h \<and> collected (state s h)" if "req \<in> set requests" for req
      using requests_hashes [of "task_order t" os req "replies t"] that purge Cons.prems(2) idle
      by (fastforce simp: collected_def)
    moreover have "\<exists>h. path req = delete_path h \<and> collected (state s h)" if "req \<in> set reqs" for req
      using IH(3) that before by (metis)
    ultimately have "\<forall>req\<in>set (requests @ reqs). \<exists>h. path req = delete_path h \<and> collected (state s h)" by auto
    moreover have "r = Inr (k, sent @ (requests @ reqs))" using IH(2) by simp
    moreover have "state s' h = state s h" if "\<not> collected (state s h)" for h
      using IH(4) before [OF that] that by metis
    ultimately show ?thesis using IH(1) by blast
  qed
qed (auto simp: outcome_simps)

end

section \<open>The collector on the metadata store\<close>

text \<open>The three operations leave the files alone.\<close>

lemma collector_ops_files:
  "files (tables (snd (op_GetOrphanedChunks (PostgresRepository nb) e n w))) = files (tables w)"
  "files (tables (snd (op_DeleteChunkRecordsBulk (PostgresRepository nb) hs w))) = files (tables w)"
  "files (tables (snd (op_RevertTombstone (PostgresRepository nb) h w))) = files (tables w)"
  by (auto simp: PostgresRepository_def in_turn_def no_throw_def GetOrphanedChunks_def tombstone_def Let_def
      DeleteChunkRecordsBulk_eq RevertTombstone_def transact_def modify_def split: prod.splits)

lemma preserves_sweep:
  assumes "\<And>e n. preserves P (op_GetOrphanedChunks R e n)" and "\<And>hs. preserves P (op_DeleteChunkRecordsBulk R hs)"
    and "\<And>h. preserves P (op_RevertTombstone R h)"
  shows "preserves P (sweep R ts n sent)"
proof (induction ts arbitrary: n sent)
  case (Cons t ts)
  have "preserves P (settle_batch R os hs)" for os hs
    unfolding settle_batch_def by (auto intro!: preserves_intros assms)
  then show ?case using Cons by (auto intro!: preserves_intros assms split: prod.split)
qed (simp add: preserves_ret)

lemma sweep_files: "sweep (PostgresRepository nb) ts n sent w = (r, w') \<Longrightarrow> files (tables w') = files (tables w)"
proof -
  have "preserves (\<lambda>v. files (tables v) = files (tables w)) (sweep (PostgresRepository nb) ts n sent)"
    by (rule preserves_sweep) (simp_all add: preserves_def collector_ops_files)
  then show "sweep (PostgresRepository nb) ts n sent w = (r, w') \<Longrightarrow> files (tables w') = files (tables w)"
    by (rule preservesD) simp_all
qed

text \<open>C23: A batch settles: the collector changes the record of a chunk only if it took the chunk in
  this batch, drops the record only if every worker that holds a replica confirmed its deletion, and
  with a database that commits leaves no tombstone: a chunk not confirmed is idle again.\<close>

theorem batch_settles:
  assumes "world_good w" and "op_GetOrphanedChunks (PostgresRepository nb) 24 100 w = (Inr os, w1)"
    and "PurgeOrphanBatchParallel ans order os = (purged, reqs)"
    and "settle_batch (PostgresRepository nb) os purged w1 = (r, w2)"
  shows "(\<exists>n. r = Inr n) \<and>
    (\<forall>h. chunk_state_of (tables w2) h \<noteq> chunk_state_of (tables w) h \<longrightarrow> h \<in> orphan_hash ` set os) \<and>
    (\<forall>h. chunk_state_of (tables w2) h = Unknown \<longrightarrow>
       chunk_state_of (tables w) h = Unknown \<or> h \<in> orphan_hash ` {orp \<in> set os. confirmed ans orp}) \<and>
    (world_reliable w \<longrightarrow> (\<forall>h\<in>orphan_hash ` set os. chunk_state_of (tables w2) h =
       (if h \<in> orphan_hash ` {orp \<in> set os. confirmed ans orp} then Unknown else Idle)))"
proof -
  have purged: "set purged = orphan_hash ` {orp \<in> set os. confirmed ans orp}"
    using purged_set [of ans order os] assms(3) by simp
  have good1: "world_good w1" using postgres.get_law [OF assms(1,2)] by blast
  have st1: "chunk_state_of (tables w1) = (\<lambda>h. if h \<in> orphan_hash ` set os then Tombstoned else chunk_state_of (tables w) h) \<or>
      \<not> world_reliable w \<and> chunk_state_of (tables w1) = chunk_state_of (tables w)"
    using postgres.get_law [OF assms(1,2)] by blast
  have rel: "world_reliable w \<Longrightarrow> world_reliable w1"
    using postgres.reliable_law [OF assms(1), of nb 24 100] assms(2) by simp
  have "set purged \<subseteq> orphan_hash ` set os" using purged by blast
  note out = postgres.settle_batch_outcome [OF good1 assms(4) this]
  have 1: "\<exists>n. r = Inr n" using out by blast
  have 2: "chunk_state_of (tables w2) h = chunk_state_of (tables w1) h \<or> h \<in> orphan_hash ` set os \<and>
      (chunk_state_of (tables w2) h = Idle \<or> chunk_state_of (tables w2) h = Unknown \<and> h \<in> set purged)" for h
    using out by blast
  have 3: "chunk_state_of (tables w2) h = (if h \<in> set purged then Unknown else Idle)"
    if "world_reliable w" "h \<in> orphan_hash ` set os" for h
  proof -
    have "chunk_state_of (tables w1) h = Tombstoned" using st1 that by auto
    then show ?thesis using out rel [OF that(1)] that(2) by blast
  qed
  have 4: "chunk_state_of (tables w1) h \<noteq> Unknown \<or> chunk_state_of (tables w) h = Unknown" for h
    using st1 by (auto split: if_splits)
  have 5: "h \<in> orphan_hash ` set os" if "chunk_state_of (tables w2) h \<noteq> chunk_state_of (tables w) h" for h
    using 2 [of h] st1 that by (auto split: if_splits)
  have 6: "h \<in> set purged" if "chunk_state_of (tables w2) h = Unknown" "chunk_state_of (tables w) h \<noteq> Unknown" for h
    using 2 [of h] 4 [of h] that by auto
  show ?thesis using 1 3 5 6 unfolding purged [symmetric] by blast
qed

text \<open>A sweep with nobody else at the database changes no file at all.\<close>

theorem sweep_alone:
  assumes "db_reachable nb K (tables w)" and "\<forall>i. pg_ok (server w i)" and "\<forall>t\<in>set ts. \<forall>os. set (task_order t os) = set os"
    and "sweep (PostgresRepository nb) ts 0 [] w = (r, w')" and "f \<in> set (files (tables w))" and "h \<in> set (file_chunks f)" and "h \<in> K"
  shows "\<exists>k reqs. r = Inr (k, reqs) \<and> files (tables w') = files (tables w) \<and>
     chunk_state_of (tables w') h = Referenced \<and> (\<forall>req\<in>set reqs. path req \<noteq> delete_path h)"
proof -
  have good: "world_good w" using store_inv_weaken [OF _ reachable_store_inv [OF assms(1)]] assms(2) by (simp add: world_good_def)
  obtain row where "find_chunk h (tables w) = Some row" "1 \<le> ref_count row"
    using store_inv_referenced [OF reachable_store_inv [OF assms(1)] assms(5-7)] by blast
  then have ref: "chunk_state_of (tables w) h = Referenced" by (simp add: chunk_state_of_def)
  note out = postgres.sweep_outcome [OF good assms(3,4)]
  from conjunct1 [OF conjunct2 [OF out]] obtain k reqs where kr: "r = Inr (k, [] @ reqs) \<and>
      (\<forall>req\<in>set reqs. \<exists>h. path req = delete_path h \<and> collected (chunk_state_of (tables w) h))"
    by (elim exE)
  note r = conjunct1 [OF kr] and reqs = conjunct2 [OF kr]
  have st: "\<forall>h. \<not> collected (chunk_state_of (tables w) h) \<longrightarrow> chunk_state_of (tables w') h = chunk_state_of (tables w) h"
    by (rule conjunct2 [OF conjunct2 [OF out]])
  have "path req \<noteq> delete_path h" if "req \<in> set reqs" for req
  proof
    assume p: "path req = delete_path h"
    obtain g where "path req = delete_path g" "collected (chunk_state_of (tables w) g)" using reqs \<open>req \<in> set reqs\<close> by blast
    then show False using p ref by (simp add: delete_path_def collected_def)
  qed
  moreover have "chunk_state_of (tables w') h = Referenced" using st ref by (simp add: collected_def)
  ultimately show ?thesis using r sweep_files [OF assms(4)] by auto
qed


section \<open>The collector in company\<close>

text \<open>The collector runs in a thread beside the HTTP handlers: between any two of its operations others may come.\<close>

lemma settle_batch_keeps:
  assumes "\<And>hs s r s'. Q s \<Longrightarrow> op_DeleteChunkRecordsBulk R hs s = (r, s') \<Longrightarrow> Q s' \<and> (\<exists>b. r = Inr b)"
    and "\<And>h s r s'. Q s \<Longrightarrow> op_RevertTombstone R h s = (r, s') \<Longrightarrow> Q s' \<and> r = Inr ()"
    and "Q s" and "settle_batch R os purged s = (r, s')"
  shows "Q s' \<and> (\<exists>n. r = Inr n)"
proof -
  have loop: "Q s' \<and> r = Inr ()" if "Q s" "for_each (op_RevertTombstone R) hs s = (r, s')" for hs s r s'
    using that
  proof (induction hs arbitrary: s)
    case (Cons h hs)
    obtain q s1 where one: "op_RevertTombstone R h s = (q, s1)" by fastforce
    from assms(2) [OF Cons.prems(1) one] Cons.prems(2) one show ?case
      by (intro Cons.IH [of s1]) (simp_all add: outcome_simps)
  qed (simp add: outcome_simps)
  obtain q s1 where del: "(if purged \<noteq> [] then op_DeleteChunkRecordsBulk R purged else ret True) s = (q, s1)" by fastforce
  have "Q s1 \<and> (\<exists>b. q = Inr b)" using del assms(1) [OF assms(3)] assms(3) by (auto simp: outcome_simps split: if_splits)
  then obtain b where b: "Q s1" "q = Inr b" by blast
  let ?revert = "if \<not> b then map orphan_hash os else filter (\<lambda>h. h \<notin> set purged) (map orphan_hash os)"
  obtain u s2 where run: "for_each (op_RevertTombstone R) ?revert s1 = (u, s2)" by fastforce
  from loop [OF b(1) run] run del b(2) assms(4) show ?thesis
    by (auto simp: settle_batch_def outcome_simps split: if_splits)
qed

text \<open>A sweep keeps what its operations keep, and spares the chunks that are never taken.\<close>

lemma sweep_keeps:
  assumes get: "\<And>s r s'. Q s \<Longrightarrow> op_GetOrphanedChunks R 24 100 s = (r, s') \<Longrightarrow>
      Q s' \<and> (\<exists>os. r = Inr os \<and> H \<inter> orphan_hash ` set os = {})"
    and drop: "\<And>hs s r s'. Q s \<Longrightarrow> op_DeleteChunkRecordsBulk R hs s = (r, s') \<Longrightarrow> Q s' \<and> (\<exists>b. r = Inr b)"
    and revert: "\<And>h s r s'. Q s \<Longrightarrow> op_RevertTombstone R h s = (r, s') \<Longrightarrow> Q s' \<and> r = Inr ()"
    and "Q s" and "\<forall>t\<in>set ts. \<forall>os. set (task_order t os) = set os" and "sweep R ts n sent s = (r, s')"
  shows "Q s' \<and> (\<exists>k reqs. r = Inr (k, sent @ reqs) \<and> (\<forall>h\<in>H. \<forall>req\<in>set reqs. path req \<noteq> delete_path h))"
  using assms(4-6)
proof (induction ts arbitrary: n sent s)
  case (Cons t ts)
  show ?case
  proof (cases "keep_running t")
    case True
    obtain q s1 where step: "op_GetOrphanedChunks R 24 100 s = (q, s1)" by fastforce
    obtain os where q: "Q s1" "q = Inr os" "H \<inter> orphan_hash ` set os = {}" using get [OF Cons.prems(1) step] by blast
    show ?thesis
    proof (cases "os = []")
      case True
      then show ?thesis using Cons.prems(3) step q \<open>keep_running t\<close> by (auto simp: outcome_simps)
    next
      case False
      obtain purged requests where purge: "PurgeOrphanBatchParallel (replies t) (task_order t) os = (purged, requests)"
        by fastforce
      obtain u s2 where settle: "settle_batch R os purged s1 = (u, s2)" by fastforce
      obtain m where m: "Q s2" "u = Inr m" using settle_batch_keeps [where Q = Q, OF _ _ q(1) settle] drop revert by blast
      have rest: "sweep R ts (n + m) (sent @ requests) s2 = (r, s')"
        using Cons.prems(3) step q purge settle m False True by (simp add: outcome_simps)
      have spared: "path req \<noteq> delete_path h" if "h \<in> H" "req \<in> set requests" for h req
        using requests_hashes [of "task_order t" os req "replies t"] that purge Cons.prems(2) q(3)
        by (fastforce simp: delete_path_def)
      have "\<forall>t\<in>set ts. \<forall>os. set (task_order t os) = set os" using Cons.prems(2) by simp
      from Cons.IH [OF m(1) this rest] obtain k reqs where IH: "Q s'" "r = Inr (k, (sent @ requests) @ reqs)"
        "\<forall>h\<in>H. \<forall>req\<in>set reqs. path req \<noteq> delete_path h" by blast
      have "r = Inr (k, sent @ (requests @ reqs))" using IH(2) by simp
      moreover have "\<forall>h\<in>H. \<forall>req\<in>set (requests @ reqs). path req \<noteq> delete_path h" using spared IH(3) by auto
      ultimately show ?thesis using IH(1) by blast
    qed
  qed (use Cons.prems in \<open>auto simp: outcome_simps\<close>)
qed (auto simp: outcome_simps)

definition shared_world :: "int \<Rightarrow> string set \<Rightarrow> pg_world \<Rightarrow> bool" where
  "shared_world nb K w \<longleftrightarrow> db_reachable nb K (tables w) \<and> (\<forall>i. pg_ok (server w i))"

lemma shared_world_referenced:
  assumes "shared_world nb K w" and "f \<in> set (files (tables w))" and "h \<in> set (file_chunks f)" and "h \<in> K"
  shows "chunk_state_of (tables w) h = Referenced"
proof -
  have "store_inv K (tables w)" using assms(1) unfolding shared_world_def by (blast intro: reachable_store_inv)
  from store_inv_referenced [OF this assms(2-4)] show ?thesis by (auto simp: chunk_state_of_def)
qed

lemma shared_world_step:
  assumes "shared_world nb K w" and "db_step nb K (tables w) d" and "\<forall>i d. (db_step nb K)\<^sup>*\<^sup>* d (others i d)"
  shows "shared_world nb K (after_turn (others i d) w)"
  using assms db_reachable_steps [OF assms(3) [rule_format]] db_reachable.step by (auto simp: shared_world_def)

lemma busy_get:
  assumes "op_GetOrphanedChunks (busy others (PostgresRepository nb)) e n w = (r, w')"
  shows "\<exists>os d. r = Inr os \<and> GetOrphanedChunks (now w) e n (tables w) = (os, d) \<and> w' = after_turn (others (turn w + 1) d) w"
  using assms by (auto simp: busy_def in_company_def PostgresRepository_def in_turn_def no_throw_def after_turn_def split: prod.splits)

lemma busy_drop:
  assumes "op_DeleteChunkRecordsBulk (busy others (PostgresRepository nb)) hs w = (r, w')"
  shows "\<exists>b d. r = Inr b \<and> DeleteChunkRecordsBulk (now w) hs (tables w) = (b, d) \<and> w' = after_turn (others (turn w + 1) d) w"
  using assms by (auto simp: busy_def in_company_def PostgresRepository_def in_turn_def no_throw_def after_turn_def split: prod.splits)

lemma busy_revert:
  assumes "op_RevertTombstone (busy others (PostgresRepository nb)) h w = (r, w')"
  shows "r = Inr () \<and> w' = after_turn (others (turn w + 1) (RevertTombstone (now w) h (tables w))) w"
  using assms by (auto simp: busy_def in_company_def PostgresRepository_def in_turn_def no_throw_def after_turn_def)

text \<open>What a sweep in company keeps: the reachable tables, and a file that nobody deletes.\<close>

definition in_place :: "int \<Rightarrow> string set \<Rightarrow> file_row set \<Rightarrow> pg_world \<Rightarrow> bool" where
  "in_place nb K F w \<longleftrightarrow> shared_world nb K w \<and> F \<subseteq> set (files (tables w))"

lemma in_place_step:
  assumes "in_place nb K F w" and "db_step nb K (tables w) d" and "files d = files (tables w)"
    and "\<forall>i d. (db_step nb K)\<^sup>*\<^sup>* d (others i d)" and "\<forall>f\<in>F. \<forall>i d. f \<in> set (files d) \<longrightarrow> f \<in> set (files (others i d))"
  shows "in_place nb K F (after_turn (others i d) w)"
  using assms(1,3,5) shared_world_step [OF _ assms(2,4)] by (auto simp: in_place_def)

lemma sweep_in_place:
  assumes company: "\<forall>i d. (db_step nb K)\<^sup>*\<^sup>* d (others i d)"
    and kept: "\<forall>f\<in>F. \<forall>i d. f \<in> set (files d) \<longrightarrow> f \<in> set (files (others i d))"
    and "in_place nb K F w" and "\<forall>t\<in>set ts. \<forall>os. set (task_order t os) = set os"
    and "sweep (busy others (PostgresRepository nb)) ts n sent w = (r, w')"
  shows "in_place nb K F w' \<and> (\<exists>k reqs. r = Inr (k, sent @ reqs) \<and>
     (\<forall>h\<in>K \<inter> \<Union> (set ` file_chunks ` F). \<forall>req\<in>set reqs. path req \<noteq> delete_path h))"
proof (rule sweep_keeps [where Q = "in_place nb K F" and s = w and ts = ts and n = n and R = "busy others (PostgresRepository nb)"])
  show "in_place nb K F w" "\<forall>t\<in>set ts. \<forall>os. set (task_order t os) = set os"
    "sweep (busy others (PostgresRepository nb)) ts n sent w = (r, w')" by (fact assms)+
next
  fix w r w' assume w: "in_place nb K F w" and run: "op_GetOrphanedChunks (busy others (PostgresRepository nb)) 24 100 w = (r, w')"
  have ok: "pg_ok (now w)" using w by (simp add: in_place_def shared_world_def now_def)
  have inv: "store_inv K (tables w)" using w unfolding in_place_def shared_world_def by (blast intro: reachable_store_inv)
  obtain os d where os: "r = Inr os" "GetOrphanedChunks (now w) 24 100 (tables w) = (os, d)"
    "w' = after_turn (others (turn w + 1) d) w" using busy_get [OF run] by blast
  have "files d = files (tables w)" using os(2) by (auto simp: GetOrphanedChunks_def tombstone_def Let_def split: if_splits)
  then have "in_place nb K F w'"
    unfolding os(3) by (rule in_place_step [OF w db_step.get_orphans [OF ok os(2)] _ company kept])
  moreover have "chunk_state_of (tables w) h = Referenced" if "h \<in> K \<inter> \<Union> (set ` file_chunks ` F)" for h
    using that w shared_world_referenced [of nb K w _ h] by (auto simp: in_place_def)
  then have "(K \<inter> \<Union> (set ` file_chunks ` F)) \<inter> orphan_hash ` set os = {}"
    using GetOrphanedChunks_state [OF inv ok os(2)] by fastforce
  ultimately show "in_place nb K F w' \<and> (\<exists>os. r = Inr os \<and> (K \<inter> \<Union> (set ` file_chunks ` F)) \<inter> orphan_hash ` set os = {})"
    using os(1) by blast
next
  fix hs w r w' assume w: "in_place nb K F w" and run: "op_DeleteChunkRecordsBulk (busy others (PostgresRepository nb)) hs w = (r, w')"
  obtain b d where b: "r = Inr b" "DeleteChunkRecordsBulk (now w) hs (tables w) = (b, d)"
    "w' = after_turn (others (turn w + 1) d) w" using busy_drop [OF run] by blast
  have "files d = files (tables w)" using b(2) by (auto simp: DeleteChunkRecordsBulk_eq split: if_splits)
  then show "in_place nb K F w' \<and> (\<exists>b. r = Inr b)"
    using in_place_step [OF w db_step.delete_records [OF b(2)] _ company kept] b(1,3) by blast
next
  fix h w r w' assume w: "in_place nb K F w" and run: "op_RevertTombstone (busy others (PostgresRepository nb)) h w = (r, w')"
  have "files (RevertTombstone (now w) h (tables w)) = files (tables w)"
    by (auto simp: RevertTombstone_def transact_def modify_def)
  then show "in_place nb K F w' \<and> r = Inr ()"
    using in_place_step [OF w db_step.revert _ company kept] busy_revert [OF run] by blast
qed

text \<open>C9: Collection is safe. A sweep starts in a state the repository reaches and runs beside everybody else: after each of its
  database operations any operations of the repository may run, whatever they are and whoever asks for them, and any workers
  and database transactions may fail. Then the sweep raises nothing, no file is lost that nobody else deletes, the sweep asks no worker
  for the deletion of a chunk of such a file, and at its end every chunk that a file names has a referenced record. This holds of the
  chunks that every commit found live when it stored them; transactions take effect one at a time.\<close>

theorem sweep_spares_referenced:
  assumes "db_reachable nb K (tables w)" and "\<forall>i. pg_ok (server w i)" and "\<forall>t\<in>set ts. \<forall>os. set (task_order t os) = set os"
    and "\<forall>i d. (db_step nb K)\<^sup>*\<^sup>* d (others i d)"
    and "sweep (busy others (PostgresRepository nb)) ts 0 [] w = (r, w')"
  shows "\<exists>k reqs. r = Inr (k, reqs) \<and>
     (\<forall>f\<in>set (files (tables w)). (\<forall>i d. f \<in> set (files d) \<longrightarrow> f \<in> set (files (others i d))) \<longrightarrow>
        f \<in> set (files (tables w')) \<and> (\<forall>h\<in>set (file_chunks f) \<inter> K. \<forall>req\<in>set reqs. path req \<noteq> delete_path h)) \<and>
     (\<forall>f\<in>set (files (tables w')). \<forall>h\<in>set (file_chunks f) \<inter> K. chunk_state_of (tables w') h = Referenced)"
proof -
  let ?F = "{f \<in> set (files (tables w)). \<forall>i d. f \<in> set (files d) \<longrightarrow> f \<in> set (files (others i d))}"
  have "in_place nb K ?F w" using assms(1,2) by (auto simp: in_place_def shared_world_def)
  then have out: "in_place nb K ?F w' \<and> (\<exists>k reqs. r = Inr (k, [] @ reqs) \<and>
     (\<forall>h\<in>K \<inter> \<Union> (set ` file_chunks ` ?F). \<forall>req\<in>set reqs. path req \<noteq> delete_path h))"
    by (intro sweep_in_place [OF assms(4) _ _ assms(3,5)]) auto
  then obtain k reqs where r: "r = Inr (k, reqs)"
    and spared: "\<forall>h\<in>K \<inter> \<Union> (set ` file_chunks ` ?F). \<forall>req\<in>set reqs. path req \<noteq> delete_path h" by auto
  have "shared_world nb K w'" and F: "?F \<subseteq> set (files (tables w'))" using out by (auto simp: in_place_def)
  then have "\<forall>f\<in>set (files (tables w')). \<forall>h\<in>set (file_chunks f) \<inter> K. chunk_state_of (tables w') h = Referenced"
    using shared_world_referenced by blast
  moreover have "f \<in> set (files (tables w')) \<and> (\<forall>h\<in>set (file_chunks f) \<inter> K. \<forall>req\<in>set reqs. path req \<noteq> delete_path h)"
    if "f \<in> ?F" for f
    using that F spared by blast
  ultimately show ?thesis using r by blast
qed

text \<open>A run: besides the committed file there is a chunk that was negotiated and never committed,
  and the sweep comes two days later.\<close>

definition hash_c :: string where
  "hash_c = ''00000000000000000000000000000000000000000000000000000000000000cc''"

definition run_mixed :: db where
  "run_mixed = snd (FilterMissingChunks (sample_pg 6) 2 [hash_c] run_commit)"

definition run_world :: pg_world where
  "run_world = \<lparr>tables = run_mixed, server = (\<lambda>_. sample_pg late), turn = 0\<rparr>"

definition run_turn :: gc_turn where
  "run_turn = \<lparr>keep_running = True, replies = (\<lambda>_ _. Response 200), task_order = id\<rparr>"

lemma run_mixed_eq: "run_mixed = (run_db [run_file] 2 5 2 1)\<lparr>chunks := chunks (run_db [run_file] 2 5 2 1) @
    [\<lparr>chunk_hash = hash_c, nodes = [1], ref_count = 0, created_at = 6\<rparr>]\<rparr>"
  unfolding run_mixed_def run_commit_eq by code_simp

lemma reachable_mixed: "db_reachable 2 K run_mixed"
  unfolding run_mixed_def
  by (rule db_reachable.step [OF reachable_commit], rule requested(3), rule prod.collapse [symmetric])

lemma run_world_good: "world_good run_world"
  using reachable_store_inv [OF reachable_mixed] sample_pg_ok by (simp add: world_good_def run_world_def)

lemma run_take: "op_GetOrphanedChunks (PostgresRepository 2) 24 100 run_world =
    (Inr [\<lparr>orphan_hash = hash_c, locations = [\<lparr>loc_host = ''worker_1'', loc_port = 9001\<rparr>]\<rparr>],
     after_turn (tombstone [hash_c] run_mixed) run_world)"
proof -
  have "GetOrphanedChunks (sample_pg late) 24 100 run_mixed =
      ([\<lparr>orphan_hash = hash_c, locations = [\<lparr>loc_host = ''worker_1'', loc_port = 9001\<rparr>]\<rparr>], tombstone [hash_c] run_mixed)"
    unfolding run_mixed_eq by code_simp
  then show ?thesis by (simp add: PostgresRepository_def in_turn_def no_throw_def now_def run_world_def)
qed

lemma batch_settles_witness:
  "chunk_state_of (tables (snd (settle_batch (PostgresRepository 2)
     [\<lparr>orphan_hash = hash_c, locations = [\<lparr>loc_host = ''worker_1'', loc_port = 9001\<rparr>]\<rparr>] [hash_c]
     (after_turn (tombstone [hash_c] run_mixed) run_world)))) hash_c = Unknown"
proof -
  have "PurgeOrphanBatchParallel (\<lambda>_ _. Response 200) id [\<lparr>orphan_hash = hash_c, locations = [\<lparr>loc_host = ''worker_1'', loc_port = 9001\<rparr>]\<rparr>]
     = ([hash_c], [\<lparr>dest = \<lparr>loc_host = ''worker_1'', loc_port = 9001\<rparr>, path = delete_path hash_c\<rparr>])"
    by code_simp
  moreover have "world_reliable run_world" by (simp add: world_reliable_def run_world_def sample_pg_def)
  ultimately show ?thesis
    using batch_settles [OF run_world_good run_take _ prod.collapse [symmetric]] by (auto simp: confirmed_def)
qed

text \<open>While the sweep has a batch in hand, a client negotiates another chunk.\<close>

definition hash_d :: string where
  "hash_d = ''00000000000000000000000000000000000000000000000000000000000000dd''"

definition run_others :: "nat \<Rightarrow> db \<Rightarrow> db" where
  "run_others i d = (if i = 1 then snd (FilterMissingChunks (sample_pg late) 2 [hash_d] d) else d)"

lemma run_others_files: "files (run_others i d) = files d"
proof -
  obtain r d' where "FilterMissingChunks (sample_pg late) 2 [hash_d] d = (r, d')" by fastforce
  then have "files d' = files d"
    by (cases r) (auto dest: FilterMissingChunks_Inl FilterMissingChunks_Inr(1) simp: negotiated_def)
  then show ?thesis using \<open>FilterMissingChunks (sample_pg late) 2 [hash_d] d = (r, d')\<close> by (simp add: run_others_def)
qed

lemma run_others_steps: "(db_step 2 K)\<^sup>*\<^sup>* d (run_others i d)"
  by (auto simp: run_others_def intro!: r_into_rtranclp requested(3) prod.collapse [symmetric])

lemma sweep_spares_referenced_witness:
  "\<exists>k reqs w'. sweep (busy run_others (PostgresRepository 2)) [run_turn, run_turn] 0 [] run_world = (Inr (k, reqs), w') \<and>
     run_file \<in> set (files (tables w')) \<and> chunk_state_of (tables w') hash_a = Referenced \<and>
     (\<forall>req\<in>set reqs. path req \<noteq> delete_path hash_a)"
proof -
  obtain r w' where run: "sweep (busy run_others (PostgresRepository 2)) [run_turn, run_turn] 0 [] run_world = (r, w')" by fastforce
  have f: "run_file \<in> set (files (tables run_world))" "hash_a \<in> set (file_chunks run_file)"
    by (simp_all add: run_world_def run_mixed_eq run_db_def run_file_def)
  have "\<exists>k reqs. r = Inr (k, reqs) \<and>
     (\<forall>f\<in>set (files (tables run_world)). (\<forall>i d. f \<in> set (files d) \<longrightarrow> f \<in> set (files (run_others i d))) \<longrightarrow>
        f \<in> set (files (tables w')) \<and> (\<forall>h\<in>set (file_chunks f) \<inter> {hash_a}. \<forall>req\<in>set reqs. path req \<noteq> delete_path h)) \<and>
     (\<forall>f\<in>set (files (tables w')). \<forall>h\<in>set (file_chunks f) \<inter> {hash_a}. chunk_state_of (tables w') h = Referenced)"
    using reachable_mixed sample_pg_ok run_others_steps
    by (intro sweep_spares_referenced [OF _ _ _ _ run, where K = "{hash_a}"]) (simp_all add: run_world_def run_turn_def)
  then show ?thesis using run f by (auto simp: run_others_files)
qed

section \<open>The sweep ends\<close>

text \<open>
  The records a sweep can still take: unreferenced and dated before \<open>t\<close>. A record that is taken
  is dropped, stays a tombstone, or comes back dated by the clock of the revert.
\<close>

definition aged :: "int \<Rightarrow> db \<Rightarrow> nat" where
  "aged t d = length (filter (\<lambda>r. ref_count r = 0 \<and> created_at r < t) (chunks d))"

definition window :: "int \<Rightarrow> pg_world \<Rightarrow> bool" where
  "window t w \<longleftrightarrow> (\<forall>i\<ge>turn w. pg_ok (server w i) \<and> connects (server w i) \<and> commits (server w i) \<and>
     t \<le> clock (server w i) \<and> clock (server w i) \<le> t + hours 24)"

lemma window_after: "window t w \<Longrightarrow> window t (after_turn d w)"
  by (simp add: window_def)

lemma window_now: "window t w \<Longrightarrow> pg_ok (now w) \<and> connects (now w) \<and> commits (now w) \<and> t \<le> clock (now w) \<and>
    clock (now w) \<le> t + hours 24"
  by (simp add: window_def now_def)

lemma length_filter_mono: "(\<And>x. x \<in> set xs \<Longrightarrow> P x \<Longrightarrow> Q x) \<Longrightarrow> length (filter P xs) \<le> length (filter Q xs)"
  by (induction xs) auto

lemma aged_update:
  assumes "\<And>r. p r \<Longrightarrow> \<not> (ref_count (u r) = 0 \<and> created_at (u r) < t)"
  shows "aged t (update_chunks p u d) \<le> aged t d"
  unfolding aged_def update_chunks_def
  using assms by (auto simp: filter_map comp_def intro!: length_filter_mono split: if_splits)

lemma aged_update_less:
  assumes "\<And>r. p r \<Longrightarrow> \<not> (ref_count (u r) = 0 \<and> created_at (u r) < t)"
    and "r \<in> set (chunks d)" and "p r" and "ref_count r = 0" and "created_at r < t"
  shows "aged t (update_chunks p u d) < aged t d"
proof -
  have "length (filter (\<lambda>x. ref_count (if p x then u x else x) = 0 \<and> created_at (if p x then u x else x) < t) cs)
      < length (filter (\<lambda>r. ref_count r = 0 \<and> created_at r < t) cs)" if "r \<in> set cs" for cs
    using that
  proof (induction cs)
    case (Cons c cs)
    have le: "length (filter (\<lambda>x. ref_count (if p x then u x else x) = 0 \<and> created_at (if p x then u x else x) < t) cs)
      \<le> length (filter (\<lambda>r. ref_count r = 0 \<and> created_at r < t) cs)"
      using assms(1) by (intro length_filter_mono) (auto split: if_splits)
    show ?case
    proof (cases "c = r")
      case True
      then show ?thesis using le assms(3-5) assms(1) [OF assms(3)] by (auto simp: less_Suc_eq_le)
    next
      case False
      then show ?thesis using Cons assms(1) [of c] by auto
    qed
  qed simp
  then show ?thesis using assms(2) by (simp add: aged_def update_chunks_def filter_map comp_def)
qed

lemma settle_aged:
  assumes "window t w"
  shows "aged t (tables (snd (settle_batch (PostgresRepository nb) os purged w))) \<le> aged t (tables w) \<and>
     window t (snd (settle_batch (PostgresRepository nb) os purged w))"
proof -
  let ?P = "\<lambda>v. aged t (tables v) \<le> aged t (tables w) \<and> window t v"
  have del: "preserves ?P (op_DeleteChunkRecordsBulk (PostgresRepository nb) hs)" for hs
  proof -
    have "aged t (d\<lparr>chunks := filter Q (chunks d)\<rparr>) \<le> aged t d" for Q d
      by (simp add: aged_def) (rule length_filter_mono, simp)
    then show ?thesis
      by (auto simp: preserves_def PostgresRepository_def in_turn_def no_throw_def DeleteChunkRecordsBulk_eq window_after
          intro: order_trans split: prod.split)
  qed
  have rev: "preserves ?P (op_RevertTombstone (PostgresRepository nb) h)" for h
  proof -
    have "aged t (RevertTombstone (now v) h (tables v)) \<le> aged t (tables v)" if "window t v" for v
    proof -
      have "t \<le> clock (now v)" "connects (now v)" "commits (now v)" using window_now [OF that] by auto
      then show ?thesis by (auto simp: RevertTombstone_def transact_def modify_def intro: aged_update)
    qed
    then show ?thesis
      by (auto simp: preserves_def PostgresRepository_def in_turn_def no_throw_def window_after intro: order_trans)
  qed
  have "preserves ?P (settle_batch (PostgresRepository nb) os purged)"
    unfolding settle_batch_def by (auto intro!: preserves_intros del rev)
  then show ?thesis using assms by (auto simp: preserves_def)
qed


text \<open>A batch that takes anything takes an aged record, and reverting dates it anew.\<close>

lemma get_aged:
  assumes "window t w" and "op_GetOrphanedChunks (PostgresRepository nb) 24 100 w = (Inr os, w')" and "os \<noteq> []"
  shows "aged t (tables w') < aged t (tables w) \<and> window t w'"
proof -
  note win = window_now [OF assms(1)]
  let ?picked = "limit_chunks (now w) 100 (orphan_candidates (now w) 24 (tables w))"
  obtain d where d: "GetOrphanedChunks (now w) 24 100 (tables w) = (os, d)" "w' = after_turn d w"
    using assms(2) by (auto simp: PostgresRepository_def in_turn_eq no_throw_eq)
  then have tomb: "d = tombstone ?picked (tables w)" and "\<exists>h. h \<in> set ?picked"
    using win assms(3) by (auto simp: GetOrphanedChunks_def Let_def filter_empty_conv)
  then obtain h r where h: "h \<in> set ?picked" and r: "r \<in> set (chunks (tables w))" "chunk_hash r = h" "ref_count r = 0"
    "created_at r < clock (now w) - hours 24"
    using picked_candidates [of "now w"] win by blast
  have "aged t d < aged t (tables w)" unfolding tomb tombstone_def
    by (rule aged_update_less [where r = r]) (use h r win in auto)
  then show ?thesis using d(2) window_after [OF assms(1)] by simp
qed

lemma settle_Inr: "settle_batch (PostgresRepository nb) os purged w = (r, w') \<Longrightarrow> \<exists>n. r = Inr n"
proof -
  have one: "op_RevertTombstone (PostgresRepository nb) h v = (Inr (), after_turn (RevertTombstone (now v) h (tables v)) v)" for h v
    by (simp add: PostgresRepository_def in_turn_def no_throw_def)
  have revert: "\<exists>v'. for_each (op_RevertTombstone (PostgresRepository nb)) hs v = (Inr (), v')" for hs v
    by (induction hs arbitrary: v) (simp_all add: outcome_simps one)
  have "\<exists>b v. op_DeleteChunkRecordsBulk (PostgresRepository nb) purged w = (Inr b, v)"
    by (cases "DeleteChunkRecordsBulk (now w) purged (tables w)") (simp add: PostgresRepository_def in_turn_def no_throw_def)
  then have "\<exists>b v. (if purged \<noteq> [] then op_DeleteChunkRecordsBulk (PostgresRepository nb) purged else ret True) w = (Inr b, v)"
    by (auto simp: outcome_simps)
  then obtain b v where "(if purged \<noteq> [] then op_DeleteChunkRecordsBulk (PostgresRepository nb) purged else ret True) w = (Inr b, v)"
    by (elim exE)
  moreover have "\<exists>v'. (if \<not> b then for_each (op_RevertTombstone (PostgresRepository nb)) (map orphan_hash os)
      else for_each (op_RevertTombstone (PostgresRepository nb)) (filter (\<lambda>h. h \<notin> set purged) (map orphan_hash os))) v = (Inr (), v')"
    using revert by (cases b) simp_all
  moreover from this obtain v' where "(if \<not> b then for_each (op_RevertTombstone (PostgresRepository nb)) (map orphan_hash os)
      else for_each (op_RevertTombstone (PostgresRepository nb)) (filter (\<lambda>h. h \<notin> set purged) (map orphan_hash os))) v = (Inr (), v')"
    by (elim exE)
  ultimately have "settle_batch (PostgresRepository nb) os purged w = ret (if b then int (length purged) else 0) v'"
    by (simp only: settle_batch_def andthen_Inr)
  then show "settle_batch (PostgresRepository nb) os purged w = (r, w') \<Longrightarrow> \<exists>n. r = Inr n" by (auto simp: ret_def)
qed

text \<open>C27: The sweep ends: while the database answers and the clock stays within a day of
  the sweep's start, a loop that is given more turns than there are aged unreferenced records
  returns, so no chunk whose workers keep refusing is tried for ever.\<close>

theorem sweep_terminates:
  assumes "window t w" and "aged t (tables w) < length ts"
  shows "\<exists>k reqs w'. sweep (PostgresRepository nb) ts n sent w = (Inr (Some k, reqs), w')"
  using assms
proof (induction ts arbitrary: n sent w)
  case (Cons s ts)
  obtain q w1 where get: "op_GetOrphanedChunks (PostgresRepository nb) 24 100 w = (q, w1)" by fastforce
  then obtain os where q: "q = Inr os"
    by (auto simp: PostgresRepository_def in_turn_eq no_throw_eq)
  consider "\<not> keep_running s" | "keep_running s" "os = []" | "keep_running s" "os \<noteq> []" by blast
  then show ?case
  proof cases
    case 3
    obtain purged requests where purge: "PurgeOrphanBatchParallel (replies s) (task_order s) os = (purged, requests)"
      by fastforce
    obtain u w2 where settle: "settle_batch (PostgresRepository nb) os purged w1 = (u, w2)" by fastforce
    have "aged t (tables w1) < aged t (tables w)" and win1: "window t w1"
      using get_aged [OF Cons.prems(1)] get q 3(2) by blast+
    moreover have "aged t (tables w2) \<le> aged t (tables w1)" and win2: "window t w2"
      using settle_aged [OF win1, of nb os purged] settle by auto
    ultimately have less: "aged t (tables w2) < length ts" using Cons.prems(2) by simp
    obtain m where "u = Inr m" using settle_Inr [OF settle] by blast
    then show ?thesis using Cons.IH [OF win2 less] get q purge settle 3 by (auto simp: outcome_simps)
  qed (use get q in \<open>auto simp: outcome_simps\<close>)
qed simp

lemma sweep_terminates_witness:
  "\<exists>k reqs w'. sweep (PostgresRepository 2) [run_turn, run_turn] 0 [] run_world = (Inr (Some k, reqs), w')"
proof (rule sweep_terminates)
  show "window (hours 47) run_world"
    using sample_pg_ok by (simp add: window_def run_world_def sample_pg_def late_def hours_def)
  show "aged (hours 47) (tables run_world) < length [run_turn, run_turn]"
    by (simp add: aged_def run_world_def run_mixed_eq run_db_def hours_def)
qed

end
