(* ===== verification/Shutdown.thy ===== *)
theory Shutdown
  imports Main
begin

text \<open>
  How the two server programs stop: the signal flag and the main loop, the thread of the HTTP server
  with the requests it has accepted, and the background thread that sleeps on a condition variable
  (the collector of \<^verbatim>\<open>master/main.cpp\<close>, the heartbeat of \<^verbatim>\<open>worker/main.cpp\<close>; their code is the same).
  The threads interleave; the locking of the mutex is part of the model.
\<close>

section \<open>The threads\<close>

text \<open>
  Where the background thread is: in the test of its outer loop, in the body (a sweep, a
  heartbeat), holding the mutex between the test of the predicate and going to sleep, asleep inside
  \<^verbatim>\<open>wait_for\<close>, or returned. Where the thread of the HTTP server is: before it has a socket, with one,
  in the loop that accepts connections, waiting for the requests in hand, or returned from \<^verbatim>\<open>Listen\<close>.
  Where the main thread is: in its polling loop, joining the HTTP server's thread, past that, having
  cleared \<^verbatim>\<open>keep_running\<close>, having notified, or past the second join.
\<close>

datatype daemon_pc = Testing | Working | Deciding bool | Asleep | Returned

datatype server_pc = Starting | Bound | Accepting | Draining | Shut

datatype main_pc = Polling | Joining_server | Stopping | Cleared | Notified | Joined

text \<open>\<open>has_socket\<close> is whether \<^verbatim>\<open>svr_sock_\<close> is a socket, \<open>is_running\<close> the flag of that name in the HTTP server.\<close>

record process =
  daemon :: daemon_pc
  http_server :: server_pc
  main_thread :: main_pc
  shutdown_requested :: bool
  keep_running_flag :: bool
  woken :: bool
  has_socket :: bool
  is_running :: bool
  in_hand :: nat

definition started :: process where
  "started = \<lparr>daemon = Testing, http_server = Starting, main_thread = Polling, shutdown_requested = False,
     keep_running_flag = True, woken = False, has_socket = False, is_running = False, in_hand = 0\<rparr>"

datatype signal = SIGINT | SIGTERM | OtherSignal

definition SignalHandler :: "signal \<Rightarrow> process \<Rightarrow> process" where
  "SignalHandler sig p = (if sig = SIGINT \<or> sig = SIGTERM then p\<lparr>shutdown_requested := True\<rparr> else p)"

text \<open>
  \<^verbatim>\<open>wait_for(lock, d, pred)\<close> tests the predicate under the lock, sleeps, and tests it again after a
  wake-up (by a notification, or spuriously) or when the time is over; it returns when the predicate
  holds or the time is over. Only \<open>Timeout\<close> needs the full sleep.
\<close>

datatype action_label =
    Signal signal
  | Daemon | Timeout | Spurious
  | Server | Connect | Answer | Bind_fails | Accept_fails
  | Main

inductive daemon_step :: "action_label \<Rightarrow> process \<Rightarrow> process \<Rightarrow> bool" where
  loop_enter: "daemon p = Testing \<Longrightarrow> keep_running_flag p \<Longrightarrow> daemon_step Daemon p (p\<lparr>daemon := Working\<rparr>)"
| loop_leave: "daemon p = Testing \<Longrightarrow> \<not> keep_running_flag p \<Longrightarrow> daemon_step Daemon p (p\<lparr>daemon := Returned\<rparr>)"
| lock_and_test: "daemon p = Working \<Longrightarrow>
    daemon_step Daemon p (p\<lparr>daemon := Deciding (\<not> keep_running_flag p)\<rparr>)"
| no_sleep: "daemon p = Deciding True \<Longrightarrow> daemon_step Daemon p (p\<lparr>daemon := Testing\<rparr>)"
| sleep: "daemon p = Deciding False \<Longrightarrow> daemon_step Daemon p (p\<lparr>daemon := Asleep, woken := False\<rparr>)"
| wake: "daemon p = Asleep \<Longrightarrow> woken p \<Longrightarrow>
    daemon_step Daemon p (p\<lparr>daemon := Deciding (\<not> keep_running_flag p)\<rparr>)"
| spurious: "daemon p = Asleep \<Longrightarrow> daemon_step Spurious p (p\<lparr>daemon := Deciding (\<not> keep_running_flag p)\<rparr>)"
| timeout: "daemon p = Asleep \<Longrightarrow> daemon_step Timeout p (p\<lparr>daemon := Testing\<rparr>)"

text \<open>
  \<^verbatim>\<open>Server::listen\<close> binds the port, which may fail, and accepts connections while it has a socket;
  each becomes a request of the thread pool. Then it waits for the pool to finish. An \<^verbatim>\<open>accept\<close> that fails for good ends the loop
  with the socket still set. The flag \<^verbatim>\<open>is_decommissioned\<close> matters to a second \<^verbatim>\<open>listen\<close> only, which no program makes.
\<close>

inductive server_step :: "action_label \<Rightarrow> process \<Rightarrow> process \<Rightarrow> bool" where
  bind: "http_server p = Starting \<Longrightarrow> server_step Server p (p\<lparr>http_server := Bound, has_socket := True\<rparr>)"
| bind_fails: "http_server p = Starting \<Longrightarrow> server_step Bind_fails p (p\<lparr>http_server := Shut\<rparr>)"
| listen: "http_server p = Bound \<Longrightarrow> server_step Server p (p\<lparr>http_server := Accepting, is_running := True\<rparr>)"
| accept: "http_server p = Accepting \<Longrightarrow> has_socket p \<Longrightarrow> server_step Connect p (p\<lparr>in_hand := in_hand p + 1\<rparr>)"
| accept_fails: "http_server p = Accepting \<Longrightarrow> has_socket p \<Longrightarrow> server_step Accept_fails p (p\<lparr>http_server := Draining\<rparr>)"
| no_socket: "http_server p = Accepting \<Longrightarrow> \<not> has_socket p \<Longrightarrow> server_step Server p (p\<lparr>http_server := Draining\<rparr>)"
| answer: "0 < in_hand p \<Longrightarrow> server_step Answer p (p\<lparr>in_hand := in_hand p - 1\<rparr>)"
| drained: "http_server p = Draining \<Longrightarrow> in_hand p = 0 \<Longrightarrow>
    server_step Server p (p\<lparr>http_server := Shut, is_running := False\<rparr>)"

text \<open>\<^verbatim>\<open>Server::stop\<close> takes the socket away from a server that runs, and does nothing to another.\<close>

definition stop_http :: "process \<Rightarrow> process" where
  "stop_http p = (if is_running p then p\<lparr>has_socket := False\<rparr> else p)"

text \<open>The main thread clears the flag and notifies without taking the mutex.\<close>

inductive main_step :: "process \<Rightarrow> process \<Rightarrow> bool" where
  poll: "main_thread p = Polling \<Longrightarrow> shutdown_requested p \<Longrightarrow>
    main_step p (stop_http (p\<lparr>main_thread := Joining_server\<rparr>))"
| join_server: "main_thread p = Joining_server \<Longrightarrow> http_server p = Shut \<Longrightarrow> main_step p (p\<lparr>main_thread := Stopping\<rparr>)"
| clear: "main_thread p = Stopping \<Longrightarrow> main_step p (p\<lparr>main_thread := Cleared, keep_running_flag := False\<rparr>)"
| notify: "main_thread p = Cleared \<Longrightarrow> main_step p (p\<lparr>main_thread := Notified, woken := (daemon p = Asleep)\<rparr>)"
| join: "main_thread p = Notified \<Longrightarrow> daemon p = Returned \<Longrightarrow> main_step p (p\<lparr>main_thread := Joined\<rparr>)"

inductive process_step :: "action_label \<Rightarrow> process \<Rightarrow> process \<Rightarrow> bool" where
  signal: "process_step (Signal sig) p (SignalHandler sig p)"
| of_daemon: "daemon_step a p q \<Longrightarrow> process_step a p q"
| of_server: "server_step a p q \<Longrightarrow> process_step a p q"
| of_main: "main_step p q \<Longrightarrow> process_step Main p q"

inductive runs :: "process \<Rightarrow> action_label list \<Rightarrow> process \<Rightarrow> bool" where
  here: "runs p [] p"
| step: "process_step a p q \<Longrightarrow> runs q as r \<Longrightarrow> runs p (a # as) r"

code_pred (modes: i \<Rightarrow> i \<Rightarrow> o \<Rightarrow> bool as next_process) process_step .

lemmas all_steps = daemon_step.simps server_step.simps main_step.simps

inductive_simps process_step_simps: "process_step a p q"

lemma runs_append: "runs p as q \<Longrightarrow> runs q bs r \<Longrightarrow> runs p (as @ bs) r"
  by (induction rule: runs.induct) (auto intro: runs.intros)

lemma runs_invariant:
  assumes "runs p as q" and "I p" and "\<And>a p q. a \<in> set as \<Longrightarrow> process_step a p q \<Longrightarrow> I p \<Longrightarrow> I q"
  shows "I q"
  using assms by (induction rule: runs.induct) auto

section \<open>A shutdown in order\<close>

definition is_stop :: "action_label \<Rightarrow> bool" where
  "is_stop a \<longleftrightarrow> a = Signal SIGINT \<or> a = Signal SIGTERM"

definition orderly :: "process \<Rightarrow> bool" where
  "orderly p \<longleftrightarrow>
     (main_thread p \<noteq> Polling \<longrightarrow> shutdown_requested p) \<and>
     (http_server p = Starting \<longrightarrow> \<not> has_socket p) \<and>
     (is_running p \<longleftrightarrow> http_server p = Accepting \<or> http_server p = Draining) \<and>
     (0 < in_hand p \<longrightarrow> is_running p) \<and>
     (main_thread p \<noteq> Polling \<and> main_thread p \<noteq> Joining_server \<longrightarrow> http_server p = Shut) \<and>
     (keep_running_flag p \<longleftrightarrow> main_thread p \<in> {Polling, Joining_server, Stopping}) \<and>
     (daemon p = Returned \<longrightarrow> \<not> keep_running_flag p) \<and>
     (main_thread p = Joined \<longrightarrow> daemon p = Returned)"

lemma orderly_daemon: "daemon_step a p q \<Longrightarrow> orderly p \<Longrightarrow> orderly q"
  by (induction rule: daemon_step.induct) (auto simp: orderly_def)

lemma orderly_server: "server_step a p q \<Longrightarrow> orderly p \<Longrightarrow> orderly q"
  by (induction rule: server_step.induct) (auto simp: orderly_def)

lemma orderly_main: "main_step p q \<Longrightarrow> orderly p \<Longrightarrow> orderly q"
  by (induction rule: main_step.induct) (auto simp: orderly_def stop_http_def)

lemma orderly_signal: "orderly p \<Longrightarrow> orderly (SignalHandler sig p)"
  unfolding orderly_def SignalHandler_def by (cases "sig = SIGINT \<or> sig = SIGTERM") auto

lemma orderly_step: "process_step a p q \<Longrightarrow> orderly p \<Longrightarrow> orderly q"
  by (induction rule: process_step.induct) (rule orderly_signal orderly_daemon orderly_server orderly_main; assumption)+

lemma runs_orderly:
  assumes "runs started as p"
  shows "orderly p"
  using assms
proof (rule runs_invariant)
  show "orderly started" by (simp add: orderly_def started_def)
qed (rule orderly_step)

lemma requested_kept:
  "daemon_step a p q \<Longrightarrow> shutdown_requested q = shutdown_requested p"
  "server_step a p q \<Longrightarrow> shutdown_requested q = shutdown_requested p"
  "main_step p q \<Longrightarrow> shutdown_requested q = shutdown_requested p"
  by (auto simp: stop_http_def elim: daemon_step.cases server_step.cases main_step.cases)

lemma requested_step: "process_step a p q \<Longrightarrow> shutdown_requested q \<Longrightarrow> shutdown_requested p \<or> is_stop a"
  by (induction rule: process_step.induct) (auto simp: requested_kept is_stop_def SignalHandler_def split: if_splits)

lemma runs_requested: "runs p as q \<Longrightarrow> shutdown_requested q \<Longrightarrow> shutdown_requested p \<or> (\<exists>a\<in>set as. is_stop a)"
  by (induction rule: runs.induct) (auto dest: requested_step)

text \<open>How many steps of its own the background thread has left once \<^verbatim>\<open>keep_running\<close> is cleared.\<close>

fun remaining :: "daemon_pc \<Rightarrow> nat" where
  "remaining Returned = 0"
| "remaining Testing = 1"
| "remaining (Deciding True) = 2"
| "remaining Working = 3"
| "remaining Asleep = 3"
| "remaining (Deciding False) = 4"

definition daemon_labels :: "action_label set" where
  "daemon_labels = {Daemon, Spurious, Timeout}"

definition server_labels :: "action_label set" where
  "server_labels = {Server, Connect, Answer, Bind_fails, Accept_fails}"

lemma label_of_daemon: "daemon_step a p q \<Longrightarrow> a \<in> daemon_labels"
  by (induction rule: daemon_step.induct) (simp_all add: daemon_labels_def)

lemma label_of_server: "server_step a p q \<Longrightarrow> a \<in> server_labels"
  by (induction rule: server_step.induct) (simp_all add: server_labels_def)

lemma step_of_label:
  assumes "process_step a p q"
  shows "a \<in> daemon_labels \<Longrightarrow> daemon_step a p q" "a \<in> server_labels \<Longrightarrow> server_step a p q" "a = Main \<Longrightarrow> main_step p q"
proof -
  have apart: "daemon_labels \<inter> server_labels = {}" "Main \<notin> daemon_labels" "Main \<notin> server_labels"
    "Signal sig \<notin> daemon_labels \<union> server_labels" for sig
    by (auto simp: daemon_labels_def server_labels_def)
  show "a \<in> daemon_labels \<Longrightarrow> daemon_step a p q" "a \<in> server_labels \<Longrightarrow> server_step a p q" "a = Main \<Longrightarrow> main_step p q"
    using assms apart by (auto elim!: process_step.cases dest: label_of_daemon label_of_server)
qed

lemma daemon_nears_return:
  assumes "process_step a p q" and "a \<in> daemon_labels" and "\<not> keep_running_flag p"
  shows "remaining (daemon q) < remaining (daemon p) \<and> \<not> keep_running_flag q"
  using step_of_label(1) [OF assms(1,2)] assms(3) by (induction rule: daemon_step.induct) simp_all

lemma daemon_moves:
  assumes "daemon p \<noteq> Returned"
  shows "\<exists>a q. process_step a p q \<and> a \<in> {Daemon, Timeout}"
proof -
  consider "daemon p = Testing" | "daemon p = Working" | b where "daemon p = Deciding b" | "daemon p = Asleep"
    using assms by (cases "daemon p") auto
  then have "\<exists>a q. daemon_step a p q \<and> a \<in> {Daemon, Timeout}"
  proof cases
    case (3 b)
    then show ?thesis by (cases b) (auto simp: daemon_step.simps)
  qed (auto simp: daemon_step.simps)
  then show ?thesis using process_step.of_daemon by blast
qed

text \<open>
  A server that runs and was told to stop has lost its socket. What it still does: it leaves its loop,
  answers the requests it has, and returns.
\<close>

definition told :: "process \<Rightarrow> bool" where
  "told p \<longleftrightarrow> is_running p \<and> \<not> has_socket p"

definition server_left :: "process \<Rightarrow> nat" where
  "server_left p = in_hand p + (case http_server p of Shut \<Rightarrow> 0 | Draining \<Rightarrow> 1 | _ \<Rightarrow> 2)"

lemma server_nears_return:
  assumes "process_step a p q" and "a \<in> server_labels" and "told p" and "orderly p"
  shows "server_left q < server_left p \<and> (told q \<or> http_server q = Shut)"
  using step_of_label(2) [OF assms(1,2)] assms(3,4)
  by (induction rule: server_step.induct) (auto simp: told_def orderly_def server_left_def split: server_pc.splits)

lemma server_moves:
  assumes "told p" and "orderly p"
  shows "\<exists>a q. process_step a p q \<and> a \<in> {Server, Answer}"
proof -
  have "http_server p = Accepting \<and> \<not> has_socket p \<or> http_server p = Draining" using assms by (auto simp: told_def orderly_def)
  then have "\<exists>a q. server_step a p q \<and> a \<in> {Server, Answer}"
    using server_step.no_socket [of p] server_step.drained [of p] server_step.answer [of p] by (cases "in_hand p = 0") blast+
  then show ?thesis using process_step.of_server by blast
qed

text \<open>C40: Shutdown is orderly, and ends if the HTTP server was running when it was stopped: the program leaves its main
  loop only after an interrupt or termination signal; it clears the running flag only when the HTTP server's thread has
  returned and every accepted request is answered, and ends only when the background thread has returned. A running server that
  is stopped accepts no more connections, and each of its steps brings it nearer to its return; once the flag is cleared,
  each step of the background thread (one that may be the end of its sleep) does so too; and until a thread has returned
  it always has a step.\<close>

theorem shutdown_completes:
  assumes "runs started as p"
  shows "(main_thread p \<noteq> Polling \<longrightarrow> (\<exists>a\<in>set as. is_stop a)) \<and>
    (\<not> keep_running_flag p \<longrightarrow> http_server p = Shut \<and> in_hand p = 0) \<and>
    (main_thread p = Joined \<longrightarrow> daemon p = Returned \<and> \<not> keep_running_flag p) \<and>
    (main_thread p = Polling \<and> is_running p \<longrightarrow> (\<forall>q. process_step Main p q \<longrightarrow> told q)) \<and>
    (told p \<longrightarrow>
       (\<forall>a q. process_step a p q \<and> a \<in> server_labels \<longrightarrow> server_left q < server_left p \<and> (told q \<or> http_server q = Shut)) \<and>
       (\<exists>a q. process_step a p q \<and> a \<in> {Server, Answer})) \<and>
    (\<not> keep_running_flag p \<longrightarrow>
       (\<forall>a q. process_step a p q \<and> a \<in> daemon_labels \<longrightarrow>
          remaining (daemon q) < remaining (daemon p) \<and> \<not> keep_running_flag q) \<and>
       (daemon p \<noteq> Returned \<longrightarrow> (\<exists>a q. process_step a p q \<and> a \<in> {Daemon, Timeout})))"
proof -
  have ord: "orderly p" by (rule runs_orderly [OF assms])
  have "told q" if "main_thread p = Polling" "is_running p" "process_step Main p q" for q
    using step_of_label(3) [OF that(3) refl] that(1,2) by (cases rule: main_step.cases) (simp_all add: told_def stop_http_def)
  moreover have "shutdown_requested p \<longrightarrow> (\<exists>a\<in>set as. is_stop a)"
    using runs_requested [OF assms] by (auto simp: started_def)
  moreover have "\<not> keep_running_flag p \<longrightarrow> http_server p = Shut \<and> in_hand p = 0"
    using ord unfolding orderly_def by (cases "main_thread p") auto
  moreover have "main_thread p \<noteq> Polling \<longrightarrow> shutdown_requested p"
    "main_thread p = Joined \<longrightarrow> daemon p = Returned \<and> \<not> keep_running_flag p"
    using ord by (simp_all add: orderly_def)
  ultimately show ?thesis
    using server_nears_return [OF _ _ _ ord] server_moves [OF _ ord] daemon_nears_return [of _ p] daemon_moves [of p]
    by (intro conjI impI allI) (blast+)
qed

section \<open>The wake-up that is lost\<close>

text \<open>The interleaving: the background thread has tested the predicate and holds the mutex, the main
  thread clears the flag and notifies nobody, and the background thread goes to sleep.\<close>

definition missed :: process where
  "missed = \<lparr>daemon = Asleep, http_server = Shut, main_thread = Notified, shutdown_requested = True,
     keep_running_flag = False, woken = False, has_socket = False, is_running = False, in_hand = 0\<rparr>"

definition unlucky :: "action_label list" where
  "unlucky = [Server, Server, Daemon, Daemon, Signal SIGTERM, Main, Server, Server, Main, Main, Main, Daemon]"

lemma runs_Cons: "runs p (a # as) r \<longleftrightarrow> (\<exists>q. process_step a p q \<and> runs q as r)"
  by (subst runs.simps) auto

lemma runs_Nil: "runs p [] r \<longleftrightarrow> r = p"
  by (subst runs.simps) auto

lemma unlucky_run: "runs started unlucky missed"
  by (simp add: unlucky_def started_def missed_def runs_Cons runs_Nil process_step_simps all_steps SignalHandler_def stop_http_def)

text \<open>The wake-up at shutdown can be lost: there is an interleaving after which the main
  thread waits for the background thread, which sleeps, and nothing but the end of the sleep (a
  day, for the collector) or a spurious wake-up lets either go on.\<close>

theorem shutdown_may_oversleep:
  "runs started unlucky missed \<and>
    (\<forall>a q. process_step a missed q \<longrightarrow> a = Timeout \<or> a = Spurious \<or> (\<exists>sig. a = Signal sig))"
  using unlucky_run by (simp add: process_step_simps all_steps missed_def)

lemma shutdown_may_oversleep_witness:
  "runs started unlucky missed \<and> process_step Timeout missed (missed\<lparr>daemon := Testing\<rparr>) \<and>
    \<not> (\<exists>q. process_step Main missed q) \<and> \<not> (\<exists>q. process_step Daemon missed q)"
proof -
  have "process_step Timeout missed (missed\<lparr>daemon := Testing\<rparr>)"
    by (simp add: process_step_simps all_steps missed_def)
  then show ?thesis using shutdown_may_oversleep by blast
qed

lemma shutdown_completes_witness: "(\<exists>a\<in>set unlucky. is_stop a) \<and> http_server missed = Shut \<and> in_hand missed = 0"
  using shutdown_completes [OF unlucky_run] by (simp add: missed_def)

section \<open>The stop that comes too early\<close>

text \<open>The interleaving: the signal arrives and the main thread stops the HTTP server before that has begun to listen.\<close>

definition too_early :: "action_label list" where
  "too_early = [Signal SIGTERM, Main, Server, Server]"

definition deaf :: process where
  "deaf = started\<lparr>http_server := Accepting, main_thread := Joining_server, shutdown_requested := True,
     has_socket := True, is_running := True\<rparr>"

lemma too_early_run: "runs started too_early deaf"
  by (simp add: too_early_def deaf_def started_def runs_Cons runs_Nil process_step_simps all_steps SignalHandler_def stop_http_def)

definition unstoppable :: "process \<Rightarrow> bool" where
  "unstoppable p \<longleftrightarrow> main_thread p = Joining_server \<and> http_server p = Accepting \<and> has_socket p"

lemma unstoppable_step:
  assumes "process_step a p q" and "a \<noteq> Accept_fails" and "unstoppable p"
  shows "unstoppable q"
  using assms
proof (induction rule: process_step.induct)
  case (of_daemon a p q)
  then show ?case by (induction rule: daemon_step.induct) (simp_all add: unstoppable_def)
next
  case (of_server a p q)
  then show ?case by (induction rule: server_step.induct) (simp_all add: unstoppable_def)
next
  case (of_main p q)
  then show ?case by (induction rule: main_step.induct) (simp_all add: unstoppable_def)
qed (simp add: unstoppable_def SignalHandler_def)

text \<open>A stop signal that arrives before the HTTP server listens is lost for it: there is a run after which, whatever
  happens short of a failing socket, further signals included, the main thread waits for the server's thread, which goes on
  accepting connections.\<close>

theorem early_stop_hangs:
  "runs started too_early deaf \<and>
    (\<forall>as q. runs deaf as q \<and> Accept_fails \<notin> set as \<longrightarrow> main_thread q = Joining_server \<and> http_server q = Accepting)"
proof -
  have "unstoppable q" if "runs deaf as q" "Accept_fails \<notin> set as" for as q
    using that(1)
  proof (rule runs_invariant)
    show "unstoppable deaf" by (simp add: unstoppable_def deaf_def)
  qed (use that(2) unstoppable_step in blast)
  then show ?thesis using too_early_run by (auto simp: unstoppable_def)
qed

end
