(* ===== verification/Crypto.thy ===== *)
theory Crypto
  imports Std_Text Models
begin

text \<open>
  \<^verbatim>\<open>common/crypto.hpp\<close>: the encryption of chunks at rest, hashes, signed session tokens and
  password hashes. OpenSSL is a parameter: a record with one field per call the header makes, and
  named hypotheses that state its documented behaviour.
\<close>

section \<open>What the program relies on of OpenSSL\<close>

text \<open>
  The \<^verbatim>\<open>EVP\<close> contexts are given by what they were initialised with. A call that fails is
  \<open>None\<close> or \<open>False\<close>. The length of the input of an update is the C++ \<^verbatim>\<open>int\<close> the
  call is given.
\<close>

record openssl =
  RAND_bytes :: "nat \<Rightarrow> string option"
  EVP_CIPHER_CTX_new :: bool
  EVP_CipherInit :: "string \<Rightarrow> string \<Rightarrow> bool"
  EVP_EncryptUpdate :: "string \<Rightarrow> string \<Rightarrow> string \<Rightarrow> int \<Rightarrow> string option"
  EVP_EncryptFinal_ex :: "string \<Rightarrow> string \<Rightarrow> string \<Rightarrow> int \<Rightarrow> string option"
  EVP_DecryptUpdate :: "string \<Rightarrow> string \<Rightarrow> string \<Rightarrow> int \<Rightarrow> string option"
  EVP_DecryptFinal_ex :: "string \<Rightarrow> string \<Rightarrow> string \<Rightarrow> int \<Rightarrow> string option"
  EVP_MD_CTX_new :: bool
  EVP_DigestInit_ex :: bool
  EVP_DigestUpdate :: "string \<Rightarrow> bool"
  EVP_DigestFinal_ex :: "string \<Rightarrow> string option"
  HMAC :: "string \<Rightarrow> string \<Rightarrow> string"
  PKCS5_PBKDF2_HMAC :: "string \<Rightarrow> string \<Rightarrow> int \<Rightarrow> int \<Rightarrow> string option"
  CRYPTO_memcmp :: "string \<Rightarrow> string \<Rightarrow> nat \<Rightarrow> int"

text \<open>
  AES-256-CBC with PKCS padding: what a context with the same key and IV encrypted, it decrypts,
  and the ciphertext is padded to the next full block. Sizes are those of the documentation.
\<close>

definition cipher_ok :: "openssl \<Rightarrow> bool" where
  "cipher_ok ossl \<longleftrightarrow>
     (\<forall>key iv raw a b. EVP_EncryptUpdate ossl key iv raw (int (length raw)) = Some a \<longrightarrow>
        EVP_EncryptFinal_ex ossl key iv raw (int (length raw)) = Some b \<longrightarrow>
        length (a @ b) = 16 * (length raw div 16 + 1) \<and>
        (\<exists>c d. EVP_DecryptUpdate ossl key iv (a @ b) (int (length (a @ b))) = Some c \<and>
           EVP_DecryptFinal_ex ossl key iv (a @ b) (int (length (a @ b))) = Some d \<and> c @ d = raw))"

definition random_ok :: "openssl \<Rightarrow> bool" where
  "random_ok ossl \<longleftrightarrow> (\<forall>n bs. RAND_bytes ossl n = Some bs \<longrightarrow> length bs = n)"

definition digest_ok :: "openssl \<Rightarrow> bool" where
  "digest_ok ossl \<longleftrightarrow>
     (\<forall>s d. EVP_DigestFinal_ex ossl s = Some d \<longrightarrow> length d = 32) \<and>
     (\<forall>k s. length (HMAC ossl k s) = 32) \<and>
     (\<forall>p s n k d. 0 \<le> k \<longrightarrow> PKCS5_PBKDF2_HMAC ossl p s n k = Some d \<longrightarrow> int (length d) = k)"

definition memcmp_ok :: "openssl \<Rightarrow> bool" where
  "memcmp_ok ossl \<longleftrightarrow> (\<forall>a b n. n \<le> length a \<longrightarrow> n \<le> length b \<longrightarrow>
     (CRYPTO_memcmp ossl a b n = 0 \<longleftrightarrow> take n a = take n b))"

section \<open>Chunks at rest\<close>

definition EncryptBytes :: "openssl \<Rightarrow> string \<Rightarrow> string \<Rightarrow> string outcome" where
  "EncryptBytes ossl raw_data key =
     (case RAND_bytes ossl 16 of
        None \<Rightarrow> Inl (RuntimeError ''Failed to generate random IV'')
      | Some iv \<Rightarrow>
          if \<not> EVP_CIPHER_CTX_new ossl then Inl (RuntimeError ''Failed to create EVP context'')
          else if \<not> EVP_CipherInit ossl key iv then Inl (RuntimeError ''Encryption init failed'')
          else let n = to_int32 (int (length raw_data))
            in case EVP_EncryptUpdate ossl key iv raw_data n of
                 None \<Rightarrow> Inl (RuntimeError ''Encryption failed'')
               | Some body \<Rightarrow>
                   (case EVP_EncryptFinal_ex ossl key iv raw_data n of
                      None \<Rightarrow> Inl (RuntimeError ''Encryption finalization failed'')
                    | Some last_block \<Rightarrow> Inr (iv @ body @ last_block)))"

text \<open>A negative \<^verbatim>\<open>int\<close> as the size of a vector is a \<^verbatim>\<open>std::length_error\<close>, which no
  handler tells from other exceptions of the standard library.\<close>

definition DecryptBytes :: "openssl \<Rightarrow> string \<Rightarrow> string \<Rightarrow> string outcome" where
  "DecryptBytes ossl file_data key =
     (if length file_data < 16 then Inl (RuntimeError ''Corrupted payload: Insufficient size for IV'')
      else let iv = take 16 file_data; ciphertext = drop 16 file_data
        in if \<not> EVP_CIPHER_CTX_new ossl then Inl (RuntimeError ''Failed to create EVP context'')
           else if \<not> EVP_CipherInit ossl key iv then Inl (RuntimeError ''Decryption init failed'')
           else let n = to_int32 (int (length file_data) - 16)
             in if n < 0 then Inl InvalidArgument
                else case EVP_DecryptUpdate ossl key iv ciphertext n of
                    None \<Rightarrow> Inl (RuntimeError ''Decryption failed'')
                  | Some body \<Rightarrow>
                      (case EVP_DecryptFinal_ex ossl key iv ciphertext n of
                         None \<Rightarrow> Inl (RuntimeError ''Decryption finalization failed (Padding error or Corrupted Data)'')
                       | Some last_block \<Rightarrow> Inr (body @ last_block)))"

section \<open>Hashes\<close>

definition sha256 :: "openssl \<Rightarrow> string \<Rightarrow> string outcome" where
  "sha256 ossl str =
     (if \<not> EVP_MD_CTX_new ossl then Inl (RuntimeError ''Failed to create EVP_MD_CTX'')
      else if \<not> EVP_DigestInit_ex ossl then Inl (RuntimeError ''EVP_DigestInit_ex failed'')
      else if \<not> EVP_DigestUpdate ossl str then Inl (RuntimeError ''EVP_DigestUpdate failed'')
      else case EVP_DigestFinal_ex ossl str of
          None \<Rightarrow> Inl (RuntimeError ''EVP_DigestFinal_ex failed'')
        | Some hash \<Rightarrow> Inr (hex_string hash))"

definition hmac_sha256 :: "openssl \<Rightarrow> string \<Rightarrow> string \<Rightarrow> string" where
  "hmac_sha256 ossl key data = hex_string (HMAC ossl key data)"

definition GenerateSalt :: "openssl \<Rightarrow> nat \<Rightarrow> string outcome" where
  "GenerateSalt ossl byte_length =
     (case RAND_bytes ossl byte_length of
        None \<Rightarrow> Inl (RuntimeError ''Failed to generate random salt'')
      | Some salt \<Rightarrow> Inr (hex_string salt))"

definition PBKDF2_ITERATIONS :: int where
  "PBKDF2_ITERATIONS = 100000"

definition HashPasswordPBKDF2 :: "openssl \<Rightarrow> string \<Rightarrow> string \<Rightarrow> string outcome" where
  "HashPasswordPBKDF2 ossl password salt_hex =
     (case PKCS5_PBKDF2_HMAC ossl password salt_hex PBKDF2_ITERATIONS 32 of
        None \<Rightarrow> Inl (RuntimeError ''PBKDF2 hashing failed'')
      | Some hash \<Rightarrow> Inr (hex_string hash))"

definition ConstantTimeEquals :: "openssl \<Rightarrow> string \<Rightarrow> string \<Rightarrow> bool" where
  "ConstantTimeEquals ossl a b =
     (if length a \<noteq> length b then False else CRYPTO_memcmp ossl a b (length a) = 0)"

section \<open>Session tokens\<close>

definition GenerateSessionToken :: "openssl \<Rightarrow> int \<Rightarrow> int \<Rightarrow> string \<Rightarrow> string" where
  "GenerateSessionToken ossl current_time uid secret_key =
     (let payload = to_string uid @ ''.'' @ to_string (current_time + 86400)
      in payload @ ''.'' @ hmac_sha256 ossl secret_key payload)"

text \<open>The user id of the token is the out parameter, written only when the result is true.\<close>

definition VerifySessionToken :: "openssl \<Rightarrow> int \<Rightarrow> string \<Rightarrow> string \<Rightarrow> int option" where
  "VerifySessionToken ossl current_time token session_secret =
     (case getline_all CHR ''.'' token of
        [user_id_str, expiry_str, signature] \<Rightarrow>
          if \<not> ConstantTimeEquals ossl signature (hmac_sha256 ossl session_secret (user_id_str @ ''.'' @ expiry_str))
          then None
          else (case stoll expiry_str of
                  Inl _ \<Rightarrow> None
                | Inr expiry \<Rightarrow>
                    if current_time > expiry then None
                    else (case stoi user_id_str of Inl _ \<Rightarrow> None | Inr uid \<Rightarrow> Some uid))
      | _ \<Rightarrow> None)"

section \<open>A concrete library\<close>

text \<open>
  A library that meets the documented behaviour, for evaluating the model: padding without a
  cipher, and hashes that keep the first 32 bytes. It stands in for nothing but the shape of the
  results.
\<close>

definition pad_to :: "nat \<Rightarrow> string \<Rightarrow> string" where
  "pad_to n s = take n (s @ replicate n CHR 0x00)"

definition padding :: "nat \<Rightarrow> string" where
  "padding n = replicate (16 - n mod 16) (char_of (16 - n mod 16))"

definition sample_ossl :: openssl where
  "sample_ossl = \<lparr>RAND_bytes = (\<lambda>n. Some (replicate n CHR ''r'')), EVP_CIPHER_CTX_new = True,
     EVP_CipherInit = (\<lambda>_ _. True),
     EVP_EncryptUpdate = (\<lambda>_ _ raw _. Some (take (16 * (length raw div 16)) raw)),
     EVP_EncryptFinal_ex = (\<lambda>_ _ raw _. Some (drop (16 * (length raw div 16)) raw @ padding (length raw))),
     EVP_DecryptUpdate = (\<lambda>_ _ c _. Some (take (length c - 16) c)),
     EVP_DecryptFinal_ex = (\<lambda>_ _ c _. Some (let b = drop (length c - 16) c in take (16 - code (last b)) b)),
     EVP_MD_CTX_new = True, EVP_DigestInit_ex = True, EVP_DigestUpdate = (\<lambda>_. True),
     EVP_DigestFinal_ex = (\<lambda>s. Some (pad_to 32 s)), HMAC = (\<lambda>k s. pad_to 32 (k @ s)),
     PKCS5_PBKDF2_HMAC = (\<lambda>p s _ n. Some (pad_to (nat n) (s @ p))),
     CRYPTO_memcmp = (\<lambda>a b n. if take n a = take n b then 0 else 1)\<rparr>"

lemma length_pad_to [simp]: "length (pad_to n s) = n"
  by (simp add: pad_to_def)

lemma sample_ossl_ok: "cipher_ok sample_ossl" "random_ok sample_ossl" "digest_ok sample_ossl" "memcmp_ok sample_ossl"
proof -
  show "cipher_ok sample_ossl"
    unfolding cipher_ok_def
  proof (intro allI impI)
    fix key iv raw a b :: string
    let ?n = "length raw" and ?k = "16 * (length raw div 16)"
    assume "EVP_EncryptUpdate sample_ossl key iv raw (int ?n) = Some a"
      and "EVP_EncryptFinal_ex sample_ossl key iv raw (int ?n) = Some b"
    then have a: "a = take ?k raw" and b: "b = drop ?k raw @ padding ?n" by (simp_all add: sample_ossl_def)
    have m: "?n mod 16 < 16" "?k + ?n mod 16 = ?n" by simp_all
    then have la: "length a = ?k" and lb: "length b = 16"
      using a b by (auto simp: padding_def)
    have "last b = char_of (16 - ?n mod 16)" using b m(1) by (simp add: padding_def)
    then have "code (last b) = 16 - ?n mod 16" by (simp add: code_def of_char_of)
    then have t: "take (16 - code (last b)) b = drop ?k raw" using b m by (simp add: minus_mult_div_eq_mod)
    have "take (length (a @ b) - 16) (a @ b) = a" "drop (length (a @ b) - 16) (a @ b) = b" using lb by auto
    then show "length (a @ b) = 16 * (length raw div 16 + 1) \<and>
        (\<exists>c d. EVP_DecryptUpdate sample_ossl key iv (a @ b) (int (length (a @ b))) = Some c \<and>
          EVP_DecryptFinal_ex sample_ossl key iv (a @ b) (int (length (a @ b))) = Some d \<and> c @ d = raw)"
      using la lb a t by (simp add: sample_ossl_def Let_def)
  qed
  show "random_ok sample_ossl" by (simp add: random_ok_def sample_ossl_def)
  show "digest_ok sample_ossl" by (auto simp: digest_ok_def sample_ossl_def)
  show "memcmp_ok sample_ossl" by (simp add: memcmp_ok_def sample_ossl_def)
qed

section \<open>Properties\<close>

lemma ConstantTimeEquals_eq: "memcmp_ok ossl \<Longrightarrow> ConstantTimeEquals ossl a b \<longleftrightarrow> a = b"
  by (auto simp: ConstantTimeEquals_def memcmp_ok_def)

lemma decrypts_back:
  assumes "cipher_ok ossl" and "random_ok ossl" and "length raw < 2 ^ 31 - 16" and "EncryptBytes ossl raw key = Inr enc"
  shows "DecryptBytes ossl enc key = Inr raw \<and> length enc = 16 + 16 * (length raw div 16 + 1)"
proof -
  have n: "to_int32 (int (length raw)) = int (length raw)" using assms(3) by (intro to_int32_id) (auto simp: int_range_def)
  obtain iv a b where iv: "RAND_bytes ossl 16 = Some iv" and new: "EVP_CIPHER_CTX_new ossl"
    and init: "EVP_CipherInit ossl key iv" and a: "EVP_EncryptUpdate ossl key iv raw (int (length raw)) = Some a"
    and b: "EVP_EncryptFinal_ex ossl key iv raw (int (length raw)) = Some b" and enc: "enc = iv @ a @ b"
    using assms(4) by (auto simp: EncryptBytes_def Let_def n split: option.splits if_splits)
  have len: "length iv = 16" "length (a @ b) = 16 * (length raw div 16 + 1)"
    using assms(1,2) iv a b by (auto simp: cipher_ok_def random_ok_def)
  obtain c d where c: "EVP_DecryptUpdate ossl key iv (a @ b) (int (length (a @ b))) = Some c"
    and d: "EVP_DecryptFinal_ex ossl key iv (a @ b) (int (length (a @ b))) = Some d" and raw: "c @ d = raw"
    using assms(1) a b unfolding cipher_ok_def by blast
  have "16 * (n div 16 + 1) \<le> n + 16" for n :: nat by simp
  then have "length (a @ b) \<le> length raw + 16" using len(2) by metis
  then have "length (a @ b) < 2 ^ 31" using assms(3) by simp
  then have "int (length (a @ b)) < 2 ^ 31" by simp
  then have m: "to_int32 (int (length enc) - 16) = int (length (a @ b))"
    using len(1) enc by (subst to_int32_id) (auto simp: int_range_def)
  have parts: "take 16 enc = iv" "drop 16 enc = a @ b" "\<not> length enc < 16" using enc len(1) by auto
  have pos: "\<not> int (length (a @ b)) < 0" by simp
  have "DecryptBytes ossl enc key = Inr (c @ d)"
    by (simp only: DecryptBytes_def Let_def parts m new init pos c d if_False not_True_eq_False option.case)
  then show ?thesis using raw len enc by simp
qed

text \<open>C33: Encryption round trip: whatever was encrypted under a key decrypts to the same bytes
  under that key, and takes the 16 bytes of the IV and the padding more on disk.\<close>

theorem encrypt_decrypt:
  assumes "cipher_ok ossl" and "random_ok ossl" and "length raw < 2 ^ 31 - 16" and "EncryptBytes ossl raw key = Inr enc"
  shows "DecryptBytes ossl enc key = Inr raw \<and> length enc = 16 + 16 * (length raw div 16 + 1)"
  by (rule decrypts_back [OF assms])

lemma encrypt_decrypt_witness:
  "\<exists>enc. EncryptBytes sample_ossl ''chunk'' ''key'' = Inr enc \<and> DecryptBytes sample_ossl enc ''key'' = Inr ''chunk'' \<and> length enc = 32"
proof -
  have "EncryptBytes sample_ossl ''chunk'' ''key'' =
      Inr (replicate 16 CHR ''r'' @ ''chunk'' @ replicate 11 CHR 0x0B)"
    by code_simp
  from encrypt_decrypt [OF sample_ossl_ok(1,2) _ this] show ?thesis using \<open>EncryptBytes _ _ _ = _\<close> by simp
qed

lemma token_verifies:
  assumes "memcmp_ok ossl" and "digest_ok ossl" and "int_range uid" and "llong_range (issued + 86400)"
  shows "VerifySessionToken ossl t (GenerateSessionToken ossl issued uid secret) secret =
    (if t \<le> issued + 86400 then Some uid else None)"
proof -
  let ?u = "to_string uid" and ?e = "to_string (issued + 86400)"
  let ?sig = "hmac_sha256 ossl secret (?u @ ''.'' @ ?e)"
  have "length (HMAC ossl secret (?u @ ''.'' @ ?e)) = 32" using assms(2) by (simp add: digest_ok_def)
  then have "?sig \<noteq> []" unfolding hmac_sha256_def by (metis length_hex_string length_0_conv mult_eq_0_iff numeral_neq_zero)
  then have last: "getline_all CHR ''.'' ?sig = [?sig]"
    unfolding hmac_sha256_def by (intro getline_all_last hex_string_no_dot)
  have "getline_all CHR ''.'' (?u @ CHR ''.'' # ?e @ CHR ''.'' # ?sig) = [?u, ?e, ?sig]"
    by (simp only: getline_all_step [OF to_string_no_dot] last)
  then have "getline_all CHR ''.'' (GenerateSessionToken ossl issued uid secret) = [?u, ?e, ?sig]"
    by (simp add: GenerateSessionToken_def Let_def)
  then show ?thesis
    using assms(3,4) by (simp add: VerifySessionToken_def ConstantTimeEquals_eq [OF assms(1)])
qed

text \<open>C35: Tokens are good for a day: a token that was issued to a user verifies to exactly
  that user until its expiry, and to nobody afterwards.\<close>

theorem token_roundtrip:
  assumes "memcmp_ok ossl" and "digest_ok ossl" and "int_range uid" and "llong_range (issued + 86400)"
  shows "VerifySessionToken ossl t (GenerateSessionToken ossl issued uid secret) secret =
    (if t \<le> issued + 86400 then Some uid else None)"
  using assms by (rule token_verifies)

lemma token_roundtrip_witness:
  "VerifySessionToken sample_ossl 2000 (GenerateSessionToken sample_ossl 1000 7 ''secret'') ''secret'' = Some 7"
  using token_roundtrip [OF sample_ossl_ok(4,3), of 7 1000 2000 "''secret''"] by (simp add: int_range_def llong_range_def)

text \<open>C36: Only signed tokens verify: a token that verifies consists of three parts, its third
  part is the signature, under the server's secret, of the first two, which name the user and an
  expiry that has not passed.\<close>

theorem verified_token_signed:
  assumes "memcmp_ok ossl" and "VerifySessionToken ossl t token secret = Some uid"
  shows "\<exists>u e. getline_all CHR ''.'' token = [u, e, hmac_sha256 ossl secret (u @ ''.'' @ e)] \<and>
     stoi u = Inr uid \<and> (\<exists>expiry. stoll e = Inr expiry \<and> t \<le> expiry)"
  using assms(2)
  by (auto simp: VerifySessionToken_def ConstantTimeEquals_eq [OF assms(1)] split: list.splits sum.splits if_splits)

lemma verified_token_signed_witness:
  "\<exists>u e. getline_all CHR ''.'' (GenerateSessionToken sample_ossl 1000 7 ''secret'') =
     [u, e, hmac_sha256 sample_ossl ''secret'' (u @ ''.'' @ e)] \<and> stoi u = Inr 7"
proof -
  have "VerifySessionToken sample_ossl 2000 (GenerateSessionToken sample_ossl 1000 7 ''secret'') ''secret'' = Some 7"
    by code_simp
  from verified_token_signed [OF sample_ossl_ok(4) this] show ?thesis by blast
qed


end
