(* ===== verification/Disk_Storage.thy ===== *)
theory Disk_Storage
  imports Crypto
begin

text \<open>
  \<^verbatim>\<open>worker/IStorageBackend.hpp\<close> and \<^verbatim>\<open>worker/LocalDiskStorage.hpp\<close>: chunks in files,
  encrypted, with the disk space of writes under way reserved in memory. The operating system is a
  record that says how it answers one call.
\<close>

section \<open>The interface\<close>

record 's IStorageBackend =
  op_SaveChunk :: "string \<Rightarrow> string \<Rightarrow> 's \<Rightarrow> bool \<times> 's"
  op_LoadChunk :: "string \<Rightarrow> 's \<Rightarrow> string \<times> 's"
  op_DeleteChunk :: "string \<Rightarrow> 's \<Rightarrow> bool \<times> 's"
  op_ChunkExists :: "string \<Rightarrow> 's \<Rightarrow> bool \<times> 's"

section \<open>Files\<close>

text \<open>
  What the operating system does in one call: the available bytes (an error code otherwise),
  whether the file opens for writing and for reading, how much of a write reaches it (all of it, or
  a prefix), whether it can be told its size and read, and whether removing and looking up report an
  error.
\<close>

record os_call =
  space_available :: "int option"
  opens_for_write :: bool
  written :: "nat option"
  opens_for_read :: bool
  tells_size :: bool
  reads :: bool
  remove_error :: bool
  exists_error :: bool

definition smooth :: os_call where
  "smooth = \<lparr>space_available = Some 1000000000, opens_for_write = True, written = None,
     opens_for_read = True, tells_size = True, reads = True, remove_error = False, exists_error = False\<rparr>"

record LocalDiskStorage =
  node_key :: string
  storage_dir :: string
  in_flight_bytes :: int
  disk :: "string \<Rightarrow> string option"

definition chunk_path :: "LocalDiskStorage \<Rightarrow> string \<Rightarrow> string" where
  "chunk_path st h = path_append (storage_dir st) (h @ ''.bin'')"

section \<open>Reserving space\<close>

definition space_buffer :: int where
  "space_buffer = 50 * 1024 * 1024"

definition ReserveSpace :: "os_call \<Rightarrow> nat \<Rightarrow> LocalDiskStorage \<Rightarrow> bool \<times> LocalDiskStorage" where
  "ReserveSpace os chunk_size_bytes st =
     (case space_available os of
        None \<Rightarrow> (False, st)
      | Some available \<Rightarrow>
          let actual_safe_space = to_llong available - in_flight_bytes st;
              needed_space = int chunk_size_bytes + space_buffer
          in if actual_safe_space < needed_space then (False, st)
             else (True, st\<lparr>in_flight_bytes := in_flight_bytes st + int chunk_size_bytes\<rparr>))"

definition release_space :: "nat \<Rightarrow> LocalDiskStorage \<Rightarrow> LocalDiskStorage" where
  "release_space n st = st\<lparr>in_flight_bytes := in_flight_bytes st - int n\<rparr>"

section \<open>The operations\<close>

text \<open>Opening the stream empties the file; a write that fails has left a prefix.\<close>

definition write_file :: "os_call \<Rightarrow> string \<Rightarrow> string \<Rightarrow> LocalDiskStorage \<Rightarrow> LocalDiskStorage" where
  "write_file os p content st =
     st\<lparr>disk := (disk st)(p \<mapsto> (case written os of None \<Rightarrow> content | Some n \<Rightarrow> take n content))\<rparr>"

definition SaveChunk :: "openssl \<Rightarrow> os_call \<Rightarrow> string \<Rightarrow> string \<Rightarrow> LocalDiskStorage \<Rightarrow> bool \<times> LocalDiskStorage" where
  "SaveChunk ossl os h data st =
     (case EncryptBytes ossl data (node_key st) of
        Inl _ \<Rightarrow> (False, st)
      | Inr encrypted_data \<Rightarrow>
          (case ReserveSpace os (length encrypted_data) st of
             (False, st1) \<Rightarrow> (False, st1)
           | (True, st1) \<Rightarrow>
               if \<not> opens_for_write os then (False, release_space (length encrypted_data) st1)
               else (written os = None,
                     release_space (length encrypted_data)
                       (write_file os (chunk_path st h) encrypted_data st1))))"

definition LoadChunk :: "openssl \<Rightarrow> os_call \<Rightarrow> string \<Rightarrow> LocalDiskStorage \<Rightarrow> string \<times> LocalDiskStorage" where
  "LoadChunk ossl os h st =
     ((case disk st (chunk_path st h) of
         None \<Rightarrow> []
       | Some content \<Rightarrow>
           if \<not> opens_for_read os \<or> \<not> tells_size os \<or> \<not> reads os then []
           else (case DecryptBytes ossl content (node_key st) of Inl _ \<Rightarrow> [] | Inr data \<Rightarrow> data)), st)"

definition DeleteChunk :: "os_call \<Rightarrow> string \<Rightarrow> LocalDiskStorage \<Rightarrow> bool \<times> LocalDiskStorage" where
  "DeleteChunk os h st =
     (if remove_error os then (False, st)
      else (True, st\<lparr>disk := (disk st)(chunk_path st h := None)\<rparr>))"

definition ChunkExists :: "os_call \<Rightarrow> string \<Rightarrow> LocalDiskStorage \<Rightarrow> bool \<times> LocalDiskStorage" where
  "ChunkExists os h st =
     (if exists_error os then (False, st) else (disk st (chunk_path st h) \<noteq> None, st))"

text \<open>The constructor: it throws when the directory cannot be made.\<close>

definition new_LocalDiskStorage :: "bool \<Rightarrow> (string \<Rightarrow> string option) \<Rightarrow> string \<Rightarrow> string \<Rightarrow> LocalDiskStorage outcome" where
  "new_LocalDiskStorage created d dir key =
     (if \<not> created then Inl (RuntimeError ''Failed to initialize storage directory: '')
      else Inr \<lparr>node_key = key, storage_dir = dir, in_flight_bytes = 0, disk = d\<rparr>)"

section \<open>The instance\<close>

text \<open>The storage with the operating system's answers to come, one per call.\<close>

record disk_world =
  storage :: LocalDiskStorage
  os_calls :: "nat \<Rightarrow> os_call"
  call_no :: nat

definition after_call :: "LocalDiskStorage \<Rightarrow> disk_world \<Rightarrow> disk_world" where
  "after_call st w = w\<lparr>storage := st, call_no := call_no w + 1\<rparr>"

definition on_storage :: "(os_call \<Rightarrow> LocalDiskStorage \<Rightarrow> 'a \<times> LocalDiskStorage) \<Rightarrow> disk_world \<Rightarrow> 'a \<times> disk_world" where
  "on_storage f w = (case f (os_calls w (call_no w)) (storage w) of
     (x, st) \<Rightarrow> (x, after_call st w))"

definition LocalDiskBackend :: "openssl \<Rightarrow> disk_world IStorageBackend" where
  "LocalDiskBackend ossl =
     \<lparr>op_SaveChunk = (\<lambda>h data. on_storage (\<lambda>os. SaveChunk ossl os h data)),
      op_LoadChunk = (\<lambda>h. on_storage (\<lambda>os. LoadChunk ossl os h)),
      op_DeleteChunk = (\<lambda>h. on_storage (\<lambda>os. DeleteChunk os h)),
      op_ChunkExists = (\<lambda>h. on_storage (\<lambda>os. ChunkExists os h))\<rparr>"

lemma on_storage_eq:
  "on_storage f w = (x, w') \<longleftrightarrow> (\<exists>st. f (os_calls w (call_no w)) (storage w) = (x, st) \<and> w' = after_call st w)"
  by (auto simp: on_storage_def split: prod.splits)

lemma after_call_simps [simp]: "storage (after_call st w) = st" "call_no (after_call st w) = call_no w + 1"
  "os_calls (after_call st w) = os_calls w"
  by (simp_all add: after_call_def)

section \<open>The contract of a backend\<close>

text \<open>
  A backend as a map from hashes to contents. \<open>named\<close> are the hashes it tells apart; a save
  that reports failure may have destroyed what was there under that hash, and no other.
\<close>

locale chunk_backend =
  fixes B :: "'s IStorageBackend"
    and good :: "'s \<Rightarrow> bool"
    and smooth_now :: "'s \<Rightarrow> bool"
    and named :: "string \<Rightarrow> bool"
    and storable :: "string \<Rightarrow> bool"
    and content :: "'s \<Rightarrow> string \<Rightarrow> string option"
  assumes save_law: "\<And>s h d b s'. good s \<Longrightarrow> named h \<Longrightarrow> storable d \<Longrightarrow> op_SaveChunk B h d s = (b, s') \<Longrightarrow>
      good s' \<and> (b \<longrightarrow> content s' h = Some d) \<and> (\<forall>k. named k \<longrightarrow> k \<noteq> h \<longrightarrow> content s' k = content s k)"
    and load_law: "\<And>s h d s'. good s \<Longrightarrow> op_LoadChunk B h s = (d, s') \<Longrightarrow>
      good s' \<and> content s' = content s \<and> (d \<noteq> [] \<longrightarrow> content s h = Some d) \<and>
      (smooth_now s \<longrightarrow> content s h \<noteq> None \<longrightarrow> content s h = Some d)"
    and delete_law: "\<And>s h b s'. good s \<Longrightarrow> named h \<Longrightarrow> op_DeleteChunk B h s = (b, s') \<Longrightarrow>
      good s' \<and> content s' h = (if b then None else content s h) \<and>
      (\<forall>k. named k \<longrightarrow> k \<noteq> h \<longrightarrow> content s' k = content s k)"
begin

lemma save_then_load:
  assumes "good s" and "named h" and "storable d" and "op_SaveChunk B h d s = (True, s1)"
    and "smooth_now s1" and "op_LoadChunk B h s1 = (d', s2)"
  shows "d' = d"
  using save_law [OF assms(1-4)] load_law [OF _ assms(6)] assms(5) by auto

lemma delete_then_load:
  assumes "good s" and "named h" and "op_DeleteChunk B h s = (True, s1)" and "op_LoadChunk B h s1 = (d', s2)"
  shows "d' = []"
proof (rule ccontr)
  assume "d' \<noteq> []"
  then show False using delete_law [OF assms(1-3)] load_law [OF _ assms(4)] by simp
qed

end

section \<open>The instance keeps the contract\<close>

definition plain_name :: "string \<Rightarrow> bool" where
  "plain_name h \<longleftrightarrow> CHR ''/'' \<notin> set h"

definition stored :: "openssl \<Rightarrow> LocalDiskStorage \<Rightarrow> string \<Rightarrow> string option" where
  "stored ossl st h =
     (case disk st (chunk_path st h) of
        None \<Rightarrow> None
      | Some c \<Rightarrow> (case DecryptBytes ossl c (node_key st) of Inl _ \<Rightarrow> None | Inr d \<Rightarrow> Some d))"

lemma chunk_path_inj:
  assumes "plain_name h" and "plain_name k" and "chunk_path st h = chunk_path st k"
  shows "h = k"
proof -
  have "hd (x @ ''.bin'') \<noteq> CHR ''/''" if "plain_name x" for x
    using that by (cases x) (auto simp: plain_name_def)
  then show ?thesis using assms by (auto simp: chunk_path_def path_append_def split: if_splits)
qed

lemma ReserveSpace_frame:
  "ReserveSpace os n st = (b, st') \<Longrightarrow>
     st' = (if b then st\<lparr>in_flight_bytes := in_flight_bytes st + int n\<rparr> else st)"
  by (auto simp: ReserveSpace_def Let_def split: option.splits if_splits)

text \<open>A save gives its reservation back on every path.\<close>

lemma SaveChunk_frame:
  assumes "SaveChunk ossl os h data st = (b, st')"
  shows "node_key st' = node_key st \<and> storage_dir st' = storage_dir st \<and> in_flight_bytes st' = in_flight_bytes st \<and>
    (\<forall>p. p \<noteq> chunk_path st h \<longrightarrow> disk st' p = disk st p) \<and>
    (b \<longrightarrow> (\<exists>enc. EncryptBytes ossl data (node_key st) = Inr enc \<and> disk st' (chunk_path st h) = Some enc))"
proof (cases "EncryptBytes ossl data (node_key st)")
  case (Inl e)
  then show ?thesis using assms by (auto simp: SaveChunk_def)
next
  case (Inr enc)
  obtain r st1 where res: "ReserveSpace os (length enc) st = (r, st1)" by fastforce
  show ?thesis
  proof (cases r)
    case True
    then have st1: "st1 = st\<lparr>in_flight_bytes := in_flight_bytes st + int (length enc)\<rparr>"
      using ReserveSpace_frame [OF res] by simp
    have "SaveChunk ossl os h data st = (if \<not> opens_for_write os then (False, release_space (length enc) st1)
        else (written os = None, release_space (length enc) (write_file os (chunk_path st h) enc st1)))"
      using Inr res True by (simp add: SaveChunk_def)
    then have "(b, st') = (if \<not> opens_for_write os then (False, release_space (length enc) st1)
        else (written os = None, release_space (length enc) (write_file os (chunk_path st h) enc st1)))"
      using assms by simp
    show ?thesis
    proof (cases "opens_for_write os")
      case True
      then have b: "b = (written os = None)"
        and st': "st' = release_space (length enc) (write_file os (chunk_path st h) enc st1)"
        using \<open>(b, st') = _\<close> by simp_all
      show ?thesis unfolding st' st1 b
        by (simp add: release_space_def write_file_def Inr)
    next
      case False
      then have b: "\<not> b" and st': "st' = release_space (length enc) st1"
        using \<open>(b, st') = _\<close> by simp_all
      then show ?thesis unfolding st' st1 by (simp add: release_space_def)
    qed
  next
    case False
    then show ?thesis using assms Inr res ReserveSpace_frame [OF res] by (auto simp: SaveChunk_def)
  qed
qed

definition disk_good :: "openssl \<Rightarrow> disk_world \<Rightarrow> bool" where
  "disk_good ossl w \<longleftrightarrow> cipher_ok ossl \<and> random_ok ossl"

definition disk_smooth :: "disk_world \<Rightarrow> bool" where
  "disk_smooth w \<longleftrightarrow> (let os = os_calls w (call_no w) in opens_for_read os \<and> tells_size os \<and> reads os)"

definition storable_size :: "string \<Rightarrow> bool" where
  "storable_size d \<longleftrightarrow> length d < 2 ^ 31 - 16"

interpretation local_disk: chunk_backend "LocalDiskBackend ossl" "disk_good ossl" disk_smooth plain_name storable_size
    "\<lambda>w. stored ossl (storage w)"
proof
  fix s h d b s'
  assume good: "disk_good ossl s" and h: "plain_name h" and d: "storable_size d"
    and run: "op_SaveChunk (LocalDiskBackend ossl) h d s = (b, s')"
  then obtain st where st: "SaveChunk ossl (os_calls s (call_no s)) h d (storage s) = (b, st)"
    and s': "s' = after_call st s"
    by (auto simp: LocalDiskBackend_def on_storage_eq)
  note frame = SaveChunk_frame [OF st]
  have same: "storage_dir st = storage_dir (storage s)" "node_key st = node_key (storage s)" using frame by blast+
  then have path: "chunk_path st k = chunk_path (storage s) k" for k by (simp add: chunk_path_def)
  have "stored ossl st h = Some d" if saved: b
  proof -
    obtain enc where "EncryptBytes ossl d (node_key (storage s)) = Inr enc" "disk st (chunk_path (storage s) h) = Some enc"
      using frame saved by blast
    then show ?thesis
      using decrypts_back [of ossl d "node_key (storage s)" enc] good d path [of h] same
      by (simp add: stored_def disk_good_def storable_size_def)
  qed
  moreover have "stored ossl st k = stored ossl (storage s) k" if "plain_name k" "k \<noteq> h" for k
  proof -
    have "chunk_path (storage s) k \<noteq> chunk_path (storage s) h" using chunk_path_inj that h by blast
    then have "disk st (chunk_path (storage s) k) = disk (storage s) (chunk_path (storage s) k)" using frame by blast
    then show ?thesis unfolding stored_def path same by simp
  qed
  ultimately show "disk_good ossl s' \<and> (b \<longrightarrow> stored ossl (storage s') h = Some d) \<and>
      (\<forall>k. plain_name k \<longrightarrow> k \<noteq> h \<longrightarrow> stored ossl (storage s') k = stored ossl (storage s) k)"
    using good s' by (simp add: disk_good_def)
next
  fix s h d s'
  assume "disk_good ossl s" and "op_LoadChunk (LocalDiskBackend ossl) h s = (d, s')"
  then show "disk_good ossl s' \<and> stored ossl (storage s') = stored ossl (storage s) \<and>
      (d \<noteq> [] \<longrightarrow> stored ossl (storage s) h = Some d) \<and>
      (disk_smooth s \<longrightarrow> stored ossl (storage s) h \<noteq> None \<longrightarrow> stored ossl (storage s) h = Some d)"
    by (auto simp: LocalDiskBackend_def on_storage_eq LoadChunk_def stored_def disk_good_def disk_smooth_def Let_def
        split: option.splits sum.splits if_splits)
next
  fix s h b s'
  assume good: "disk_good ossl s" and h: "plain_name h" and run: "op_DeleteChunk (LocalDiskBackend ossl) h s = (b, s')"
  then obtain st where st: "DeleteChunk (os_calls s (call_no s)) h (storage s) = (b, st)"
    and s': "s' = after_call st s"
    by (auto simp: LocalDiskBackend_def on_storage_eq)
  have "stored ossl st k = (if b \<and> k = h then None else stored ossl (storage s) k)" if "plain_name k" for k
    using st chunk_path_inj [OF that h, of "storage s"]
    by (auto simp: DeleteChunk_def stored_def chunk_path_def split: if_splits cong: option.case_cong)
  then show "disk_good ossl s' \<and> stored ossl (storage s') h = (if b then None else stored ossl (storage s) h) \<and>
      (\<forall>k. plain_name k \<longrightarrow> k \<noteq> h \<longrightarrow> stored ossl (storage s') k = stored ossl (storage s) k)"
    using good h s' by (auto simp: disk_good_def)
qed

end
