(* ===== verification/Disk_Reservations.thy ===== *)
theory Disk_Reservations
  imports Disk_Storage
begin

text \<open>
  Saves that run at the same time. The server handles requests on several threads, and only the two
  critical sections of \<^verbatim>\<open>SaveChunk\<close> exclude each other; everything between them interleaves.
\<close>

section \<open>The steps of a save\<close>

datatype save_pc = Waiting | Reserved | Opened | Written bool | Finished bool

record save_job =
  job_hash :: string
  job_bytes :: string
  job_pc :: save_pc

record saving =
  shared :: LocalDiskStorage
  jobs :: "save_job list"

definition set_pc :: "nat \<Rightarrow> save_pc \<Rightarrow> LocalDiskStorage \<Rightarrow> saving \<Rightarrow> saving" where
  "set_pc i pc st s = s\<lparr>shared := st, jobs := (jobs s)[i := (jobs s ! i)\<lparr>job_pc := pc\<rparr>]\<rparr>"

definition put_file :: "string \<Rightarrow> string \<Rightarrow> LocalDiskStorage \<Rightarrow> LocalDiskStorage" where
  "put_file p content st = st\<lparr>disk := (disk st)(p \<mapsto> content)\<rparr>"

inductive save_step :: "saving \<Rightarrow> saving \<Rightarrow> bool" where
  arrive: "save_step s (s\<lparr>jobs := jobs s @ [\<lparr>job_hash = h, job_bytes = bytes, job_pc = Waiting\<rparr>]\<rparr>)"
| reserve: "i < length (jobs s) \<Longrightarrow> job_pc (jobs s ! i) = Waiting \<Longrightarrow>
    ReserveSpace os (length (job_bytes (jobs s ! i))) (shared s) = (b, st) \<Longrightarrow>
    save_step s (set_pc i (if b then Reserved else Finished False) st s)"
| open_fails: "i < length (jobs s) \<Longrightarrow> job_pc (jobs s ! i) = Reserved \<Longrightarrow>
    save_step s (set_pc i (Written False) (shared s) s)"
| opens: "i < length (jobs s) \<Longrightarrow> job_pc (jobs s ! i) = Reserved \<Longrightarrow>
    save_step s (set_pc i Opened (put_file (chunk_path (shared s) (job_hash (jobs s ! i))) [] (shared s)) s)"
| writes: "i < length (jobs s) \<Longrightarrow> job_pc (jobs s ! i) = Opened \<Longrightarrow>
    save_step s (set_pc i (Written True)
      (put_file (chunk_path (shared s) (job_hash (jobs s ! i))) (job_bytes (jobs s ! i)) (shared s)) s)"
| write_fails: "i < length (jobs s) \<Longrightarrow> job_pc (jobs s ! i) = Opened \<Longrightarrow>
    save_step s (set_pc i (Written False)
      (put_file (chunk_path (shared s) (job_hash (jobs s ! i))) (take n (job_bytes (jobs s ! i))) (shared s)) s)"
| release: "i < length (jobs s) \<Longrightarrow> job_pc (jobs s ! i) = Written b \<Longrightarrow>
    save_step s (set_pc i (Finished b) (release_space (length (job_bytes (jobs s ! i))) (shared s)) s)"

inductive saves :: "saving \<Rightarrow> saving \<Rightarrow> bool" where
  none: "saves s s"
| more: "saves s t \<Longrightarrow> save_step t u \<Longrightarrow> saves s u"

text \<open>The bytes of the saves that hold a reservation.\<close>

fun holds :: "save_pc \<Rightarrow> bool" where
  "holds Reserved = True"
| "holds Opened = True"
| "holds (Written _) = True"
| "holds _ = False"

definition outstanding :: "save_job list \<Rightarrow> int" where
  "outstanding js = (\<Sum>j\<leftarrow>js. if holds (job_pc j) then int (length (job_bytes j)) else 0)"

lemma outstanding_nonneg: "0 \<le> outstanding js"
  by (induction js) (auto simp: outstanding_def)

lemma outstanding_update:
  "i < length js \<Longrightarrow> outstanding (js[i := (js ! i)\<lparr>job_pc := pc\<rparr>]) = outstanding js
     + (if holds pc then int (length (job_bytes (js ! i))) else 0)
     - (if holds (job_pc (js ! i)) then int (length (job_bytes (js ! i))) else 0)"
  by (induction js arbitrary: i) (auto simp: outstanding_def nth_Cons split: nat.splits)

lemma put_file_in_flight [simp]: "in_flight_bytes (put_file p c st) = in_flight_bytes st"
  by (simp add: put_file_def)

lemma save_step_accounted:
  "save_step s t \<Longrightarrow> in_flight_bytes (shared s) = outstanding (jobs s) \<Longrightarrow>
     in_flight_bytes (shared t) = outstanding (jobs t)"
proof (induction rule: save_step.induct)
  case (reserve i s os b st)
  then show ?case using ReserveSpace_frame [OF reserve(3)] by (simp add: set_pc_def outstanding_update)
qed (simp_all add: set_pc_def outstanding_update release_space_def, simp add: outstanding_def)

text \<open>C34: Space is never promised twice: however saves interleave, the counter of bytes in flight
  is exactly the sum of the reservations held (so it is never negative, and zero when no save is
  under way), and a further reservation is granted only if the disk has room for all of them, the
  new one and the 50 MB buffer.\<close>

theorem reservations_accounted:
  assumes "saves s t" and "in_flight_bytes (shared s) = outstanding (jobs s)"
  shows "in_flight_bytes (shared t) = outstanding (jobs t) \<and>
    (\<forall>os n st. ReserveSpace os n (shared t) = (True, st) \<longrightarrow>
       (\<exists>available. space_available os = Some available \<and>
          outstanding (jobs t) + int n + 50 * 1024 * 1024 \<le> to_llong available))"
proof -
  have "in_flight_bytes (shared t) = outstanding (jobs t)"
    using assms by (induction rule: saves.induct) (auto intro: save_step_accounted)
  then show ?thesis by (auto simp: ReserveSpace_def Let_def space_buffer_def split: option.splits if_splits)
qed

definition run_disk :: LocalDiskStorage where
  "run_disk = \<lparr>node_key = ''key'', storage_dir = ''d'', in_flight_bytes = 0, disk = (\<lambda>_. None)\<rparr>"

definition run_job :: "save_pc \<Rightarrow> save_job" where
  "run_job pc = \<lparr>job_hash = ''aa'', job_bytes = ''bytes'', job_pc = pc\<rparr>"

lemma run_reserved: "saves \<lparr>shared = run_disk, jobs = [run_job Waiting]\<rparr>
    \<lparr>shared = run_disk\<lparr>in_flight_bytes := 5\<rparr>, jobs = [run_job Reserved]\<rparr>"
  using saves.more [OF saves.none save_step.reserve [of 0 "\<lparr>shared = run_disk, jobs = [run_job Waiting]\<rparr>" smooth True
      "run_disk\<lparr>in_flight_bytes := 5\<rparr>"]]
  by (simp add: run_job_def run_disk_def set_pc_def ReserveSpace_def smooth_def to_llong_def space_buffer_def)

lemma reservations_accounted_witness: "outstanding [run_job Reserved] = 5"
  using reservations_accounted [OF run_reserved] by (simp add: run_disk_def outstanding_def run_job_def)

section \<open>A save alone\<close>

text \<open>The sequential save is one of the interleavings: what SaveChunk does on its own to
  the files and the counter, and what it returns, is what some run of the steps does for its job.\<close>

theorem save_alone_is_a_run:
  assumes "SaveChunk ossl os h data st = (b, st')" and "EncryptBytes ossl data (node_key st) = Inr enc"
  shows "saves \<lparr>shared = st, jobs = [\<lparr>job_hash = h, job_bytes = enc, job_pc = Waiting\<rparr>]\<rparr>
     \<lparr>shared = st', jobs = [\<lparr>job_hash = h, job_bytes = enc, job_pc = Finished b\<rparr>]\<rparr>"
proof -
  let ?s = "\<lambda>x pc. \<lparr>shared = x, jobs = [\<lparr>job_hash = h, job_bytes = enc, job_pc = pc\<rparr>]\<rparr>"
  have set_pc: "set_pc 0 pc x (?s y pc') = ?s x pc" for pc x y pc' by (simp add: set_pc_def)
  obtain r st1 where res: "ReserveSpace os (length enc) st = (r, st1)" by fastforce
  have start: "saves (?s st Waiting) (?s st1 (if r then Reserved else Finished False))"
    using saves.more [OF saves.none save_step.reserve [of 0 "?s st Waiting" os r st1]] res
    by (simp add: set_pc)
  show ?thesis
  proof (cases r)
    case False
    then show ?thesis using start assms res by (simp add: SaveChunk_def)
  next
    case True
    have path: "chunk_path st1 h = chunk_path st h"
      using ReserveSpace_frame [OF res] by (simp add: chunk_path_def)
    have started: "saves (?s st Waiting) (?s st1 Reserved)" using start True by simp
    have finish: "saves (?s st Waiting) (?s (release_space (length enc) x) (Finished c))"
      if "saves (?s st Waiting) (?s x (Written c))" for x c
      using saves.more [OF that save_step.release [of 0 _ c]] by (simp add: set_pc)
    show ?thesis
    proof (cases "opens_for_write os")
      case False
      have "saves (?s st Waiting) (?s st1 (Written False))"
        using saves.more [OF started save_step.open_fails [of 0]] by (simp add: set_pc)
      from finish [OF this] show ?thesis using assms res True False by (simp add: SaveChunk_def)
    next
      case op: True
      have opened: "saves (?s st Waiting) (?s (put_file (chunk_path st h) [] st1) Opened)"
        using saves.more [OF started save_step.opens [of 0]] by (simp add: set_pc path)
      have again: "put_file p c (put_file p c' x) = put_file p c x" for p c c' x
        by (simp add: put_file_def)
      have path': "chunk_path (put_file p c st1) h = chunk_path st h" for p c
        using path by (simp add: put_file_def chunk_path_def)
      have "saves (?s st Waiting) (?s (write_file os (chunk_path st h) enc st1) (Written (written os = None)))"
      proof (cases "written os")
        case None
        then show ?thesis using saves.more [OF opened save_step.writes [of 0]]
          by (simp add: set_pc path' again) (simp add: write_file_def put_file_def)
      next
        case (Some n)
        then show ?thesis using saves.more [OF opened save_step.write_fails [of 0 _ n]]
          by (simp add: set_pc path' again) (simp add: write_file_def put_file_def)
      qed
      from finish [OF this] show ?thesis using assms res True op path by (simp add: SaveChunk_def)
    qed
  qed
qed

lemma save_alone_is_a_run_witness:
  "\<exists>st'. saves \<lparr>shared = run_disk, jobs = [\<lparr>job_hash = ''aa'', job_bytes = replicate 16 CHR ''r'' @ ''chunk'' @ replicate 11 CHR 0x0B, job_pc = Waiting\<rparr>]\<rparr>
     \<lparr>shared = st', jobs = [\<lparr>job_hash = ''aa'', job_bytes = replicate 16 CHR ''r'' @ ''chunk'' @ replicate 11 CHR 0x0B, job_pc = Finished True\<rparr>]\<rparr>"
proof -
  have enc: "EncryptBytes sample_ossl ''chunk'' (node_key run_disk) = Inr (replicate 16 CHR ''r'' @ ''chunk'' @ replicate 11 CHR 0x0B)"
    by code_simp
  have "fst (SaveChunk sample_ossl smooth ''aa'' ''chunk'' run_disk) = True"
    by code_simp
  then have "SaveChunk sample_ossl smooth ''aa'' ''chunk'' run_disk = (True, snd (SaveChunk sample_ossl smooth ''aa'' ''chunk'' run_disk))"
    by (simp add: prod_eq_iff)
  from save_alone_is_a_run [OF this enc] show ?thesis by blast
qed

end
