(* ===== verification/Http.thy ===== *)
theory Http
  imports Prelude Std_Text
begin

text \<open>
  The part of \<^verbatim>\<open>common/httplib.h\<close> that the handlers of the two servers meet: requests with
  their headers and parameters, responses, routing by method and path, the limit on the body, and
  what becomes of a handler's exception.
\<close>

section \<open>Requests and responses\<close>

record Request =
  req_method :: string
  req_path :: string
  req_params :: "(string \<times> string) list"
  req_headers :: "(string \<times> string) list"
  req_body :: string

record Response =
  res_status :: int
  res_body :: string
  res_type :: string

definition new_Response :: Response where
  "new_Response = \<lparr>res_status = -1, res_body = [], res_type = []\<rparr>"

definition with_status :: "int \<Rightarrow> Response" where
  "with_status st = new_Response\<lparr>res_status := st\<rparr>"

definition set_content :: "string \<Rightarrow> string \<Rightarrow> Response \<Rightarrow> Response" where
  "set_content b t res = res\<lparr>res_body := b, res_type := t\<rparr>"

text \<open>Header names compare without regard to case, by a table for the Latin-1 letters.\<close>

definition to_lower :: "char \<Rightarrow> char" where
  "to_lower c =
     (if 65 \<le> code c \<and> code c \<le> 90 \<or> 192 \<le> code c \<and> code c \<le> 222 \<and> code c \<noteq> 215
      then char_of (code c + 32) else c)"

definition case_ignore_equal :: "string \<Rightarrow> string \<Rightarrow> bool" where
  "case_ignore_equal a b \<longleftrightarrow> length a = length b \<and> map to_lower a = map to_lower b"

definition has_header :: "string \<Rightarrow> Request \<Rightarrow> bool" where
  "has_header key req \<longleftrightarrow> List.find (\<lambda>(k, v). case_ignore_equal k key) (req_headers req) \<noteq> None"

definition get_header_value :: "string \<Rightarrow> Request \<Rightarrow> string" where
  "get_header_value key req =
     (case List.find (\<lambda>(k, v). case_ignore_equal k key) (req_headers req) of None \<Rightarrow> [] | Some (k, v) \<Rightarrow> v)"

definition has_param :: "string \<Rightarrow> Request \<Rightarrow> bool" where
  "has_param key req \<longleftrightarrow> List.find (\<lambda>(k, v). k = key) (req_params req) \<noteq> None"

definition get_param_value :: "string \<Rightarrow> Request \<Rightarrow> string" where
  "get_param_value key req =
     (case List.find (\<lambda>(k, v). k = key) (req_params req) of None \<Rightarrow> [] | Some (k, v) \<Rightarrow> v)"

section \<open>The server\<close>

text \<open>
  A handler is an action that yields its response. An exception that leaves the handler becomes
  status 500, a response whose status was not set gets 200, and a trap takes the process down: then
  there is no response. Requests with a \<^verbatim>\<open>Range\<close> header, which no client of the system sends,
  are left out.
\<close>

type_synonym 's handler = "Request \<Rightarrow> ('s, Response) action"

definition run_handler :: "('s, Response) action \<Rightarrow> 's \<Rightarrow> Response option \<times> 's" where
  "run_handler h s =
     (case h s of
        (Inl e, s') \<Rightarrow> ((if e = Trap then None else Some (with_status 500)), s')
      | (Inr res, s') \<Rightarrow> (Some (if res_status res = -1 then res\<lparr>res_status := 200\<rparr> else res), s'))"

text \<open>
  The registered routes are tried in order among those of the request's method (a \<^verbatim>\<open>HEAD\<close> goes
  to the \<^verbatim>\<open>GET\<close> handlers); the body is read only when one matches.
\<close>

definition method_matches :: "string \<Rightarrow> string \<Rightarrow> bool" where
  "method_matches m registered \<longleftrightarrow> m = registered \<or> m = ''HEAD'' \<and> registered = ''GET''"

definition serve :: "int \<Rightarrow> (string \<times> string \<times> 's handler) list \<Rightarrow> Request \<Rightarrow> 's \<Rightarrow> Response option \<times> 's" where
  "serve payload_max routes req s =
     (if req_method req \<notin> {''GET'', ''HEAD'', ''POST'', ''PUT'', ''DELETE'', ''OPTIONS'', ''PATCH''}
      then (Some (with_status 400), s)
      else case List.find (\<lambda>(m, p, h). method_matches (req_method req) m \<and> p = req_path req) routes of
          None \<Rightarrow> (Some (with_status 404), s)
        | Some (m, p, h) \<Rightarrow>
            if payload_max < int (length (req_body req)) then (Some (with_status 413), s)
            else run_handler (h req) s)"

end
