(* ===== verification/Worker_Server.thy ===== *)
theory Worker_Server
  imports Http Disk_Storage
begin

text \<open>
  \<^verbatim>\<open>worker/WorkerServer.hpp\<close>: the three routes of a worker over any storage backend, and on the
  local disk what they promise to clients and to the collector.
\<close>

section \<open>The handlers\<close>

definition post_chunk :: "openssl \<Rightarrow> 's IStorageBackend \<Rightarrow> 's handler" where
  "post_chunk ossl B req =
     (let expected_hash = get_param_value ''hash'' req
      in if expected_hash = [] then ret (with_status 400)
         else case sha256 ossl (req_body req) of
             Inl e \<Rightarrow> throw e
           | Inr actual_hash \<Rightarrow>
               if actual_hash \<noteq> expected_hash
               then ret (set_content ''Hash mismatch. Payload corrupted.'' ''text/plain'' (with_status 400))
               else (\<lambda>s. case op_SaveChunk B expected_hash (req_body req) s of
                   (saved, s') \<Rightarrow> (Inr (if saved then set_content ''OK'' ''text/plain'' (with_status 200)
                                       else with_status 500), s')))"

definition get_chunk :: "'s IStorageBackend \<Rightarrow> 's handler" where
  "get_chunk B req = (\<lambda>s.
     case op_LoadChunk B (get_param_value ''hash'' req) s of
       (data, s') \<Rightarrow> (Inr (if data \<noteq> [] then set_content data ''application/octet-stream'' (with_status 200)
                         else with_status 404), s'))"

definition delete_chunk :: "'s IStorageBackend \<Rightarrow> 's handler" where
  "delete_chunk B req = (\<lambda>s.
     case op_DeleteChunk B (get_param_value ''hash'' req) s of
       (deleted, s') \<Rightarrow> (Inr (if deleted then set_content ''DELETED'' ''text/plain'' (with_status 200)
                            else with_status 404), s'))"

definition worker_payload_max :: int where
  "worker_payload_max = 1048576 + 1024"

definition WorkerServer :: "openssl \<Rightarrow> 's IStorageBackend \<Rightarrow> Request \<Rightarrow> 's \<Rightarrow> Response option \<times> 's" where
  "WorkerServer ossl B =
     serve worker_payload_max
       [(''POST'', ''/chunk'', post_chunk ossl B), (''GET'', ''/chunk'', get_chunk B), (''DELETE'', ''/chunk'', delete_chunk B)]"

fun after_requests :: "openssl \<Rightarrow> 's IStorageBackend \<Rightarrow> Request list \<Rightarrow> 's \<Rightarrow> 's" where
  "after_requests ossl B [] s = s"
| "after_requests ossl B (r # rs) s = after_requests ossl B rs (snd (WorkerServer ossl B r s))"

definition chunk_request :: "string \<Rightarrow> string \<Rightarrow> string \<Rightarrow> Request" where
  "chunk_request m h body =
     \<lparr>req_method = m, req_path = ''/chunk'', req_params = [(''hash'', h)], req_headers = [], req_body = body\<rparr>"

section \<open>What a request does\<close>

lemma get_param_chunk [simp]: "get_param_value ''hash'' (chunk_request m h b) = h"
  by (simp add: get_param_value_def chunk_request_def)

lemma serve_post: "int (length body) \<le> worker_payload_max \<Longrightarrow>
    WorkerServer ossl B (chunk_request ''POST'' h body) s = run_handler (post_chunk ossl B (chunk_request ''POST'' h body)) s"
  by (simp add: WorkerServer_def serve_def chunk_request_def method_matches_def)

lemma serve_post_large: "worker_payload_max < int (length body) \<Longrightarrow>
    WorkerServer ossl B (chunk_request ''POST'' h body) s = (Some (with_status 413), s)"
  by (simp add: WorkerServer_def serve_def chunk_request_def method_matches_def)

lemma serve_get: "WorkerServer ossl B (chunk_request ''GET'' h []) s = run_handler (get_chunk B (chunk_request ''GET'' h [])) s"
  by (simp add: WorkerServer_def serve_def chunk_request_def method_matches_def worker_payload_max_def)

lemma serve_delete:
  "WorkerServer ossl B (chunk_request ''DELETE'' h []) s = run_handler (delete_chunk B (chunk_request ''DELETE'' h [])) s"
  by (simp add: WorkerServer_def serve_def chunk_request_def method_matches_def worker_payload_max_def)

text \<open>Every request is refused without effect, or runs one of the three handlers.\<close>

lemma WorkerServer_cases:
  fixes s :: 's
  shows
    "snd (WorkerServer ossl B req s) = s \<or>
   int (length (req_body req)) \<le> worker_payload_max \<and> snd (WorkerServer ossl B req s) = snd (post_chunk ossl B req s) \<or>
   snd (WorkerServer ossl B req s) = snd (get_chunk B req s) \<or>
   snd (WorkerServer ossl B req s) = snd (delete_chunk B req s)"
proof -
  have run: "snd (run_handler a t) = snd (a t)" for a :: "('s, Response) action" and t :: 's
    by (simp add: run_handler_def split: prod.split sum.split)
  show ?thesis
    by (cases "worker_payload_max < int (length (req_body req))"; cases "req_path req = ''/chunk''";
        cases "method_matches (req_method req) ''POST''"; cases "method_matches (req_method req) ''GET''";
        cases "method_matches (req_method req) ''DELETE''") (simp_all add: WorkerServer_def serve_def run)
qed

lemma post_chunk_200:
  assumes "WorkerServer ossl B (chunk_request ''POST'' h body) s = (Some r, s')" and "res_status r = 200"
  shows "sha256 ossl body = Inr h \<and> op_SaveChunk B h body s = (True, s') \<and> int (length body) \<le> worker_payload_max"
proof (cases "int (length body) \<le> worker_payload_max")
  case True
  have body: "req_body (chunk_request ''POST'' h body) = body" by (simp add: chunk_request_def)
  show ?thesis using assms True
    by (auto simp: serve_post run_handler_def post_chunk_def Let_def body outcome_simps with_status_def new_Response_def set_content_def
        split: if_splits sum.splits prod.splits)
next
  case False
  then show ?thesis using assms by (auto simp: serve_post_large with_status_def)
qed

section \<open>Storing, fetching, deleting\<close>

lemma hex_string_plain: "plain_name (hex_string bs)"
proof -
  have "False" if slash: "CHR ''/'' \<in> set (hex_string bs)"
  proof -
    obtain d where "d < 16" "CHR ''/'' = digit_char d" using hex_string_digit [OF slash] by blast
    then have "code (CHR ''/'') = (if d < 10 then 48 + d else 87 + d)" using code_digit_char by simp
    then show False by (simp add: code_def split: if_splits)
  qed
  then show ?thesis by (auto simp: plain_name_def)
qed

lemma sha256_plain: "sha256 ossl d = Inr h \<Longrightarrow> plain_name h"
  by (auto simp: sha256_def hex_string_plain split: if_splits option.splits)

text \<open>C18: A worker keeps what it acknowledges: after an upload of at least one byte that was answered 200, the next request, if it is a fetch
  of the hash and the disk can then open, measure and read the file, returns exactly the bytes uploaded; after a delete that was answered 200, it is
  answered 404. An empty chunk is excluded, since the worker serves it as missing.\<close>

theorem upload_then_fetch:
  assumes "cipher_ok ossl" and "random_ok ossl" and "body \<noteq> []"
    and "WorkerServer ossl (LocalDiskBackend ossl) (chunk_request ''POST'' h body) w = (Some r, w1)" and "res_status r = 200"
    and "disk_smooth w1"
    and "WorkerServer ossl (LocalDiskBackend ossl) (chunk_request ''GET'' h []) w1 = (Some g, w2)"
    and "WorkerServer ossl (LocalDiskBackend ossl) (chunk_request ''DELETE'' h []) w2 = (Some d, w3)" and "res_status d = 200"
    and "WorkerServer ossl (LocalDiskBackend ossl) (chunk_request ''GET'' h []) w3 = (Some n, w4)"
  shows "res_status g = 200 \<and> res_body g = body \<and> res_status n = 404"
proof -
  let ?B = "LocalDiskBackend ossl"
  have good: "disk_good ossl x" for x using assms(1,2) by (simp add: disk_good_def)
  have post: "sha256 ossl body = Inr h" "op_SaveChunk ?B h body w = (True, w1)" "int (length body) \<le> worker_payload_max"
    using post_chunk_200 [OF assms(4,5)] by auto
  have h: "plain_name h" by (rule sha256_plain [OF post(1)])
  obtain data where load: "op_LoadChunk ?B h w1 = (data, w2)"
    using assms(7) by (auto simp: serve_get run_handler_def get_chunk_def split: prod.splits)
  have "storable_size body" using post(3) by (simp add: storable_size_def worker_payload_max_def)
  then have data: "data = body" using local_disk.save_then_load [OF good h _ post(2) assms(6) load] by simp
  have "op_DeleteChunk ?B h w2 = (True, w3)"
    using assms(8,9) by (auto simp: serve_delete run_handler_def delete_chunk_def with_status_def set_content_def new_Response_def
        split: prod.splits if_splits)
  then have gone: "fst (op_LoadChunk ?B h w3) = []"
    using local_disk.delete_then_load [OF good h] by (metis prod.collapse)
  show ?thesis using assms(7,10) load data gone assms(3)
    by (auto simp: serve_get run_handler_def get_chunk_def with_status_def set_content_def new_Response_def split: prod.splits)
qed

definition run_storage :: disk_world where
  "run_storage = \<lparr>storage = \<lparr>node_key = ''key'', storage_dir = ''d'', in_flight_bytes = 0, disk = (\<lambda>_. None)\<rparr>,
     os_calls = (\<lambda>_. smooth), call_no = 0\<rparr>"

definition run_hash :: string where
  "run_hash = hex_string (pad_to 32 ''chunk'')"

definition run_posted :: disk_world where
  "run_posted = snd (WorkerServer sample_ossl (LocalDiskBackend sample_ossl) (chunk_request ''POST'' run_hash ''chunk'') run_storage)"

definition run_fetched :: disk_world where
  "run_fetched = snd (WorkerServer sample_ossl (LocalDiskBackend sample_ossl) (chunk_request ''GET'' run_hash []) run_posted)"

definition run_deleted :: disk_world where
  "run_deleted = snd (WorkerServer sample_ossl (LocalDiskBackend sample_ossl) (chunk_request ''DELETE'' run_hash []) run_fetched)"

lemma run_post: "WorkerServer sample_ossl (LocalDiskBackend sample_ossl) (chunk_request ''POST'' run_hash ''chunk'') run_storage =
    (Some \<lparr>res_status = 200, res_body = ''OK'', res_type = ''text/plain''\<rparr>, run_posted)"
proof -
  have "fst (WorkerServer sample_ossl (LocalDiskBackend sample_ossl) (chunk_request ''POST'' run_hash ''chunk'') run_storage) =
      Some \<lparr>res_status = 200, res_body = ''OK'', res_type = ''text/plain''\<rparr>"
    by code_simp
  then show ?thesis by (simp add: run_posted_def prod_eq_iff)
qed

lemma run_delete_answer:
  "WorkerServer sample_ossl (LocalDiskBackend sample_ossl) (chunk_request ''DELETE'' run_hash []) run_fetched =
    (Some \<lparr>res_status = 200, res_body = ''DELETED'', res_type = ''text/plain''\<rparr>, run_deleted)"
proof -
  have "fst (WorkerServer sample_ossl (LocalDiskBackend sample_ossl) (chunk_request ''DELETE'' run_hash []) run_fetched) =
      Some \<lparr>res_status = 200, res_body = ''DELETED'', res_type = ''text/plain''\<rparr>"
    by code_simp
  then show ?thesis by (simp add: run_deleted_def prod_eq_iff)
qed

lemma upload_then_fetch_witness:
  "\<exists>g. fst (WorkerServer sample_ossl (LocalDiskBackend sample_ossl) (chunk_request ''GET'' run_hash []) run_posted) = Some g \<and>
     res_body g = ''chunk''"
proof -
  obtain g where g: "WorkerServer sample_ossl (LocalDiskBackend sample_ossl) (chunk_request ''GET'' run_hash []) run_posted = (Some g, run_fetched)"
    unfolding run_fetched_def serve_get run_handler_def get_chunk_def
    by (cases "op_LoadChunk (LocalDiskBackend sample_ossl) run_hash run_posted") simp
  obtain n w4 where n: "WorkerServer sample_ossl (LocalDiskBackend sample_ossl) (chunk_request ''GET'' run_hash []) run_deleted = (Some n, w4)"
    unfolding serve_get run_handler_def get_chunk_def
    by (cases "op_LoadChunk (LocalDiskBackend sample_ossl) run_hash run_deleted") simp
  have "disk_smooth run_posted" by code_simp
  from upload_then_fetch [OF sample_ossl_ok(1,2) _ run_post _ this g run_delete_answer _ n] show ?thesis using g by simp
qed

section \<open>Zero trust\<close>

definition honest :: "openssl \<Rightarrow> disk_world \<Rightarrow> bool" where
  "honest ossl w \<longleftrightarrow> (\<forall>h d. plain_name h \<longrightarrow> stored ossl (storage w) h = Some d \<longrightarrow> sha256 ossl d = Inr h)"

definition full_writes :: "disk_world \<Rightarrow> bool" where
  "full_writes w \<longleftrightarrow> (\<forall>i\<ge>call_no w. written (os_calls w i) = None)"

lemma stored_delete:
  assumes "DeleteChunk os h st = (b, st')"
  shows "stored ossl st' k = None \<or> stored ossl st' k = stored ossl st k"
  using assms by (auto simp: DeleteChunk_def stored_def chunk_path_def split: if_splits cong: option.case_cong)

text \<open>A save that does not succeed, when no write is cut short, has changed nothing that is stored.\<close>

lemma stored_save_failed:
  assumes "SaveChunk ossl os h data st = (False, st')" and "written os = None"
  shows "stored ossl st' k = stored ossl st k"
proof -
  note frame = SaveChunk_frame [OF assms(1)]
  have "disk st' = disk st"
    using assms by (auto simp: SaveChunk_def release_space_def dest!: ReserveSpace_frame split: sum.splits prod.splits bool.splits if_splits)
  then show ?thesis using frame by (simp add: stored_def chunk_path_def cong: option.case_cong)
qed

lemma full_writes_after: "full_writes w \<Longrightarrow> full_writes (after_call st w)"
  by (simp add: full_writes_def)

lemma honest_save:
  assumes "cipher_ok ossl" and "random_ok ossl" and "honest ossl w" and "full_writes w"
    and "sha256 ossl d = Inr h" and "int (length d) \<le> worker_payload_max"
    and "op_SaveChunk (LocalDiskBackend ossl) h d w = (b, w')"
  shows "honest ossl w' \<and> full_writes w'"
proof -
  have good: "disk_good ossl w" using assms(1,2) by (simp add: disk_good_def)
  have h: "plain_name h" by (rule sha256_plain [OF assms(5)])
  have size: "storable_size d" using assms(6) by (simp add: storable_size_def worker_payload_max_def)
  obtain st where st: "SaveChunk ossl (os_calls w (call_no w)) h d (storage w) = (b, st)" and w': "w' = after_call st w"
    using assms(7) by (auto simp: LocalDiskBackend_def on_storage_eq)
  have "sha256 ossl x = Inr k" if k: "plain_name k" "stored ossl (storage w') k = Some x" for k x
  proof (cases b)
    case True
    then show ?thesis
      using local_disk.save_law [OF good h size assms(7)] k assms(3,5) by (cases "k = h") (auto simp: honest_def)
  next
    case False
    then have "stored ossl (storage w') k = stored ossl (storage w) k"
      using stored_save_failed [of ossl _ h d "storage w" st] st assms(4) w' by (simp add: full_writes_def)
    then show ?thesis using k assms(3) by (simp add: honest_def)
  qed
  then show ?thesis using full_writes_after [OF assms(4)] w' by (simp add: honest_def)
qed

lemma honest_delete:
  assumes "honest ossl w" and "full_writes w" and "op_DeleteChunk (LocalDiskBackend ossl) h w = (b, w')"
  shows "honest ossl w' \<and> full_writes w'"
proof -
  obtain st where st: "DeleteChunk (os_calls w (call_no w)) h (storage w) = (b, st)" and w': "w' = after_call st w"
    using assms(3) by (auto simp: LocalDiskBackend_def on_storage_eq)
  have "stored ossl st k = None \<or> stored ossl st k = stored ossl (storage w) k" for k
    by (rule stored_delete [OF st])
  then show ?thesis using assms(1) w' full_writes_after [OF assms(2)] unfolding honest_def by (metis after_call_simps(1) option.distinct(1))
qed

lemma honest_load:
  assumes "honest ossl w" and "full_writes w" and "op_LoadChunk (LocalDiskBackend ossl) h w = (d, w')"
  shows "honest ossl w' \<and> full_writes w'"
proof -
  have "w' = after_call (storage w) w" using assms(3) by (auto simp: LocalDiskBackend_def on_storage_eq LoadChunk_def)
  then show ?thesis using assms(1) full_writes_after [OF assms(2)] by (simp add: honest_def)
qed

lemma honest_request:
  assumes "cipher_ok ossl" and "random_ok ossl" and "honest ossl w" and "full_writes w"
  shows "honest ossl (snd (WorkerServer ossl (LocalDiskBackend ossl) req w)) \<and>
     full_writes (snd (WorkerServer ossl (LocalDiskBackend ossl) req w))"
proof -
  let ?B = "LocalDiskBackend ossl" and ?h = "get_param_value ''hash'' req"
  obtain b1 w1 where save: "op_SaveChunk ?B ?h (req_body req) w = (b1, w1)" by fastforce
  obtain d w2 where load: "op_LoadChunk ?B ?h w = (d, w2)" by fastforce
  obtain b3 w3 where del: "op_DeleteChunk ?B ?h w = (b3, w3)" by fastforce
  have "snd (post_chunk ossl ?B req w) = w \<or> sha256 ossl (req_body req) = Inr ?h \<and> snd (post_chunk ossl ?B req w) = w1"
    using save by (auto simp: post_chunk_def Let_def ret_def throw_def split: sum.splits)
  moreover have "snd (get_chunk ?B req w) = w2" using load by (simp add: get_chunk_def)
  moreover have "snd (delete_chunk ?B req w) = w3" using del by (simp add: delete_chunk_def)
  ultimately show ?thesis
    using WorkerServer_cases [of ossl ?B req w] assms(3,4) honest_save [OF assms _ _ save] honest_load [OF assms(3,4) load]
      honest_delete [OF assms(3,4) del] by metis
qed

text \<open>C22: Zero trust: whatever requests a worker receives, forged uploads and deletions of any
  name included, every chunk it then serves has the SHA-256 hash it is served under, as long as no
  write to its disk is cut short.\<close>

theorem served_content_matches:
  assumes "cipher_ok ossl" and "random_ok ossl" and "honest ossl w" and "full_writes w"
    and "WorkerServer ossl (LocalDiskBackend ossl) (chunk_request ''GET'' h [])
      (after_requests ossl (LocalDiskBackend ossl) reqs w) = (Some g, w')"
    and "res_status g = 200" and "plain_name h"
  shows "sha256 ossl (res_body g) = Inr h"
proof -
  let ?B = "LocalDiskBackend ossl"
  define v where "v = after_requests ossl ?B reqs w"
  have "honest ossl v \<and> full_writes v"
    using assms(3,4) unfolding v_def
    by (induction reqs arbitrary: w) (simp_all add: honest_request [OF assms(1,2)])
  then have honest: "honest ossl v" by blast
  obtain d where load: "op_LoadChunk ?B h v = (d, w')" and d: "d \<noteq> []" "res_body g = d"
    using assms(5,6) by (auto simp: v_def serve_get run_handler_def get_chunk_def with_status_def set_content_def new_Response_def
        split: prod.splits if_splits)
  have "disk_good ossl v" using assms(1,2) by (simp add: disk_good_def)
  from local_disk.load_law [OF this load] d(1) have "stored ossl (storage v) h = Some d" by blast
  then show ?thesis using honest assms(7) d(2) by (simp add: honest_def)
qed

lemma served_content_matches_witness:
  "\<exists>g. fst (WorkerServer sample_ossl (LocalDiskBackend sample_ossl) (chunk_request ''GET'' run_hash [])
     (after_requests sample_ossl (LocalDiskBackend sample_ossl)
       [chunk_request ''POST'' ''bad'' ''chunk'', chunk_request ''POST'' run_hash ''chunk''] run_storage)) = Some g \<and>
     sha256 sample_ossl (res_body g) = Inr run_hash"
proof -
  let ?B = "LocalDiskBackend sample_ossl"
  let ?v = "after_requests sample_ossl ?B [chunk_request ''POST'' ''bad'' ''chunk'', chunk_request ''POST'' run_hash ''chunk''] run_storage"
  have ans: "fst (WorkerServer sample_ossl ?B (chunk_request ''GET'' run_hash []) ?v) =
      Some \<lparr>res_status = 200, res_body = ''chunk'', res_type = ''application/octet-stream''\<rparr>"
    by code_simp
  have "honest sample_ossl run_storage" "full_writes run_storage"
    by (simp_all add: honest_def full_writes_def run_storage_def stored_def smooth_def)
  moreover have "plain_name run_hash" by (simp add: run_hash_def hex_string_plain)
  moreover have "WorkerServer sample_ossl ?B (chunk_request ''GET'' run_hash []) ?v =
      (Some \<lparr>res_status = 200, res_body = ''chunk'', res_type = ''application/octet-stream''\<rparr>,
       snd (WorkerServer sample_ossl ?B (chunk_request ''GET'' run_hash []) ?v))"
    using ans by (simp add: prod_eq_iff)
  ultimately show ?thesis using served_content_matches [OF sample_ossl_ok(1,2)] ans by fastforce
qed

end
