(* ===== verification/Json_Text.thy ===== *)
theory Json_Text
  imports Std_Text
begin

text \<open>
  The lexer of \<^verbatim>\<open>common/json.hpp\<close>: strings with their escapes and UTF-8, numbers, literals
  and the tokens of a JSON text. The input is the list of bytes not read yet; a byte given back by
  \<^verbatim>\<open>unget\<close> is simply not taken. A floating-point number is kept as the binary64 value that
  \<^verbatim>\<open>strtod\<close> rounds the text to.
\<close>

section \<open>Strings\<close>

text \<open>Four hexadecimal digits; \<open>None\<close> is the result \<open>-1\<close>.\<close>

definition get_codepoint :: "string \<Rightarrow> (nat \<times> string) option" where
  "get_codepoint s =
     (if 4 \<le> length s \<and> list_all (is_digit 16) (take 4 s)
      then Some (nat (digits_value 16 (take 4 s)), drop 4 s) else None)"

definition utf8_of :: "nat \<Rightarrow> string" where
  "utf8_of cp =
     (if cp < 128 then [char_of cp]
      else if cp \<le> 2047 then [char_of (192 + cp div 64), char_of (128 + cp mod 64)]
      else if cp \<le> 65535
        then [char_of (224 + cp div 4096), char_of (128 + cp div 64 mod 64), char_of (128 + cp mod 64)]
      else [char_of (240 + cp div 262144), char_of (128 + cp div 4096 mod 64),
            char_of (128 + cp div 64 mod 64), char_of (128 + cp mod 64)])"

text \<open>The escape \<^verbatim>\<open>u\<close>: one code unit, or two that are a surrogate pair.\<close>

definition scan_unicode :: "string \<Rightarrow> (string \<times> string) option" where
  "scan_unicode s =
     (case get_codepoint s of
        None \<Rightarrow> None
      | Some (cp1, r) \<Rightarrow>
          if 55296 \<le> cp1 \<and> cp1 \<le> 56319 then
            (case r of
               b # u # r' \<Rightarrow>
                 if b = CHR 92 \<and> u = CHR ''u'' then
                   (case get_codepoint r' of
                      None \<Rightarrow> None
                    | Some (cp2, r'') \<Rightarrow>
                        if 56320 \<le> cp2 \<and> cp2 \<le> 57343
                        then Some (utf8_of (cp1 * 1024 + cp2 - 56613888), r'') else None)
                 else None
             | _ \<Rightarrow> None)
          else if 56320 \<le> cp1 \<and> cp1 \<le> 57343 then None
          else Some (utf8_of cp1, r))"

definition scan_escape :: "string \<Rightarrow> (string \<times> string) option" where
  "scan_escape s =
     (case s of
        [] \<Rightarrow> None
      | c # r \<Rightarrow>
          if c = CHR 34 \<or> c = CHR 92 \<or> c = CHR ''/'' then Some ([c], r)
          else if c = CHR ''b'' then Some ([CHR 8], r)
          else if c = CHR ''f'' then Some ([CHR 12], r)
          else if c = CHR ''n'' then Some ([CHR 10], r)
          else if c = CHR ''r'' then Some ([CHR 13], r)
          else if c = CHR ''t'' then Some ([CHR 9], r)
          else if c = CHR ''u'' then scan_unicode r
          else None)"

text \<open>The ranges that the bytes after a lead byte must be in.\<close>

definition tail_ranges :: "nat \<Rightarrow> (nat \<times> nat) list option" where
  "tail_ranges b =
     (if 194 \<le> b \<and> b \<le> 223 then Some [(128, 191)]
      else if b = 224 then Some [(160, 191), (128, 191)]
      else if 225 \<le> b \<and> b \<le> 236 \<or> b = 238 \<or> b = 239 then Some [(128, 191), (128, 191)]
      else if b = 237 then Some [(128, 159), (128, 191)]
      else if b = 240 then Some [(144, 191), (128, 191), (128, 191)]
      else if 241 \<le> b \<and> b \<le> 243 then Some [(128, 191), (128, 191), (128, 191)]
      else if b = 244 then Some [(128, 143), (128, 191), (128, 191)]
      else None)"

fun next_byte_in_range :: "(nat \<times> nat) list \<Rightarrow> string \<Rightarrow> (string \<times> string) option" where
  "next_byte_in_range [] s = Some ([], s)"
| "next_byte_in_range (_ # _) [] = None"
| "next_byte_in_range ((lo, hi) # rs) (c # s) =
     (if lo \<le> code c \<and> code c \<le> hi
      then map_option (\<lambda>(bs, r). (c # bs, r)) (next_byte_in_range rs s) else None)"

text \<open>The bytes a string must not hold unescaped, and those it holds as they are (the quote and the
  backslash are met before).\<close>

definition control_character :: "nat \<Rightarrow> bool" where
  [simp]: "control_character b \<longleftrightarrow> b \<le> 31"

definition plain_character :: "nat \<Rightarrow> bool" where
  [simp]: "plain_character b \<longleftrightarrow> 32 \<le> b \<and> b \<le> 127"

text \<open>One turn of the loop of \<^verbatim>\<open>scan_string\<close>, for a byte that is not the closing quote.\<close>

definition scan_char :: "char \<Rightarrow> string \<Rightarrow> (string \<times> string) option" where
  "scan_char c r =
     (if c = CHR 92 then scan_escape r
      else if control_character (code c) then None
      else if plain_character (code c) then Some ([c], r)
      else case tail_ranges (code c) of
          None \<Rightarrow> None
        | Some rs \<Rightarrow> map_option (\<lambda>(bs, r'). (c # bs, r')) (next_byte_in_range rs r))"

lemma get_codepoint_shorter: "get_codepoint s = Some (n, r) \<Longrightarrow> length r \<le> length s"
  by (auto simp: get_codepoint_def split: if_splits)

lemma scan_unicode_shorter: "scan_unicode s = Some (bs, r) \<Longrightarrow> length r \<le> length s"
  by (auto simp: scan_unicode_def split: option.splits if_splits list.splits dest!: get_codepoint_shorter)

lemma scan_escape_shorter: "scan_escape s = Some (bs, r) \<Longrightarrow> length r \<le> length s"
  by (auto simp: scan_escape_def split: list.splits if_splits dest: scan_unicode_shorter)

lemma next_byte_in_range_eq:
  "next_byte_in_range rs s = Some (bs, r) \<longleftrightarrow>
     s = bs @ r \<and> list_all2 (\<lambda>(lo, hi) c. lo \<le> code c \<and> code c \<le> hi) rs bs"
proof (induction rs s arbitrary: bs r rule: next_byte_in_range.induct)
  case (2 q qs)
  then show ?case by (cases bs) auto
next
  case (3 lo hi rs c s)
  then show ?case by (cases bs) auto
qed auto

lemma scan_char_shorter [termination_simp]: "scan_char c r = Some (bs, r') \<Longrightarrow> length r' < Suc (length r)"
  by (auto simp: scan_char_def next_byte_in_range_eq split: if_splits option.splits
      dest!: scan_escape_shorter)

fun scan_string :: "string \<Rightarrow> (string \<times> string) option" where
  "scan_string [] = None"
| "scan_string (c # r) =
     (if c = CHR 34 then Some ([], r)
      else case scan_char c r of
          None \<Rightarrow> None
        | Some (bs, r') \<Rightarrow> map_option (\<lambda>(cs, r''). (bs @ cs, r'')) (scan_string r'))"

lemma scan_string_shorter: "scan_string s = Some (cs, r) \<Longrightarrow> length r \<le> length s"
proof (induction s arbitrary: cs rule: scan_string.induct)
  case (2 c s)
  then show ?case by (fastforce split: if_splits option.splits dest: scan_char_shorter)
qed simp

section \<open>Floating-point values\<close>

text \<open>A finite binary64 value: the sign, and magnitude \<open>m * 2 ^ e\<close>.\<close>

type_synonym double = "bool \<times> int \<times> int"

function bit_count :: "int \<Rightarrow> int" where
  "bit_count n = (if n \<le> 0 then 0 else 1 + bit_count (n div 2))"
  by pat_completeness auto
termination
  by (relation "measure nat") auto

declare bit_count.simps [simp del]

definition round_half_even :: "int \<Rightarrow> int \<Rightarrow> int" where
  "round_half_even a b =
     (let q = a div b; r = a mod b in if b < 2 * r \<or> 2 * r = b \<and> odd q then q + 1 else q)"

definition pow :: "int \<Rightarrow> int \<Rightarrow> int" where
  "pow b e = (if 0 \<le> e then b ^ nat e else 1)"

text \<open>The fraction \<open>n / d\<close>, rounded to 53 bits with the least exponent -1074, to nearest even;
  \<open>None\<close> is infinity.\<close>

definition round_double :: "int \<Rightarrow> int \<Rightarrow> (int \<times> int) option" where
  "round_double n d =
     (if n = 0 then Some (0, 0)
      else let k = bit_count n - bit_count d;
               k' = (if d * pow 2 k \<le> n * pow 2 (- k) then k else k - 1);
               e = max (- 1074) (k' - 52);
               q = round_half_even (n * pow 2 (- e)) (d * pow 2 e)
        in if 1024 < bit_count q + e then None else Some (q, e))"

text \<open>\<^verbatim>\<open>strtod\<close> on the text of a JSON number: sign, digits, fraction, exponent.\<close>

definition exponent_of :: "string \<Rightarrow> int" where
  "exponent_of s =
     (case s of [] \<Rightarrow> 0
      | _ # r \<Rightarrow> let (neg, ds) = drop_sign r in signed neg (digits_value 10 ds))"

definition strtod :: "string \<Rightarrow> double option" where
  "strtod s =
     (let (neg, r) = drop_sign s;
          whole = takeWhile (is_digit 10) r; r' = dropWhile (is_digit 10) r;
          frac = (if r' \<noteq> [] \<and> hd r' = CHR ''.'' then takeWhile (is_digit 10) (tl r') else []);
          r'' = (if r' \<noteq> [] \<and> hd r' = CHR ''.'' then dropWhile (is_digit 10) (tl r') else r');
          e = exponent_of r'' - int (length frac);
          m = digits_value 10 (whole @ frac)
      in map_option (\<lambda>(q, e). (neg, q, e)) (round_double (m * pow 10 e) (pow 10 (- e))))"

definition trunc_double :: "double \<Rightarrow> int" where
  "trunc_double x = (case x of (neg, m, e) \<Rightarrow> signed neg (m * pow 2 e div pow 2 (- e)))"

section \<open>Numbers\<close>

text \<open>
  The states of \<^verbatim>\<open>scan_number\<close>. Each yields whether a point or an exponent was met, the text
  read from here on and the unread rest, or \<open>None\<close> for a parse error.
\<close>

type_synonym scanned = "(bool \<times> string \<times> string) option"

definition add :: "char \<Rightarrow> scanned \<Rightarrow> scanned" where
  "add c = map_option (\<lambda>(f, t, r). (f, c # t, r))"

definition as_float :: "scanned \<Rightarrow> scanned" where
  "as_float = map_option (\<lambda>(f, t, r). (True, t, r))"

fun scan_number_any2 :: "string \<Rightarrow> scanned" where
  "scan_number_any2 [] = Some (False, [], [])"
| "scan_number_any2 (c # r) =
     (if is_digit 10 c then add c (scan_number_any2 r) else Some (False, [], c # r))"

definition scan_number_sign :: "string \<Rightarrow> scanned" where
  "scan_number_sign s =
     (case s of [] \<Rightarrow> None | c # r \<Rightarrow> if is_digit 10 c then add c (scan_number_any2 r) else None)"

definition scan_number_exponent :: "string \<Rightarrow> scanned" where
  "scan_number_exponent s =
     as_float (case s of [] \<Rightarrow> None
       | c # r \<Rightarrow> if c = CHR ''+'' \<or> c = CHR ''-'' then add c (scan_number_sign r)
                  else if is_digit 10 c then add c (scan_number_any2 r) else None)"

fun scan_number_decimal2 :: "string \<Rightarrow> scanned" where
  "scan_number_decimal2 [] = Some (False, [], [])"
| "scan_number_decimal2 (c # r) =
     (if is_digit 10 c then add c (scan_number_decimal2 r)
      else if c = CHR ''e'' \<or> c = CHR ''E'' then add c (scan_number_exponent r)
      else Some (False, [], c # r))"

definition scan_number_decimal1 :: "string \<Rightarrow> scanned" where
  "scan_number_decimal1 s =
     as_float (case s of [] \<Rightarrow> None
       | c # r \<Rightarrow> if is_digit 10 c then add c (scan_number_decimal2 r) else None)"

definition scan_number_zero :: "string \<Rightarrow> scanned" where
  "scan_number_zero s =
     (case s of [] \<Rightarrow> Some (False, [], [])
      | c # r \<Rightarrow> if c = CHR ''.'' then add c (scan_number_decimal1 r)
                 else if c = CHR ''e'' \<or> c = CHR ''E'' then add c (scan_number_exponent r)
                 else Some (False, [], c # r))"

fun scan_number_any1 :: "string \<Rightarrow> scanned" where
  "scan_number_any1 [] = Some (False, [], [])"
| "scan_number_any1 (c # r) =
     (if is_digit 10 c then add c (scan_number_any1 r)
      else if c = CHR ''.'' then add c (scan_number_decimal1 r)
      else if c = CHR ''e'' \<or> c = CHR ''E'' then add c (scan_number_exponent r)
      else Some (False, [], c # r))"

definition scan_number_minus :: "string \<Rightarrow> scanned" where
  "scan_number_minus s =
     (case s of [] \<Rightarrow> None
      | c # r \<Rightarrow> if c = CHR ''0'' then add c (scan_number_zero r)
                 else if is_digit 10 c then add c (scan_number_any1 r) else None)"

section \<open>Tokens\<close>

datatype token =
    BeginArray | EndArray | BeginObject | EndObject | NameSeparator | ValueSeparator
  | LiteralTrue | LiteralFalse | LiteralNull
  | ValueString string
  | ValueUnsigned int
  | ValueInteger int
  | ValueFloat "double option"
  | EndOfInput
  | ParseError

definition number_token :: "bool \<Rightarrow> string \<Rightarrow> token" where
  "number_token is_float t =
     (let (neg, ds) = drop_sign t; x = signed neg (digits_value 10 ds)
      in if \<not> is_float \<and> \<not> neg \<and> x < 2 ^ 64 then ValueUnsigned x
         else if \<not> is_float \<and> neg \<and> - (2 ^ 63) \<le> x then ValueInteger x
         else ValueFloat (strtod t))"

definition scan_number :: "char \<Rightarrow> string \<Rightarrow> token \<times> string" where
  "scan_number c r =
     (case add c (if c = CHR ''-'' then scan_number_minus r
                  else if c = CHR ''0'' then scan_number_zero r else scan_number_any1 r) of
        None \<Rightarrow> (ParseError, r)
      | Some (f, t, r') \<Rightarrow> (number_token f t, r'))"

definition scan_literal :: "string \<Rightarrow> token \<Rightarrow> string \<Rightarrow> token \<times> string" where
  "scan_literal rest_of_text t r =
     (if take (length rest_of_text) r = rest_of_text then (t, drop (length rest_of_text) r)
      else (ParseError, r))"

definition skip_bom :: "string \<Rightarrow> string option" where
  "skip_bom s =
     (case s of
        a # r \<Rightarrow> if code a = 239
                 then (case r of b # c # r' \<Rightarrow> if code b = 187 \<and> code c = 191 then Some r' else None
                       | _ \<Rightarrow> None)
                 else Some s
      | [] \<Rightarrow> Some s)"

definition is_json_space :: "char \<Rightarrow> bool" where
  "is_json_space c \<longleftrightarrow> c = CHR 32 \<or> c = CHR 9 \<or> c = CHR 10 \<or> c = CHR 13"

definition skip_whitespace :: "string \<Rightarrow> string" where
  "skip_whitespace = dropWhile is_json_space"

definition scan :: "string \<Rightarrow> token \<times> string" where
  "scan s =
     (case skip_whitespace s of
        [] \<Rightarrow> (EndOfInput, [])
      | c # r \<Rightarrow>
          if c = CHR ''['' then (BeginArray, r)
          else if c = CHR '']'' then (EndArray, r)
          else if c = CHR ''{'' then (BeginObject, r)
          else if c = CHR ''}'' then (EndObject, r)
          else if c = CHR '':'' then (NameSeparator, r)
          else if c = CHR '','' then (ValueSeparator, r)
          else if c = CHR ''t'' then scan_literal ''rue'' LiteralTrue r
          else if c = CHR ''f'' then scan_literal ''alse'' LiteralFalse r
          else if c = CHR ''n'' then scan_literal ''ull'' LiteralNull r
          else if c = CHR 34
            then (case scan_string r of None \<Rightarrow> (ParseError, r) | Some (t, r') \<Rightarrow> (ValueString t, r'))
          else if c = CHR ''-'' \<or> is_digit 10 c then scan_number c r
          else if code c = 0 then (EndOfInput, r)
          else (ParseError, r))"

section \<open>Every token takes input\<close>

lemma add_eq: "add c x = Some (f, t, r) \<longleftrightarrow> (\<exists>u. t = c # u \<and> x = Some (f, u, r))"
  by (auto simp: add_def)

lemma as_float_eq: "as_float x = Some (f, t, r) \<longleftrightarrow> f \<and> (\<exists>g. x = Some (g, t, r))"
  by (auto simp: as_float_def)

lemma scan_number_any2_shorter: "scan_number_any2 s = Some (f, t, r) \<Longrightarrow> length r \<le> length s"
  by (induction s arbitrary: f t) (fastforce simp: add_eq split: if_splits)+

lemma scan_number_exponent_shorter: "scan_number_exponent s = Some (f, t, r) \<Longrightarrow> length r \<le> length s"
  by (auto simp: scan_number_exponent_def scan_number_sign_def as_float_eq add_eq split: list.splits if_splits
      dest!: scan_number_any2_shorter)

lemma scan_number_decimal2_shorter: "scan_number_decimal2 s = Some (f, t, r) \<Longrightarrow> length r \<le> length s"
  by (induction s arbitrary: f t)
    (fastforce simp: add_eq split: if_splits dest: scan_number_exponent_shorter)+

lemma scan_number_decimal1_shorter: "scan_number_decimal1 s = Some (f, t, r) \<Longrightarrow> length r \<le> length s"
  by (auto simp: scan_number_decimal1_def as_float_eq add_eq split: list.splits if_splits
      dest!: scan_number_decimal2_shorter)

lemma scan_number_zero_shorter: "scan_number_zero s = Some (f, t, r) \<Longrightarrow> length r \<le> length s"
  by (auto simp: scan_number_zero_def add_eq split: list.splits if_splits
      dest!: scan_number_decimal1_shorter scan_number_exponent_shorter)

lemma scan_number_any1_shorter: "scan_number_any1 s = Some (f, t, r) \<Longrightarrow> length r \<le> length s"
  by (induction s arbitrary: f t)
    (fastforce simp: add_eq split: if_splits dest: scan_number_decimal1_shorter scan_number_exponent_shorter)+

definition within :: "string \<Rightarrow> token \<times> string \<Rightarrow> bool" where
  "within r p \<longleftrightarrow> length (snd p) \<le> length r"

lemma within_if: "within r p \<Longrightarrow> within r q \<Longrightarrow> within r (if b then p else q)"
  by simp

lemma within_same: "within r (t, r)"
  by (simp add: within_def)

lemma scan_number_minus_shorter: "scan_number_minus s = Some (f, t, r) \<Longrightarrow> length r \<le> length s"
  unfolding scan_number_minus_def
  by (cases s) (force simp: add_eq split: if_split_asm dest: scan_number_zero_shorter scan_number_any1_shorter)+

lemma within_number: "within r (scan_number c r)"
proof (cases "if c = CHR ''-'' then scan_number_minus r
    else if c = CHR ''0'' then scan_number_zero r else scan_number_any1 r")
  case None
  then show ?thesis by (simp add: scan_number_def add_def within_same)
next
  case (Some p)
  obtain f t r' where p: "p = (f, t, r')" by (cases p)
  have "length r' \<le> length r"
    using Some p by (simp split: if_split_asm add: scan_number_minus_shorter scan_number_zero_shorter scan_number_any1_shorter)
  then show ?thesis using Some p by (simp add: scan_number_def add_def within_def)
qed

lemma within_literal: "within r (scan_literal u t r)"
  by (simp add: within_def scan_literal_def)

lemma within_string:
  "within r (case scan_string r of None \<Rightarrow> (ParseError, r) | Some (t, r') \<Rightarrow> (ValueString t, r'))"
  by (auto simp: within_def split: option.splits dest: scan_string_shorter)

lemma scan_head:
  assumes "skip_whitespace s = c # r"
  shows "within r (scan s)"
  unfolding scan_def assms list.case
  by (intro within_if within_same within_number within_literal within_string)

lemma scan_shorter:
  assumes "scan s = (t, r)"
  shows "length r \<le> length s" and "t \<noteq> EndOfInput \<Longrightarrow> t \<noteq> ParseError \<Longrightarrow> length r < length s"
proof -
  have ws: "length (skip_whitespace s) \<le> length s"
    by (simp add: skip_whitespace_def length_dropWhile_le)
  have "length r \<le> length s \<and> (t \<noteq> EndOfInput \<and> t \<noteq> ParseError \<longrightarrow> length r < length s)"
  proof (cases "skip_whitespace s")
    case Nil
    then show ?thesis using assms by (auto simp: scan_def)
  next
    case (Cons c u)
    then show ?thesis using scan_head [OF Cons] assms ws by (simp add: within_def)
  qed
  then show "length r \<le> length s" and "t \<noteq> EndOfInput \<Longrightarrow> t \<noteq> ParseError \<Longrightarrow> length r < length s"
    by auto
qed

end
