(* ===== verification/Json.thy ===== *)
theory Json
  imports Json_Text "HOL-Library.List_Lexorder" "HOL-Library.Char_ord"
begin

text \<open>
  The values of \<^verbatim>\<open>common/json.hpp\<close>, its parser, its serializer and the accessors that the
  program calls. An object is the \<^verbatim>\<open>std::map\<close> it is in the code: its members in the order of
  their keys, byte by byte, no key twice.
\<close>

section \<open>Values\<close>

datatype json =
    JNull
  | JBool bool
  | JInteger int
  | JUnsigned int
  | JFloat double
  | JString string
  | JArray "json list"
  | JObject "(string \<times> json) list"

text \<open>
  \<^verbatim>\<open>operator[]\<close> of the map followed by an assignment, \<^verbatim>\<open>emplace\<close>, which keeps the member
  that is there, and \<^verbatim>\<open>find\<close>.
\<close>

fun assign :: "string \<Rightarrow> 'v \<Rightarrow> (string \<times> 'v) list \<Rightarrow> (string \<times> 'v) list" where
  "assign k v [] = [(k, v)]"
| "assign k v ((k', v') # m) =
     (if k < k' then (k, v) # (k', v') # m
      else if k = k' then (k, v) # m else (k', v') # assign k v m)"

definition emplace :: "string \<Rightarrow> 'v \<Rightarrow> (string \<times> 'v) list \<Rightarrow> (string \<times> 'v) list" where
  "emplace k v m = (if map_of m k = None then assign k v m else m)"

text \<open>An object given by an initializer list of pairs of a key and a value.\<close>

definition object :: "(string \<times> json) list \<Rightarrow> json" where
  "object members = JObject (foldl (\<lambda>m (k, v). emplace k v m) [] members)"

section \<open>Accessors\<close>

definition json_at :: "json \<Rightarrow> string \<Rightarrow> json outcome" where
  "json_at j k =
     (case j of JObject m \<Rightarrow> (case map_of m k of None \<Rightarrow> Inl JsonError | Some v \<Rightarrow> Inr v)
      | _ \<Rightarrow> Inl JsonError)"

text \<open>\<^verbatim>\<open>operator[]\<close> with a key: the value read, and the object as it is left, which gains a null
  member for a key it does not have (and is made out of a null).\<close>

definition subscript :: "json \<Rightarrow> string \<Rightarrow> (json \<times> json) outcome" where
  "subscript j k =
     (case j of
        JNull \<Rightarrow> Inr (JNull, JObject [(k, JNull)])
      | JObject m \<Rightarrow> Inr (the (map_of (emplace k JNull m) k), JObject (emplace k JNull m))
      | _ \<Rightarrow> Inl JsonError)"

definition store_member :: "json \<Rightarrow> string \<Rightarrow> json \<Rightarrow> json outcome" where
  "store_member j k v =
     (case j of
        JNull \<Rightarrow> Inr (JObject [(k, v)])
      | JObject m \<Rightarrow> Inr (JObject (assign k v m))
      | _ \<Rightarrow> Inl JsonError)"

definition contains :: "json \<Rightarrow> string \<Rightarrow> bool" where
  "contains j k = (case j of JObject m \<Rightarrow> map_of m k \<noteq> None | _ \<Rightarrow> False)"

definition get_string :: "json \<Rightarrow> string outcome" where
  "get_string j = (case j of JString s \<Rightarrow> Inr s | _ \<Rightarrow> Inl JsonError)"

definition get_bool :: "json \<Rightarrow> bool outcome" where
  "get_bool j = (case j of JBool b \<Rightarrow> Inr b | _ \<Rightarrow> Inl JsonError)"

text \<open>
  The conversions to \<^verbatim>\<open>long long\<close> and \<^verbatim>\<open>int\<close>. Neither is the library's own 64-bit type
  (\<^verbatim>\<open>long\<close>), so that a boolean converts too. Integers wrap; a floating-point value outside the
  range, which C++ leaves undefined, gives the least value, as on x86-64.
\<close>

definition arithmetic :: "(int \<Rightarrow> int) \<Rightarrow> (int \<Rightarrow> bool) \<Rightarrow> int \<Rightarrow> json \<Rightarrow> int outcome" where
  "arithmetic wrap fits least j =
     (case j of
        JUnsigned n \<Rightarrow> Inr (wrap n)
      | JInteger n \<Rightarrow> Inr (wrap n)
      | JFloat x \<Rightarrow> Inr (if fits (trunc_double x) then trunc_double x else least)
      | JBool b \<Rightarrow> Inr (if b then 1 else 0)
      | _ \<Rightarrow> Inl JsonError)"

definition get_long_long :: "json \<Rightarrow> int outcome" where
  "get_long_long = arithmetic to_llong llong_range (- (2 ^ 63))"

definition get_int :: "json \<Rightarrow> int outcome" where
  "get_int = arithmetic to_int32 int_range (- (2 ^ 31))"

text \<open>A \<^verbatim>\<open>std::vector\<close> of elements that each convert.\<close>

fun convert_all :: "(json \<Rightarrow> 'a outcome) \<Rightarrow> json list \<Rightarrow> 'a list outcome" where
  "convert_all f [] = Inr []"
| "convert_all f (j # js) =
     (case f j of Inl e \<Rightarrow> Inl e
      | Inr x \<Rightarrow> (case convert_all f js of Inl e \<Rightarrow> Inl e | Inr xs \<Rightarrow> Inr (x # xs)))"

definition get_vector :: "(json \<Rightarrow> 'a outcome) \<Rightarrow> json \<Rightarrow> 'a list outcome" where
  "get_vector f j = (case j of JArray js \<Rightarrow> convert_all f js | _ \<Rightarrow> Inl JsonError)"

text \<open>\<^verbatim>\<open>value\<close> with a default of type \<^verbatim>\<open>long long\<close>.\<close>

definition value_long_long :: "json \<Rightarrow> string \<Rightarrow> int \<Rightarrow> int outcome" where
  "value_long_long j k default_value =
     (case j of JObject m \<Rightarrow> (case map_of m k of None \<Rightarrow> Inr default_value | Some v \<Rightarrow> get_long_long v)
      | _ \<Rightarrow> Inl JsonError)"

text \<open>The range of a \<^verbatim>\<open>for\<close> over a value: null is empty, anything but a container is one element.\<close>

definition elements :: "json \<Rightarrow> json list" where
  "elements j = (case j of JNull \<Rightarrow> [] | JArray js \<Rightarrow> js | JObject m \<Rightarrow> map snd m | _ \<Rightarrow> [j])"

section \<open>The parser\<close>

text \<open>
  The stack of \<^verbatim>\<open>sax_parse_internal\<close> (array or object) and the stack of the handler that
  builds the value (\<^verbatim>\<open>ref_stack\<close> and \<^verbatim>\<open>object_element\<close>) grow and shrink together: they
  are one list here, each container with what it holds so far. A failure keeps the value as far as
  it was built: \<^verbatim>\<open>operator>>\<close> leaves it in its argument.
\<close>

datatype frame = ArrayFrame "json list" | ObjectFrame "(string \<times> json) list" string

datatype parsed = Parsed json string | Failed json

fun plug :: "frame list \<Rightarrow> json \<Rightarrow> json" where
  "plug [] v = v"
| "plug (ArrayFrame xs # fs) v = plug fs (JArray (xs @ [v]))"
| "plug (ObjectFrame m k # fs) v = plug fs (JObject (assign k v m))"

text \<open>The value built so far where the innermost container waits for its next element.\<close>

fun built :: "frame list \<Rightarrow> json" where
  "built [] = JNull"
| "built (ArrayFrame xs # fs) = plug fs (JArray xs)"
| "built (ObjectFrame m k # fs) = plug fs (JObject (emplace k JNull m))"

text \<open>The key and the colon of a member; \<open>None\<close> is a parse error, met with the key already stored
  or not.\<close>

definition read_key :: "token \<Rightarrow> string \<Rightarrow> (string \<times> string) option \<times> string option" where
  "read_key t s =
     (case t of
        ValueString k \<Rightarrow>
          (case scan s of (NameSeparator, s') \<Rightarrow> (Some (k, s'), Some k) | _ \<Rightarrow> (None, Some k))
      | _ \<Rightarrow> (None, None))"

definition with_key :: "string option \<Rightarrow> (string \<times> json) list \<Rightarrow> (string \<times> json) list" where
  "with_key k m = (case k of None \<Rightarrow> m | Some k \<Rightarrow> emplace k JNull m)"

definition leaf :: "token \<Rightarrow> json option" where
  "leaf t =
     (case t of
        LiteralNull \<Rightarrow> Some JNull
      | LiteralTrue \<Rightarrow> Some (JBool True)
      | LiteralFalse \<Rightarrow> Some (JBool False)
      | ValueString s \<Rightarrow> Some (JString s)
      | ValueUnsigned n \<Rightarrow> Some (JUnsigned n)
      | ValueInteger n \<Rightarrow> Some (JInteger n)
      | ValueFloat x \<Rightarrow> map_option JFloat x
      | _ \<Rightarrow> None)"

definition weight :: "token \<Rightarrow> nat" where
  "weight t = (if t = EndOfInput \<or> t = ParseError then 0 else 2)"

definition parse_measure :: "frame list \<times> token \<times> string + frame list \<times> json \<times> string \<Rightarrow> nat" where
  "parse_measure x =
     (case x of Inl (fs, t, s) \<Rightarrow> 3 * length s + weight t | Inr (fs, v, s) \<Rightarrow> 3 * length s + 1)"

lemma read_key_shorter: "read_key t s = (Some (k, s'), k') \<Longrightarrow> length s' \<le> length s"
  by (auto simp: read_key_def split: token.splits prod.splits dest: scan_shorter(1))

lemma scan_weight:
  "scan s = (t, s') \<Longrightarrow> length s' \<le> length s \<and> (weight t = 0 \<or> weight t = 2 \<and> length s' < length s)"
  using scan_shorter [of s t s'] by (auto simp: weight_def)

lemma weight_simps [simp]:
  "weight BeginObject = 2" "weight BeginArray = 2" "weight EndObject = 2" "weight EndArray = 2"
  "weight ValueSeparator = 2"
  by (simp_all add: weight_def)

lemma leaf_weight: "leaf t = Some v \<Longrightarrow> weight t = 2"
  by (auto simp: leaf_def weight_def split: token.splits)

text \<open>
  The loop, entered with a token just read (\<open>parse_value\<close>) or with a value just completed, that
  is at the state evaluation (\<open>after_value\<close>).
\<close>

function parse_value :: "frame list \<Rightarrow> token \<Rightarrow> string \<Rightarrow> parsed"
  and after_value :: "frame list \<Rightarrow> json \<Rightarrow> string \<Rightarrow> parsed" where
  "parse_value fs t s =
     (if t = BeginObject then
        (case scan s of (t', s') \<Rightarrow>
           if t' = EndObject then after_value fs (JObject []) s'
           else (case read_key t' s' of
               (None, k) \<Rightarrow> Failed (plug fs (JObject (with_key k [])))
             | (Some (k, s''), _) \<Rightarrow>
                 (case scan s'' of (t'', s3) \<Rightarrow> parse_value (ObjectFrame [] k # fs) t'' s3)))
      else if t = BeginArray then
        (case scan s of (t', s') \<Rightarrow>
           if t' = EndArray then after_value fs (JArray []) s'
           else parse_value (ArrayFrame [] # fs) t' s')
      else case leaf t of None \<Rightarrow> Failed (built fs) | Some v \<Rightarrow> after_value fs v s)"
| "after_value [] v s = Parsed v s"
| "after_value (ArrayFrame xs # fs) v s =
     (case scan s of (t, s') \<Rightarrow>
        if t = ValueSeparator then
          (case scan s' of (t', s'') \<Rightarrow> parse_value (ArrayFrame (xs @ [v]) # fs) t' s'')
        else if t = EndArray then after_value fs (JArray (xs @ [v])) s'
        else Failed (plug fs (JArray (xs @ [v]))))"
| "after_value (ObjectFrame m k # fs) v s =
     (case scan s of (t, s') \<Rightarrow>
        if t = ValueSeparator then
          (case scan s' of (t', s'') \<Rightarrow>
             (case read_key t' s'' of
                (None, k') \<Rightarrow> Failed (plug fs (JObject (with_key k' (assign k v m))))
              | (Some (k', s3), _) \<Rightarrow>
                  (case scan s3 of (t'', s4) \<Rightarrow> parse_value (ObjectFrame (assign k v m) k' # fs) t'' s4)))
        else if t = EndObject then after_value fs (JObject (assign k v m)) s'
        else Failed (plug fs (JObject (assign k v m))))"
  by pat_completeness auto
termination
  by (relation "measure parse_measure";
    (auto simp: parse_measure_def dest!: sym [of _ "scan _"] sym [of _ "read_key _ _"])?;
    (fastforce dest: scan_weight read_key_shorter leaf_weight)?)

definition sax_parse_internal :: "string \<Rightarrow> parsed" where
  "sax_parse_internal s =
     (case skip_bom s of
        None \<Rightarrow> Failed JNull
      | Some s' \<Rightarrow> (case scan s' of (t, s'') \<Rightarrow> parse_value [] t s''))"

text \<open>\<^verbatim>\<open>json::parse\<close>: the end of the input must follow, for which a null byte passes.\<close>

definition parse :: "string \<Rightarrow> json outcome" where
  "parse s =
     (case sax_parse_internal s of
        Failed _ \<Rightarrow> Inl JsonError
      | Parsed v r \<Rightarrow> if fst (scan r) = EndOfInput then Inr v else Inl JsonError)"

text \<open>\<^verbatim>\<open>stream >> value\<close>: not strict. The value is what the argument holds afterwards, also when
  the exception leaves it half built.\<close>

definition read_stream :: "string \<Rightarrow> unit outcome \<times> json" where
  "read_stream s =
     (case sax_parse_internal s of Failed v \<Rightarrow> (Inl JsonError, v) | Parsed v r \<Rightarrow> (Inr (), v))"

end
