(* ===== verification/Json_Dump.thy ===== *)
theory Json_Dump
  imports Json
begin

text \<open>
  The serializer of \<^verbatim>\<open>common/json.hpp\<close>, compact and indented, with the default error handler:
  a string that is not UTF-8 raises an exception.
\<close>

section \<open>Decoding UTF-8\<close>

text \<open>The two parts of the table \<^verbatim>\<open>utf8d\<close>: the class of a byte, and the next state for a state
  and a class. State 0 accepts, state 1 rejects.\<close>

definition byte_class :: "nat \<Rightarrow> nat" where
  "byte_class b =
     (if b < 128 then 0 else if b < 144 then 1 else if b < 160 then 9 else if b < 192 then 7
      else if b < 194 then 8 else if b < 224 then 2
      else [10, 3, 3, 3, 3, 3, 3, 3, 3, 3, 3, 3, 3, 4, 3, 3,
            11, 6, 6, 6, 5, 8, 8, 8, 8, 8, 8, 8, 8, 8, 8, 8] ! (b - 224))"

definition state_row :: "nat \<Rightarrow> nat list" where
  "state_row st =
     [[0, 1, 2, 3, 5, 8, 7, 1, 1, 1, 4, 6, 1, 1, 1, 1],
      [1, 1, 1, 1, 1, 1, 1, 1, 1, 1, 1, 1, 1, 1, 1, 1],
      [1, 0, 1, 1, 1, 1, 1, 0, 1, 0, 1, 1, 1, 1, 1, 1],
      [1, 2, 1, 1, 1, 1, 1, 2, 1, 2, 1, 1, 1, 1, 1, 1],
      [1, 1, 1, 1, 1, 1, 1, 2, 1, 1, 1, 1, 1, 1, 1, 1],
      [1, 2, 1, 1, 1, 1, 1, 1, 1, 2, 1, 1, 1, 1, 1, 1],
      [1, 1, 1, 1, 1, 1, 1, 3, 1, 3, 1, 1, 1, 1, 1, 1],
      [1, 3, 1, 1, 1, 1, 1, 3, 1, 3, 1, 1, 1, 1, 1, 1],
      [1, 3, 1, 1, 1, 1, 1, 1, 1, 1, 1, 1, 1, 1, 1, 1]] ! st"

definition decode :: "nat \<Rightarrow> nat \<Rightarrow> nat \<Rightarrow> nat \<times> nat" where
  "decode st cp b =
     (state_row st ! byte_class b,
      if st \<noteq> 0 then cp * 64 + b mod 64 else b mod 2 ^ (8 - byte_class b))"

section \<open>Strings\<close>

text \<open>The text for a code point that was completed by the byte \<open>c\<close>.\<close>

definition escape :: "nat \<Rightarrow> char \<Rightarrow> string" where
  "escape cp c =
     (if cp = 8 then [CHR 92, CHR ''b'']
      else if cp = 9 then [CHR 92, CHR ''t'']
      else if cp = 10 then [CHR 92, CHR ''n'']
      else if cp = 12 then [CHR 92, CHR ''f'']
      else if cp = 13 then [CHR 92, CHR ''r'']
      else if cp = 34 then [CHR 92, CHR 34]
      else if cp = 92 then [CHR 92, CHR 92]
      else if cp \<le> 31
        then [CHR 92, CHR ''u'', CHR ''0'', CHR ''0'', digit_char (cp div 16), digit_char (cp mod 16)]
      else [c])"

text \<open>The loop of \<^verbatim>\<open>dump_escaped\<close>; \<open>None\<close> is the exception.\<close>

fun dump_from :: "nat \<Rightarrow> nat \<Rightarrow> string \<Rightarrow> string option" where
  "dump_from st cp [] = (if st = 0 then Some [] else None)"
| "dump_from st cp (c # s) =
     (case decode st cp (code c) of
        (st', cp') \<Rightarrow>
          if st' = 0 then map_option (\<lambda>t. escape cp' c @ t) (dump_from st' cp' s)
          else if st' = 1 then None
          else map_option (\<lambda>t. c # t) (dump_from st' cp' s))"

definition dump_escaped :: "string \<Rightarrow> string option" where
  "dump_escaped s = dump_from 0 0 s"

section \<open>Integers\<close>

function count_digits_from :: "int \<Rightarrow> nat \<Rightarrow> nat" where
  "count_digits_from x n =
     (if x < 10 then n else if x < 100 then n + 1 else if x < 1000 then n + 2
      else if x < 10000 then n + 3 else count_digits_from (x div 10000) (n + 4))"
  by pat_completeness auto
termination
  by (relation "measure (\<lambda>(x, n). nat x)") auto

declare count_digits_from.simps [simp del]

definition count_digits :: "int \<Rightarrow> nat" where
  "count_digits x = count_digits_from x 1"

definition digits_to_99 :: "int \<Rightarrow> string" where
  "digits_to_99 i = [digit_char (nat (i div 10)), digit_char (nat (i mod 10))]"

text \<open>What the loop has written in front of the end of the buffer, two digits at a time.\<close>

function write_pairs :: "int \<Rightarrow> string \<Rightarrow> string" where
  "write_pairs n written =
     (if 100 \<le> n then write_pairs (n div 100) (digits_to_99 (n mod 100) @ written)
      else if 10 \<le> n then digits_to_99 n @ written
      else char_of (48 + nat n) # written)"
  by pat_completeness auto
termination
  by (relation "measure (\<lambda>(n, w). nat n)") auto

declare write_pairs.simps [simp del]

text \<open>The first \<open>n_chars\<close> bytes of the buffer, which holds zero bytes where nothing was written.\<close>

definition dump_integer :: "int \<Rightarrow> string" where
  "dump_integer x =
     (if x = 0 then ''0''
      else let abs_value = (if x < 0 then - (x + 1) + 1 else x);
               sign = (if x < 0 then ''-'' else []);
               n_chars = length sign + count_digits abs_value;
               digits = write_pairs abs_value []
        in sign @ replicate (n_chars - length sign - length digits) (char_of (0::nat)) @ digits)"

section \<open>Values\<close>

text \<open>
  \<^verbatim>\<open>dump(indent)\<close> is \<open>pretty\<close> with the step \<open>indent\<close>, \<^verbatim>\<open>dump()\<close> compact. The printing of a
  floating-point number is a parameter.
\<close>

definition spaces :: "nat \<Rightarrow> string" where
  "spaces n = replicate n (CHR '' '')"

definition glue :: "string option \<Rightarrow> string option \<Rightarrow> string option" where
  "glue a b = (case a of None \<Rightarrow> None | Some s \<Rightarrow> map_option (\<lambda>t. s @ t) b)"

definition quoted :: "string \<Rightarrow> string option" where
  "quoted s = map_option (\<lambda>t. CHR 34 # t @ [CHR 34]) (dump_escaped s)"

fun dump_value :: "(double \<Rightarrow> string) \<Rightarrow> bool \<Rightarrow> nat \<Rightarrow> nat \<Rightarrow> json \<Rightarrow> string option"
  and dump_elements :: "(double \<Rightarrow> string) \<Rightarrow> bool \<Rightarrow> nat \<Rightarrow> nat \<Rightarrow> json list \<Rightarrow> string option"
  and dump_members :: "(double \<Rightarrow> string) \<Rightarrow> bool \<Rightarrow> nat \<Rightarrow> nat \<Rightarrow> (string \<times> json) list \<Rightarrow> string option" where
  "dump_value fl pretty step cur (JObject m) =
     (if m = [] then Some ''{}''
      else if pretty then
        glue (Some (CHR ''{'' # [CHR 10]))
          (glue (dump_members fl pretty step (cur + step) m) (Some (CHR 10 # spaces cur @ ''}'')))
      else glue (Some ''{'') (glue (dump_members fl pretty step cur m) (Some ''}'')))"
| "dump_value fl pretty step cur (JArray xs) =
     (if xs = [] then Some ''[]''
      else if pretty then
        glue (Some (CHR ''['' # [CHR 10]))
          (glue (dump_elements fl pretty step (cur + step) xs) (Some (CHR 10 # spaces cur @ '']'')))
      else glue (Some ''['') (glue (dump_elements fl pretty step cur xs) (Some '']'')))"
| "dump_value fl pretty step cur (JString s) = quoted s"
| "dump_value fl pretty step cur (JBool b) = Some (if b then ''true'' else ''false'')"
| "dump_value fl pretty step cur (JInteger n) = Some (dump_integer n)"
| "dump_value fl pretty step cur (JUnsigned n) = Some (dump_integer n)"
| "dump_value fl pretty step cur (JFloat x) = Some (fl x)"
| "dump_value fl pretty step cur JNull = Some ''null''"
| "dump_elements fl pretty step cur [] = Some []"
| "dump_elements fl pretty step cur (x # xs) =
     glue (Some (if pretty then spaces cur else []))
       (glue (dump_value fl pretty step cur x)
         (if xs = [] then Some []
          else glue (Some (if pretty then CHR '','' # [CHR 10] else '',''))
            (dump_elements fl pretty step cur xs)))"
| "dump_members fl pretty step cur [] = Some []"
| "dump_members fl pretty step cur ((k, x) # m) =
     glue (Some (if pretty then spaces cur else []))
       (glue (quoted k)
         (glue (Some (if pretty then '': '' else '':''))
           (glue (dump_value fl pretty step cur x)
             (if m = [] then Some []
              else glue (Some (if pretty then CHR '','' # [CHR 10] else '',''))
                (dump_members fl pretty step cur m)))))"

definition as_outcome :: "string option \<Rightarrow> string outcome" where
  "as_outcome t = (case t of None \<Rightarrow> Inl JsonError | Some t \<Rightarrow> Inr t)"

definition dump :: "(double \<Rightarrow> string) \<Rightarrow> json \<Rightarrow> string outcome" where
  "dump fl j = as_outcome (dump_value fl False 0 0 j)"

definition dump_indent :: "(double \<Rightarrow> string) \<Rightarrow> nat \<Rightarrow> json \<Rightarrow> string outcome" where
  "dump_indent fl indent j = as_outcome (dump_value fl True indent 0 j)"

lemma byte_class_ranges:
  "b < 256 \<Longrightarrow> byte_class b =
     (if b < 128 then 0 else if b < 144 then 1 else if b < 160 then 9 else if b < 192 then 7
      else if b < 194 then 8 else if b < 224 then 2 else if b = 224 then 10 else if b \<le> 236 then 3
      else if b = 237 then 4 else if b \<le> 239 then 3 else if b = 240 then 11 else if b \<le> 243 then 6
      else if b = 244 then 5 else 8)"
proof (cases "b < 224")
  case False
  assume "b < 256"
  then have "b - 224 \<in> set [0..<32]" using False by auto
  then show ?thesis using False by (force simp: byte_class_def upt_rec)
qed (simp add: byte_class_def)

end
