(* ===== verification/Json_Strings.thy ===== *)
theory Json_Strings
  imports Json_Dump
begin

text \<open>
  What the serializer writes for a string, the lexer reads back byte for byte: the decoder of the
  one and the ranges of the other accept the same UTF-8.
\<close>

section \<open>Strings\<close>

lemma state_row_simps:
  "state_row 0 = [0, 1, 2, 3, 5, 8, 7, 1, 1, 1, 4, 6, 1, 1, 1, 1]"
  "state_row 2 = [1, 0, 1, 1, 1, 1, 1, 0, 1, 0, 1, 1, 1, 1, 1, 1]"
  "state_row 3 = [1, 2, 1, 1, 1, 1, 1, 2, 1, 2, 1, 1, 1, 1, 1, 1]"
  "state_row 4 = [1, 1, 1, 1, 1, 1, 1, 2, 1, 1, 1, 1, 1, 1, 1, 1]"
  "state_row 5 = [1, 2, 1, 1, 1, 1, 1, 1, 1, 2, 1, 1, 1, 1, 1, 1]"
  "state_row 6 = [1, 1, 1, 1, 1, 1, 1, 3, 1, 3, 1, 1, 1, 1, 1, 1]"
  "state_row 7 = [1, 3, 1, 1, 1, 1, 1, 3, 1, 3, 1, 1, 1, 1, 1, 1]"
  "state_row 8 = [1, 3, 1, 1, 1, 1, 1, 1, 1, 1, 1, 1, 1, 1, 1, 1]"
  by (simp_all add: state_row_def)

lemma escape_multibyte: "128 \<le> cp \<Longrightarrow> escape cp c = [c]"
  by (simp add: escape_def)

text \<open>The bytes that lead on from each state, and the lower bound they leave on the code point.\<close>

lemma next_state:
  "fst (decode 2 cp (code c)) = (if 128 \<le> code c \<and> code c \<le> 191 then 0 else 1)"
  "fst (decode 3 cp (code c)) = (if 128 \<le> code c \<and> code c \<le> 191 then 2 else 1)"
  "fst (decode 4 cp (code c)) = (if 160 \<le> code c \<and> code c \<le> 191 then 2 else 1)"
  "fst (decode 5 cp (code c)) = (if 128 \<le> code c \<and> code c \<le> 159 then 2 else 1)"
  "fst (decode 6 cp (code c)) = (if 144 \<le> code c \<and> code c \<le> 191 then 3 else 1)"
  "fst (decode 7 cp (code c)) = (if 128 \<le> code c \<and> code c \<le> 191 then 3 else 1)"
  "fst (decode 8 cp (code c)) = (if 128 \<le> code c \<and> code c \<le> 143 then 3 else 1)"
  using code_less [of c] by (simp_all add: decode_def state_row_simps byte_class_ranges)

lemma next_codepoint: "st \<noteq> 0 \<Longrightarrow> snd (decode st cp b) = cp * 64 + b mod 64"
  by (simp add: decode_def)

lemma dump_from_2:
  assumes "dump_from 2 cp s = Some out" and "2 \<le> cp"
  obtains c s' out' cp' where "s = c # s'" "128 \<le> code c" "code c \<le> 191" "out = c # out'"
    "dump_from 0 cp' s' = Some out'"
proof (cases s)
  case (Cons c s')
  obtain st' cp' where d: "decode 2 cp (code c) = (st', cp')" by fastforce
  have "st' = (if 128 \<le> code c \<and> code c \<le> 191 then 0 else 1)" "cp' = cp * 64 + code c mod 64"
    using next_state(1) [of cp c] next_codepoint [of 2 cp "code c"] d by simp_all
  then show thesis using assms Cons d that by (auto simp: escape_multibyte split: if_splits)
qed (use assms in simp)

lemma dump_from_more:
  assumes "dump_from st cp s = Some out" and "1 < st"
    and "\<And>c. fst (decode st cp (code c)) = (if lo \<le> code c \<and> code c \<le> hi then st' else 1)" and "1 < st'"
  obtains c s' out' where "s = c # s'" "lo \<le> code c" "code c \<le> hi" "out = c # out'"
    "dump_from st' (cp * 64 + code c mod 64) s' = Some out'"
proof (cases s)
  case (Cons c s')
  obtain t cp' where d: "decode st cp (code c) = (t, cp')" by fastforce
  have "t = (if lo \<le> code c \<and> code c \<le> hi then st' else 1)" "cp' = cp * 64 + code c mod 64"
    using assms(3) [of c] next_codepoint [of st cp "code c"] d assms(2) by simp_all
  then show thesis using assms Cons d that by (auto split: if_splits)
qed (use assms in simp)

lemma dump_from_3:
  assumes "dump_from 3 cp s = Some out" and "1 \<le> cp"
  obtains c d s' out' cp' where "s = c # d # s'" "128 \<le> code c" "code c \<le> 191" "128 \<le> code d" "code d \<le> 191"
    "out = c # d # out'" "dump_from 0 cp' s' = Some out'"
proof -
  obtain c s1 out1 where 1: "s = c # s1" "128 \<le> code c" "code c \<le> 191" "out = c # out1"
    "dump_from 2 (cp * 64 + code c mod 64) s1 = Some out1"
    using dump_from_more [OF assms(1) _ next_state(2)] by auto
  have "2 \<le> cp * 64 + code c mod 64" using assms(2) by linarith
  from dump_from_2 [OF 1(5) this] show thesis using 1 that by (metis (no_types))
qed

text \<open>The bytes after a lead byte, in the ranges that the lexer asks for.\<close>

definition lead_state :: "nat \<Rightarrow> nat" where
  "lead_state b = state_row 0 ! byte_class b"

definition in_ranges :: "(nat \<times> nat) list \<Rightarrow> string \<Rightarrow> bool" where
  "in_ranges = list_all2 (\<lambda>(lo, hi) c. lo \<le> code c \<and> code c \<le> hi)"

lemma in_ranges_Cons: "lo \<le> code c \<Longrightarrow> code c \<le> hi \<Longrightarrow> in_ranges rs bs \<Longrightarrow> in_ranges ((lo, hi) # rs) (c # bs)"
  by (simp add: in_ranges_def)

lemma in_ranges_Nil: "in_ranges [] []"
  by (simp add: in_ranges_def)

lemmas in_ranges_intros = in_ranges_Cons in_ranges_Nil

definition tail_read :: "(nat \<times> nat) list \<Rightarrow> string \<Rightarrow> string \<Rightarrow> bool" where
  "tail_read rs s out \<longleftrightarrow>
     (\<exists>bs s' out' cp'. in_ranges rs bs \<and> s = bs @ s' \<and> out = bs @ out' \<and> dump_from 0 cp' s' = Some out')"

lemma tail_read_Cons:
  "lo \<le> code c \<Longrightarrow> code c \<le> hi \<Longrightarrow> tail_read rs s out \<Longrightarrow> tail_read ((lo, hi) # rs) (c # s) (c # out)"
  unfolding tail_read_def by (metis append_Cons in_ranges_Cons)

lemma tail_read_Nil: "dump_from 0 cp s = Some out \<Longrightarrow> tail_read [] s out"
  unfolding tail_read_def by (metis append_Nil in_ranges_Nil)

lemma tail_2: "dump_from 2 cp s = Some out \<Longrightarrow> 2 \<le> cp \<Longrightarrow> tail_read [(128, 191)] s out"
  by (erule dump_from_2) (auto intro: tail_read_Cons tail_read_Nil)

lemma tail_step:
  assumes "dump_from st cp s = Some out" and "1 < st"
    and "\<And>c. fst (decode st cp (code c)) = (if lo \<le> code c \<and> code c \<le> hi then st' else 1)" and "1 < st'"
    and "\<And>b t u. lo \<le> b \<Longrightarrow> b \<le> hi \<Longrightarrow> dump_from st' (cp * 64 + b mod 64) t = Some u \<Longrightarrow> tail_read rs t u"
  shows "tail_read ((lo, hi) # rs) s out"
  using dump_from_more [OF assms(1-4)] assms(5) by (metis tail_read_Cons)

lemma tail_3: "dump_from 3 cp s = Some out \<Longrightarrow> 1 \<le> cp \<Longrightarrow> tail_read [(128, 191), (128, 191)] s out"
  by (rule tail_step [OF _ _ next_state(2)]) (auto intro: tail_2)

lemma mod_64_low: "128 \<le> b \<Longrightarrow> b \<le> 191 \<Longrightarrow> b mod 64 = b - (128 :: nat)"
  by (simp add: mod_if)

lemma tail_4: "dump_from 4 0 s = Some out \<Longrightarrow> tail_read [(160, 191), (128, 191)] s out"
  by (rule tail_step [OF _ _ next_state(3)]) (auto simp: mod_64_low intro!: tail_2)

lemma tail_5: "dump_from 5 13 s = Some out \<Longrightarrow> tail_read [(128, 159), (128, 191)] s out"
  by (rule tail_step [OF _ _ next_state(4)]) (auto intro!: tail_2)

lemma tail_6: "dump_from 6 0 s = Some out \<Longrightarrow> tail_read [(144, 191), (128, 191), (128, 191)] s out"
  by (rule tail_step [OF _ _ next_state(5)]) (auto simp: mod_64_low intro!: tail_3)

lemma tail_7: "dump_from 7 cp s = Some out \<Longrightarrow> 1 \<le> cp \<Longrightarrow> tail_read [(128, 191), (128, 191), (128, 191)] s out"
  by (rule tail_step [OF _ _ next_state(6)]) (auto intro!: tail_3)

lemma tail_8: "dump_from 8 4 s = Some out \<Longrightarrow> tail_read [(128, 143), (128, 191), (128, 191)] s out"
  by (rule tail_step [OF _ _ next_state(7)]) (auto intro!: tail_3)

lemma mod_ranges:
  fixes b :: nat
  shows "194 \<le> b \<Longrightarrow> b < 224 \<Longrightarrow> 2 \<le> b mod 64" and "225 \<le> b \<Longrightarrow> b \<le> 239 \<Longrightarrow> 1 \<le> b mod 32"
    and "241 \<le> b \<Longrightarrow> b \<le> 243 \<Longrightarrow> 1 \<le> b mod 4"
proof -
  show "2 \<le> b mod 64" if "194 \<le> b" "b < 224"
    using that mod_nat_eqI [of "b - 192" 64 b] by simp
  show "1 \<le> b mod 32" if "225 \<le> b" "b \<le> 239"
    using that mod_nat_eqI [of "b - 224" 32 b] by simp
  show "1 \<le> b mod 4" if "241 \<le> b" "b \<le> 243"
    using that mod_nat_eqI [of "b - 240" 4 b] by simp
qed

lemma lead_state_reject: "128 \<le> b \<Longrightarrow> b < 256 \<Longrightarrow> b < 194 \<or> 245 \<le> b \<Longrightarrow> lead_state b = 1"
  by (elim disjE) (simp_all add: lead_state_def state_row_simps byte_class_ranges)

lemma tail_bytes:
  assumes "dump_from (lead_state b) (b mod 2 ^ (8 - byte_class b)) s = Some out"
    and "128 \<le> b" and "b < 256" and "lead_state b \<noteq> 1"
  shows "\<exists>rs. tail_ranges b = Some rs \<and> tail_read rs s out"
proof -
  consider "194 \<le> b" "b < 224" | "b = 224" | "225 \<le> b" "b \<le> 239" "b \<noteq> 237" | "b = 237" | "b = 240"
    | "241 \<le> b" "b \<le> 243" | "b = 244"
    using assms(2-4) lead_state_reject [of b] by linarith
  then show ?thesis
  proof cases
    case 1
    then show ?thesis using assms(1) mod_ranges(1) [of b]
      by (simp add: lead_state_def state_row_simps byte_class_ranges tail_ranges_def tail_2)
  next
    case 3
    then show ?thesis using assms(1) mod_ranges(2) [of b]
      by (auto simp: lead_state_def state_row_simps byte_class_ranges tail_ranges_def intro: tail_3)
  next
    case 6
    then show ?thesis using assms(1) mod_ranges(3) [of b]
      by (simp add: lead_state_def state_row_simps byte_class_ranges tail_ranges_def tail_7)
  qed (use assms(1) in \<open>simp_all add: lead_state_def state_row_simps byte_class_ranges tail_ranges_def
      tail_4 tail_5 tail_6 tail_8\<close>)
qed

text \<open>One character of the text, scanned back.\<close>

definition scans_to :: "string \<Rightarrow> string \<Rightarrow> bool" where
  "scans_to e bs \<longleftrightarrow> (\<forall>r. \<exists>d u. e @ r = d # u \<and> d \<noteq> CHR 34 \<and> scan_char d u = Some (bs, r))"

lemma scans_to_step:
  "scans_to e bs \<Longrightarrow> scan_string (e @ t) = map_option (\<lambda>(cs, r). (bs @ cs, r)) (scan_string t)"
  unfolding scans_to_def by (elim allE [of _ t] exE conjE) simp

lemma code_eq_iff: "code c = code d \<longleftrightarrow> c = d"
  by (simp add: code_def)

lemma code_literal:
  "code c = 8 \<longleftrightarrow> c = CHR 8" "code c = 9 \<longleftrightarrow> c = CHR 9" "code c = 10 \<longleftrightarrow> c = CHR 10"
  "code c = 12 \<longleftrightarrow> c = CHR 12" "code c = 13 \<longleftrightarrow> c = CHR 13" "code c = 34 \<longleftrightarrow> c = CHR 34"
  "code c = 92 \<longleftrightarrow> c = CHR 92"
  by (simp_all add: code_eq_iff [symmetric]) (simp_all add: code_def)

lemma is_digit_0: "is_digit 16 (CHR ''0'')" "digit_of (CHR ''0'') = Some 0"
  by (simp_all add: is_digit_def digit_of_def code_def)

lemma take_4: "take 4 (a # b # c # d # r) = [a, b, c, d]" "drop 4 (a # b # c # d # r) = r"
  by (simp_all add: take_Cons' drop_Cons')

lemma nat_digits_16: "nat (int (n div 16) * 16 + int (n mod 16)) = n"
proof -
  have "int (n div 16) * 16 + int (n mod 16) = int (n div 16 * 16 + n mod 16)"
    by (simp only: of_nat_add of_nat_mult of_nat_numeral)
  then show ?thesis by (simp only: nat_int div_mult_mod_eq)
qed

lemma get_codepoint_control:
  "n < 256 \<Longrightarrow> get_codepoint (CHR ''0'' # CHR ''0'' # digit_char (n div 16) # digit_char (n mod 16) # r) = Some (n, r)"
  by (simp add: get_codepoint_def take_4 is_digit_0 digits_value_def nat_digits_16)

lemma scan_unicode_control:
  "n \<le> 31 \<Longrightarrow> scan_unicode (CHR ''0'' # CHR ''0'' # digit_char (n div 16) # digit_char (n mod 16) # r) =
     Some ([char_of n], r)"
  by (simp add: scan_unicode_def get_codepoint_control utf8_of_def)

lemma scans_to_short_escape: "code c \<in> {8, 9, 10, 12, 13, 34, 92} \<Longrightarrow> scans_to (escape (code c) c) [c]"
  by (elim insertE emptyE)
    (simp_all add: code_literal, simp_all add: scans_to_def escape_def scan_char_def scan_escape_def code_def)

lemma scans_to_control:
  assumes "code c \<notin> {8, 9, 10, 12, 13}" and "code c \<le> 31"
  shows "scans_to (escape (code c) c) [c]"
proof -
  have "escape (code c) c = CHR 92 # CHR ''u'' # CHR ''0'' # CHR ''0'' #
      [digit_char (code c div 16), digit_char (code c mod 16)]"
    using assms by (simp add: escape_def)
  moreover have "scan_char (CHR 92) (CHR ''u'' # s) = scan_unicode s" for s
    by (simp add: scan_char_def scan_escape_def)
  moreover have "char_of (code c) = c" by (simp add: code_def)
  ultimately show ?thesis using scan_unicode_control [OF assms(2)] by (simp add: scans_to_def)
qed

lemma scans_to_plain:
  assumes "code c \<notin> {34, 92}" and "31 < code c" and "code c < 128"
  shows "scans_to (escape (code c) c) [c]"
proof -
  have "escape (code c) c = [c]" using assms by (simp add: escape_def)
  moreover have "c \<noteq> CHR 34" "c \<noteq> CHR 92" using assms(1) code_literal [of c] by auto
  ultimately show ?thesis using assms by (simp add: scans_to_def scan_char_def)
qed

lemma scans_to_ascii: "code c < 128 \<Longrightarrow> scans_to (escape (code c) c) [c]"
  using scans_to_short_escape [of c] scans_to_control [of c] scans_to_plain [of c]
  by (cases "code c \<le> 31") (blast | simp)+

lemma scans_to_multibyte:
  "128 \<le> code c \<Longrightarrow> tail_ranges (code c) = Some rs \<Longrightarrow> in_ranges rs bs \<Longrightarrow> scans_to (c # bs) (c # bs)"
proof -
  assume "128 \<le> code c" "tail_ranges (code c) = Some rs" "in_ranges rs bs"
  moreover have "next_byte_in_range rs (bs @ r) = Some (bs, r)" for r
    using calculation(3) by (simp add: next_byte_in_range_eq in_ranges_def)
  moreover have "c \<noteq> CHR 34" "c \<noteq> CHR 92" using calculation(1) code_literal [of c] by auto
  ultimately show ?thesis by (simp add: scans_to_def scan_char_def)
qed

lemma lead_state_nonzero: "128 \<le> b \<Longrightarrow> b < 256 \<Longrightarrow> lead_state b \<noteq> 0"
  by (simp add: lead_state_def state_row_simps byte_class_ranges)

lemma dump_from_char:
  assumes "dump_from 0 cp (c # s) = Some out"
  shows "\<exists>e bs s' out' cp'. c # s = bs @ s' \<and> bs \<noteq> [] \<and> out = e @ out' \<and> scans_to e bs \<and>
    dump_from 0 cp' s' = Some out'"
proof (cases "code c < 128")
  case True
  then have "decode 0 cp (code c) = (0, code c)"
    by (simp add: decode_def state_row_simps byte_class_def)
  then have "\<exists>out'. out = escape (code c) c @ out' \<and> dump_from 0 (code c) s = Some out'"
    using assms by auto
  then show ?thesis using scans_to_ascii [OF True] by (metis append_Cons append_Nil list.distinct(1))
next
  case False
  then have b: "128 \<le> code c" by simp
  have d: "decode 0 cp (code c) = (lead_state (code c), code c mod 2 ^ (8 - byte_class (code c)))"
    by (simp add: decode_def lead_state_def)
  have "lead_state (code c) \<noteq> 0" by (rule lead_state_nonzero [OF b code_less])
  moreover have "lead_state (code c) \<noteq> 1" using assms d by auto
  ultimately obtain out1 where out: "out = c # out1"
    and rest: "dump_from (lead_state (code c)) (code c mod 2 ^ (8 - byte_class (code c))) s = Some out1"
    using assms d by auto
  from tail_bytes [OF rest b code_less] \<open>lead_state (code c) \<noteq> 1\<close>
  obtain rs bs s' out' cp' where "tail_ranges (code c) = Some rs" "in_ranges rs bs" "s = bs @ s'"
    "out1 = bs @ out'" "dump_from 0 cp' s' = Some out'"
    unfolding tail_read_def by blast
  then show ?thesis using out scans_to_multibyte [OF b] by (metis append_Cons list.distinct(1))
qed

lemma dump_from_scan: "dump_from 0 cp s = Some out \<Longrightarrow> scan_string (out @ CHR 34 # r) = Some (s, r)"
proof (induction "length s" arbitrary: s cp out rule: less_induct)
  case less
  show ?case
  proof (cases s)
    case Nil
    then show ?thesis using less.prems by simp
  next
    case (Cons c s1)
    with less.prems obtain e bs s' out' cp' where *: "s = bs @ s'" "bs \<noteq> []" "out = e @ out'" "scans_to e bs"
      "dump_from 0 cp' s' = Some out'"
      using dump_from_char [of cp c s1 out] by auto
    then have "scan_string (out' @ CHR 34 # r) = Some (s', r)" by (intro less.hyps) auto
    then show ?thesis using * scans_to_step by simp
  qed
qed

end
