(* ===== verification/Json_Roundtrip.thy ===== *)
theory Json_Roundtrip
  imports Json_Strings
begin

text \<open>
  What the serializer writes, the parser reads back: integers, which the serializer prints two
  digits at a time, and whole values, compact or indented.
\<close>

section \<open>Integers\<close>

lemma dec_small: "n < 10 \<Longrightarrow> dec n = [digit_char (nat n)]"
  by (subst dec.simps) simp

lemma dec_step: "10 \<le> n \<Longrightarrow> dec n = dec (n div 10) @ [digit_char (nat (n mod 10))]"
  by (subst dec.simps) simp

lemma dec_two: "10 \<le> n \<Longrightarrow> n < 100 \<Longrightarrow> dec n = digits_to_99 n"
  by (simp add: dec_step dec_small digits_to_99_def)

lemma dec_pair:
  assumes "100 \<le> n"
  shows "dec n = dec (n div 100) @ digits_to_99 (n mod 100)"
proof -
  have 1: "n div 10 div 10 = n div 100" by (simp add: zdiv_zmult2_eq [symmetric])
  have "n mod 100 = 10 * (n div 10 mod 10) + n mod 10" using zmod_zmult2_eq [of 10 n 10] by simp
  moreover have "(10 * q + r) div 10 = q" if "0 \<le> r" "r < 10" for q r :: int using that by simp
  ultimately have 2: "n mod 100 div 10 = n div 10 mod 10" by (metis pos_mod_bound pos_mod_sign zero_less_numeral)
  have 5: "n mod 100 mod 10 = n mod 10" by (simp add: mod_mod_cancel)
  have 3: "dec n = dec (n div 10) @ [digit_char (nat (n mod 10))]" by (rule dec_step) (use assms in linarith)
  have 4: "dec (n div 10) = dec (n div 10 div 10) @ [digit_char (nat (n div 10 mod 10))]"
    by (rule dec_step) (use assms in linarith)
  show ?thesis unfolding 3 4 digits_to_99_def 1 2 5 by (simp only: append.assoc append.simps)
qed

lemma write_pairs_dec: "0 \<le> n \<Longrightarrow> write_pairs n w = dec n @ w"
proof (induction n w rule: write_pairs.induct)
  case (1 n w)
  consider "n < 10" | "10 \<le> n" "n < 100" | "100 \<le> n" by linarith
  then show ?case
  proof cases
    case 1
    then show ?thesis using "1.prems"
      by (subst write_pairs.simps) (simp add: dec_small digit_char_def)
  next
    case 2
    then show ?thesis by (subst write_pairs.simps) (simp add: dec_two)
  next
    case 3
    then show ?thesis using "1.IH" by (subst write_pairs.simps) (simp add: dec_pair [OF 3])
  qed
qed

lemma length_dec_small: "n < 10 \<Longrightarrow> length (dec n) = 1"
  by (simp add: dec_small)

lemma length_dec_step: "10 ^ Suc k \<le> n \<Longrightarrow> length (dec (n div 10 ^ k)) = length (dec (n div 10 ^ Suc k)) + 1"
proof -
  assume "10 ^ Suc k \<le> n"
  then have "10 ^ Suc k div 10 ^ k \<le> n div 10 ^ k" by (intro zdiv_mono1) simp_all
  then have "10 \<le> n div 10 ^ k" by simp
  then show ?thesis by (subst dec_step) (simp_all add: zdiv_zmult2_eq [symmetric] mult.commute)
qed

lemma length_dec_steps:
  "10 \<le> n \<Longrightarrow> n < 100 \<Longrightarrow> length (dec n) = 2"
  "100 \<le> n \<Longrightarrow> n < 1000 \<Longrightarrow> length (dec n) = 3"
  "1000 \<le> n \<Longrightarrow> n < 10000 \<Longrightarrow> length (dec n) = 4"
  "10000 \<le> n \<Longrightarrow> length (dec n) = length (dec (n div 10000)) + 4"
  using length_dec_step [of 0 n] length_dec_step [of 1 n] length_dec_step [of 2 n] length_dec_step [of 3 n]
    length_dec_small [of "n div 10"] length_dec_small [of "n div 100"] length_dec_small [of "n div 1000"]
  by (simp_all add: eval_nat_numeral)

lemma count_digits_from_dec: "0 \<le> x \<Longrightarrow> 1 \<le> n \<Longrightarrow> count_digits_from x n = length (dec x) + n - 1"
proof (induction x n rule: count_digits_from.induct)
  case (1 x n)
  consider "x < 10" | "10 \<le> x" "x < 100" | "100 \<le> x" "x < 1000" | "1000 \<le> x" "x < 10000" | "10000 \<le> x"
    by linarith
  then show ?case
  proof cases
    case 5
    then have "count_digits_from x n = count_digits_from (x div 10000) (n + 4)"
      by (subst count_digits_from.simps) simp
    also have "\<dots> = length (dec (x div 10000)) + (n + 4) - 1" using 1 5 by (intro "1.IH") simp_all
    finally show ?thesis using length_dec_steps(4) [OF 5] by simp
  qed (use 1 in \<open>subst count_digits_from.simps; simp add: dec_small length_dec_steps\<close>)+
qed

lemma digit_char_zero: "digit_char 0 = CHR ''0''"
  by (simp add: digit_char_def flip: code_eq_iff) (simp add: code_def)

lemma dump_integer_to_string: "dump_integer x = to_string x"
proof (cases "x = 0")
  case True
  then show ?thesis by (simp add: dump_integer_def to_string_def dec_small digit_char_zero)
next
  case False
  then show ?thesis
    by (simp add: dump_integer_def Let_def to_string_def write_pairs_dec count_digits_def count_digits_from_dec)
qed

section \<open>Scanning integers\<close>

text \<open>What may follow a number in the text of a value.\<close>

definition ends_number :: "string \<Rightarrow> bool" where
  "ends_number r \<longleftrightarrow> r = [] \<or> \<not> is_digit 10 (hd r) \<and> hd r \<notin> {CHR ''.'', CHR ''e'', CHR ''E''}"

lemma scan_number_any1_digits:
  "\<forall>c\<in>set ds. is_digit 10 c \<Longrightarrow> ends_number r \<Longrightarrow> scan_number_any1 (ds @ r) = Some (False, ds, r)"
  by (induction ds) (cases r; simp add: ends_number_def add_def)+

lemma hd_dec_positive: "0 < n \<Longrightarrow> hd (dec n) \<noteq> CHR ''0''"
proof (induction n rule: dec.induct)
  case (1 n)
  show ?case
  proof (cases "n < 10")
    case True
    then have "code (digit_char (nat n)) \<noteq> code (CHR ''0'')" using "1.prems" by (simp add: code_digit_char, simp add: code_def)
    then show ?thesis using True by (auto simp: dec_small)
  next
    case False
    then show ?thesis using 1 by (simp add: dec_step)
  qed
qed

lemma is_digit_facts:
  assumes "is_digit 10 c"
  shows "c \<notin> {CHR ''['', CHR '']'', CHR ''{'', CHR ''}'', CHR '':'', CHR '','', CHR ''t'', CHR ''f'', CHR ''n'',
      CHR 34, CHR ''-''}" "\<not> is_json_space c" "code c \<noteq> 0"
  using assms by (auto simp: is_digit_def digit_of_def code_def is_json_space_def split: if_splits option.splits)

lemma scan_dec:
  assumes "0 \<le> n" and "ends_number r"
  shows "scan (dec n @ r) = (number_token False (dec n), r)"
proof -
  obtain c ds where n: "dec n = c # ds" by (cases "dec n") auto
  have digits: "is_digit 10 c" "\<forall>d\<in>set ds. is_digit 10 d" using dec_all_digits [OF assms(1)] n by auto
  have "scan (dec n @ r) = scan_number c (ds @ r)"
    using n is_digit_facts [OF digits(1)] digits(1) by (simp add: scan_def skip_whitespace_def)
  also have "\<dots> = (number_token False (dec n), r)"
  proof (cases "n = 0")
    case True
    then show ?thesis using n assms(2) 
      by (cases r) (auto simp: dec_small digit_char_zero scan_number_def scan_number_zero_def ends_number_def add_def)
  next
    case False
    then have "c \<noteq> CHR ''0''" using hd_dec_positive [of n] assms(1) n by simp
    then show ?thesis using is_digit_facts(1) [OF digits(1)] scan_number_any1_digits [OF digits(2) assms(2)] n
      by (simp add: scan_number_def add_def)
  qed
  finally show ?thesis .
qed

lemma scan_minus_dec:
  assumes "0 < n" and "ends_number r"
  shows "scan (CHR ''-'' # dec n @ r) = (number_token False (CHR ''-'' # dec n), r)"
proof -
  obtain c ds where n: "dec n = c # ds" by (cases "dec n") auto
  have digits: "is_digit 10 c" "\<forall>d\<in>set ds. is_digit 10 d" using dec_all_digits [of n] assms(1) n by auto
  have "c \<noteq> CHR ''0''" using hd_dec_positive [OF assms(1)] n by simp
  then show ?thesis using scan_number_any1_digits [OF digits(2) assms(2)] digits(1) n
    by (simp add: scan_def skip_whitespace_def is_json_space_def scan_number_def scan_number_minus_def add_def)
qed

definition integer_token :: "int \<Rightarrow> token" where
  "integer_token n = (if n < 0 then ValueInteger n else ValueUnsigned n)"

lemma scan_integer:
  assumes "- (2 ^ 63) \<le> n" and "n < 2 ^ 64" and "ends_number r"
  shows "scan (dump_integer n @ r) = (integer_token n, r)"
proof (cases "n < 0")
  case True
  then show ?thesis using assms scan_minus_dec [of "- n" r]
    by (simp add: dump_integer_to_string to_string_def number_token_def drop_sign_def signed_def integer_token_def)
next
  case False
  then show ?thesis using assms scan_dec [of n r] drop_sign_dec [of n "[]"]
    by (simp add: dump_integer_to_string to_string_def number_token_def signed_def integer_token_def)
qed

section \<open>Values\<close>

text \<open>
  The values that the text determines: objects with their keys in order, integers within their
  types, no floating-point number. A non-negative integer comes back as the unsigned one.
\<close>

primrec readable :: "json \<Rightarrow> bool" where
  "readable JNull = True"
| "readable (JBool b) = True"
| "readable (JInteger n) = llong_range n"
| "readable (JUnsigned n) = (0 \<le> n \<and> n < 2 ^ 64)"
| "readable (JFloat x) = False"
| "readable (JString s) = True"
| "readable (JArray xs) = list_all id (map readable xs)"
| "readable (JObject m) = (sorted_wrt (<) (map fst m) \<and> list_all snd (map (map_prod id readable) m))"

primrec as_read :: "json \<Rightarrow> json" where
  "as_read JNull = JNull"
| "as_read (JBool b) = JBool b"
| "as_read (JInteger n) = (if 0 \<le> n then JUnsigned n else JInteger n)"
| "as_read (JUnsigned n) = JUnsigned n"
| "as_read (JFloat x) = JFloat x"
| "as_read (JString s) = JString s"
| "as_read (JArray xs) = JArray (map as_read xs)"
| "as_read (JObject m) = JObject (map (map_prod id as_read) m)"

lemma scan_space: "is_json_space c \<Longrightarrow> scan (c # s) = scan s"
  by (simp add: scan_def skip_whitespace_def)

lemma json_space_literal: "is_json_space (CHR 10)" "is_json_space (CHR '' '')"
  by (simp_all add: is_json_space_def)

lemma scan_spaces: "scan (spaces n @ s) = scan s"
  by (induction n) (simp_all add: spaces_def scan_space json_space_literal)

lemma glue_eq: "glue a b = Some t \<longleftrightarrow> (\<exists>u v. a = Some u \<and> b = Some v \<and> t = u @ v)"
  by (auto simp: glue_def split: option.splits)

lemma scan_structural:
  "scan (CHR ''['' # s) = (BeginArray, s)" "scan (CHR '']'' # s) = (EndArray, s)"
  "scan (CHR ''{'' # s) = (BeginObject, s)" "scan (CHR ''}'' # s) = (EndObject, s)"
  "scan (CHR '':'' # s) = (NameSeparator, s)" "scan (CHR '','' # s) = (ValueSeparator, s)"
  by (simp_all add: scan_def skip_whitespace_def is_json_space_def)

lemma scan_quoted: "quoted k = Some q \<Longrightarrow> scan (q @ r) = (ValueString k, r)"
  by (auto simp: quoted_def dump_escaped_def dump_from_scan scan_def skip_whitespace_def is_json_space_def is_digit_def
      digit_of_def code_def)

lemma scan_literals:
  "scan (''true'' @ r) = (LiteralTrue, r)" "scan (''false'' @ r) = (LiteralFalse, r)"
  "scan (''null'' @ r) = (LiteralNull, r)"
  by (simp_all add: scan_def skip_whitespace_def is_json_space_def scan_literal_def)

lemmas scan_literal_chars = scan_literals [simplified]

text \<open>A text that the parser takes for the value, wherever it stands.\<close>

definition reads :: "string \<Rightarrow> json \<Rightarrow> bool" where
  "reads out v \<longleftrightarrow> (\<forall>fs r. ends_number r \<longrightarrow>
     (\<exists>t s. scan (out @ r) = (t, s) \<and> t \<noteq> EndArray \<and> parse_value fs t s = after_value fs v r))"

definition reads_elements :: "string \<Rightarrow> json list \<Rightarrow> bool" where
  "reads_elements out vs \<longleftrightarrow> (\<forall>fs acc r w. list_all is_json_space w \<longrightarrow>
     (\<exists>t s. scan (out @ w @ CHR '']'' # r) = (t, s) \<and> t \<noteq> EndArray \<and>
       parse_value (ArrayFrame acc # fs) t s = after_value fs (JArray (acc @ vs)) r))"

definition parse_member :: "(string \<times> json) list \<Rightarrow> string \<Rightarrow> frame list \<Rightarrow> string \<Rightarrow> parsed" where
  "parse_member acc k fs s = (case scan s of (t, s') \<Rightarrow> parse_value (ObjectFrame acc k # fs) t s')"

definition reads_members :: "string \<Rightarrow> (string \<times> json) list \<Rightarrow> bool" where
  "reads_members out m \<longleftrightarrow> (\<forall>fs acc r w. list_all is_json_space w \<longrightarrow>
     (\<exists>t s k s'. scan (out @ w @ CHR ''}'' # r) = (t, s) \<and> t \<noteq> EndObject \<and> read_key t s = (Some (k, s'), Some k) \<and>
       parse_member acc k fs s' =
         after_value fs (JObject (foldl (\<lambda>m (k, v). assign k v m) acc m)) r))"

lemma reads_leaf:
  assumes "\<And>r. ends_number r \<Longrightarrow> scan (out @ r) = (t, r)" and "leaf t = Some v"
  shows "reads out v"
proof -
  have "t \<noteq> BeginObject" "t \<noteq> BeginArray" "t \<noteq> EndArray" using assms(2) by (auto simp: leaf_def)
  then show ?thesis using assms by (simp add: reads_def)
qed

lemma reads_space: "list_all is_json_space w \<Longrightarrow> scan (w @ s) = scan s"
  by (induction w) (simp_all add: scan_space)

lemma ends_number_simps:
  "ends_number (CHR '','' # s)" "ends_number (CHR '']'' # s)" "ends_number (CHR ''}'' # s)" "ends_number (CHR 10 # s)"
  "ends_number []"
  by (simp_all add: ends_number_def is_digit_def digit_of_def code_def)

lemma ends_number_spaces: "list_all is_json_space w \<Longrightarrow> ends_number s \<Longrightarrow> ends_number (w @ s)"
  by (cases w) (auto simp: ends_number_def is_json_space_def is_digit_def digit_of_def code_def)

lemma list_all_spaces: "list_all is_json_space (spaces n)"
  by (simp add: spaces_def list_all_iff json_space_literal)

lemma reads_elements_last:
  assumes "reads v x" and "list_all is_json_space w"
  shows "reads_elements (w @ v) [x]"
  unfolding reads_elements_def
proof (intro allI impI)
  fix fs acc r w'
  assume w': "list_all is_json_space w'"
  then have "ends_number (w' @ CHR '']'' # r)" by (intro ends_number_spaces ends_number_simps)
  then obtain t s where "scan (v @ w' @ CHR '']'' # r) = (t, s)" "t \<noteq> EndArray"
    "parse_value (ArrayFrame acc # fs) t s = after_value (ArrayFrame acc # fs) x (w' @ CHR '']'' # r)"
    using assms(1) unfolding reads_def by meson
  then show "\<exists>t s. scan ((w @ v) @ w' @ CHR '']'' # r) = (t, s) \<and> t \<noteq> EndArray \<and>
      parse_value (ArrayFrame acc # fs) t s = after_value fs (JArray (acc @ [x])) r"
    by (simp add: reads_space assms(2) w' scan_structural)
qed

lemma reads_elements_more:
  assumes "reads v x" and "list_all is_json_space w" and "reads_elements out xs" and "list_all is_json_space w1"
  shows "reads_elements (w @ v @ CHR '','' # w1 @ out) (x # xs)"
  unfolding reads_elements_def
proof (intro allI impI)
  fix fs acc r w'
  assume w': "list_all is_json_space w'"
  let ?rest = "w1 @ out @ w' @ CHR '']'' # r"
  obtain t s where 1: "scan (v @ CHR '','' # ?rest) = (t, s)" "t \<noteq> EndArray"
    "parse_value (ArrayFrame acc # fs) t s = after_value (ArrayFrame acc # fs) x (CHR '','' # ?rest)"
    using assms(1) ends_number_simps(1) unfolding reads_def by meson
  obtain t' s' where 2: "scan ?rest = (t', s')"
    "parse_value (ArrayFrame (acc @ [x]) # fs) t' s' = after_value fs (JArray ((acc @ [x]) @ xs)) r"
    using assms(3,4) w' reads_space unfolding reads_elements_def by metis
  show "\<exists>t s. scan ((w @ v @ CHR '','' # w1 @ out) @ w' @ CHR '']'' # r) = (t, s) \<and> t \<noteq> EndArray \<and>
      parse_value (ArrayFrame acc # fs) t s = after_value fs (JArray (acc @ x # xs)) r"
    using 1 2 by (simp add: reads_space assms(2) scan_structural)
qed

lemma read_key_quoted: "scan s = (NameSeparator, s') \<Longrightarrow> read_key (ValueString k) s = (Some (k, s'), Some k)"
  by (simp add: read_key_def)

lemma parse_object:
  assumes "scan s = (t, s1)" and "t \<noteq> EndObject" and "read_key t s1 = (Some (k, s2), Some k)"
  shows "parse_value fs BeginObject s = parse_member [] k fs s2"
  by (subst parse_value.simps) (simp add: assms parse_member_def del: parse_value.simps)

lemma after_member:
  assumes "scan s = (t, s1)" and "read_key t s1 = (Some (k', s2), Some k')"
  shows "after_value (ObjectFrame acc k # fs) v (CHR '','' # s) = parse_member (assign k v acc) k' fs s2"
  by (simp add: assms parse_member_def scan_structural del: parse_value.simps)

lemma reads_member:
  assumes "reads v x" and "quoted k = Some q" and "list_all is_json_space w" and "list_all is_json_space w1"
    and "ends_number r"
    and "after_value (ObjectFrame acc k # fs) x r = result"
  shows "\<exists>t s k' s'. scan (w @ q @ CHR '':'' # w1 @ v @ r) = (t, s) \<and> t \<noteq> EndObject \<and>
    read_key t s = (Some (k', s'), Some k') \<and>
    parse_member acc k' fs s' = result"
proof -
  obtain t s where "scan (v @ r) = (t, s)" "parse_value (ObjectFrame acc k # fs) t s = result"
    using assms(1,5,6) unfolding reads_def by metis
  then show ?thesis
    by (simp add: reads_space assms(3,4) scan_quoted [OF assms(2)] read_key_quoted [OF scan_structural(5)]
        parse_member_def del: parse_value.simps)
qed

lemma reads_members_last:
  assumes "reads v x" and "quoted k = Some q" and "list_all is_json_space w" and "list_all is_json_space w1"
  shows "reads_members (w @ q @ CHR '':'' # w1 @ v) [(k, x)]"
  unfolding reads_members_def
proof (intro allI impI)
  fix fs acc r w'
  assume w': "list_all is_json_space w'"
  have "ends_number (w' @ CHR ''}'' # r)" using w' by (intro ends_number_spaces ends_number_simps)
  moreover have "after_value (ObjectFrame acc k # fs) x (w' @ CHR ''}'' # r) =
      after_value fs (JObject (foldl (\<lambda>m (k, v). assign k v m) acc [(k, x)])) r"
    by (simp add: reads_space w' scan_structural)
  ultimately show "\<exists>t s k' s'. scan ((w @ q @ CHR '':'' # w1 @ v) @ w' @ CHR ''}'' # r) = (t, s) \<and> t \<noteq> EndObject \<and>
      read_key t s = (Some (k', s'), Some k') \<and>
      parse_member acc k' fs s' =
        after_value fs (JObject (foldl (\<lambda>m (k, v). assign k v m) acc [(k, x)])) r"
    using reads_member [OF assms] by (simp del: parse_value.simps)
qed

lemma reads_members_more:
  assumes "reads v x" and "quoted k = Some q" and "list_all is_json_space w" and "list_all is_json_space w1"
    and "reads_members out m" and "list_all is_json_space w2"
  shows "reads_members (w @ q @ CHR '':'' # w1 @ v @ CHR '','' # w2 @ out) ((k, x) # m)"
  unfolding reads_members_def
proof (intro allI impI)
  fix fs acc r w'
  assume w': "list_all is_json_space w'"
  let ?rest = "w2 @ out @ w' @ CHR ''}'' # r"
  let ?result = "after_value fs (JObject (foldl (\<lambda>m (k, v). assign k v m) acc ((k, x) # m))) r"
  obtain t s k' s' where "scan ?rest = (t, s)" "read_key t s = (Some (k', s'), Some k')"
    "parse_member (assign k x acc) k' fs s' = ?result"
    using assms(5) w' unfolding reads_members_def reads_space [OF assms(6)] foldl_Cons case_prod_conv by meson
  then have "after_value (ObjectFrame acc k # fs) x (CHR '','' # ?rest) = ?result"
    by (simp add: after_member del: after_value.simps)
  then show "\<exists>t s k' s'. scan ((w @ q @ CHR '':'' # w1 @ v @ CHR '','' # w2 @ out) @ w' @ CHR ''}'' # r) = (t, s) \<and>
      t \<noteq> EndObject \<and> read_key t s = (Some (k', s'), Some k') \<and>
      parse_member acc k' fs s' = ?result"
    using reads_member [OF assms(1-4) ends_number_simps(1), of acc fs ?rest ?result] by (simp del: parse_value.simps)
qed

lemma assign_greatest: "\<forall>x\<in>set (map fst m). x < k \<Longrightarrow> assign k v m = m @ [(k, v)]"
  by (induction m) (auto simp: not_less_iff_gr_or_eq)

lemma assign_sorted:
  "sorted_wrt (<) (map fst (acc @ m)) \<Longrightarrow> foldl (\<lambda>m (k, v). assign k v m) acc m = acc @ m"
proof (induction m arbitrary: acc)
  case (Cons p m)
  obtain k v where p: "p = (k, v)" by (cases p)
  have "assign k v acc = acc @ [p]" unfolding p by (rule assign_greatest) (use Cons.prems p in \<open>auto simp: sorted_wrt_append\<close>)
  then show ?case using Cons.IH [of "acc @ [p]"] Cons.prems p by simp
qed simp

lemma reads_array: "reads_elements out xs \<Longrightarrow> list_all is_json_space w \<Longrightarrow> list_all is_json_space w' \<Longrightarrow>
    reads (CHR ''['' # w @ out @ w' @ '']'') (JArray xs)"
  unfolding reads_def
proof (intro allI impI)
  fix fs r
  assume *: "reads_elements out xs" "list_all is_json_space w" "list_all is_json_space w'"
  then obtain t s where "scan (out @ w' @ CHR '']'' # r) = (t, s)" "t \<noteq> EndArray"
    "parse_value (ArrayFrame [] # fs) t s = after_value fs (JArray xs) r"
    unfolding reads_elements_def by (metis append_Nil)
  then show "\<exists>t s. scan ((CHR ''['' # w @ out @ w' @ '']'') @ r) = (t, s) \<and> t \<noteq> EndArray \<and>
      parse_value fs t s = after_value fs (JArray xs) r"
    by (simp add: scan_structural reads_space *)
qed

lemma reads_object:
  assumes "reads_members out m" and "list_all is_json_space w" and "list_all is_json_space w'"
    and "sorted_wrt (<) (map fst m)"
  shows "reads (CHR ''{'' # w @ out @ w' @ ''}'') (JObject m)"
  unfolding reads_def
proof (intro allI impI)
  fix fs r
  obtain t s k s' where "scan (out @ w' @ CHR ''}'' # r) = (t, s)" "t \<noteq> EndObject"
    "read_key t s = (Some (k, s'), Some k)"
    "parse_member [] k fs s' = after_value fs (JObject (foldl (\<lambda>m (k, v). assign k v m) [] m)) r"
    using assms(1,3) unfolding reads_members_def by meson
  moreover have "foldl (\<lambda>m (k, v). assign k v m) [] m = m" using assign_sorted [of "[]" m] assms(4) by simp
  ultimately show "\<exists>t s. scan ((CHR ''{'' # w @ out @ w' @ ''}'') @ r) = (t, s) \<and> t \<noteq> EndArray \<and>
      parse_value fs t s = after_value fs (JObject m) r"
    by (simp add: scan_structural reads_space assms(2) parse_object del: parse_value.simps)
qed

section \<open>The round trip\<close>

lemma list_all_space_literals: "list_all is_json_space [CHR 10]" "list_all is_json_space ('' '')" "list_all is_json_space []"
  by (simp_all add: json_space_literal)

lemma dump_elements_Cons:
  assumes "dump_elements fl pretty step cur (x # xs) = Some out"
  obtains v w where "dump_value fl pretty step cur x = Some v" and "list_all is_json_space w"
    and "xs = [] \<Longrightarrow> out = w @ v"
    and "xs \<noteq> [] \<Longrightarrow> \<exists>w1 t. list_all is_json_space w1 \<and> dump_elements fl pretty step cur xs = Some t \<and>
      out = w @ v @ CHR '','' # w1 @ t"
proof -
  let ?w = "if pretty then spaces cur else []" and ?w1 = "if pretty then [CHR 10] else []"
  from assms obtain v t where "dump_value fl pretty step cur x = Some v"
    "xs = [] \<and> out = ?w @ v \<or> xs \<noteq> [] \<and> dump_elements fl pretty step cur xs = Some t \<and> out = ?w @ v @ CHR '','' # ?w1 @ t"
    by (auto simp: glue_eq split: if_splits)
  moreover have "list_all is_json_space ?w" "list_all is_json_space ?w1"
    by (simp_all add: list_all_spaces json_space_literal)
  ultimately show thesis using that [of v ?w] by metis
qed

lemma dump_members_Cons:
  assumes "dump_members fl pretty step cur ((k, x) # m) = Some out"
  obtains q v w w1 where "quoted k = Some q" and "dump_value fl pretty step cur x = Some v"
    and "list_all is_json_space w" and "list_all is_json_space w1"
    and "m = [] \<Longrightarrow> out = w @ q @ CHR '':'' # w1 @ v"
    and "m \<noteq> [] \<Longrightarrow> \<exists>w2 t. list_all is_json_space w2 \<and> dump_members fl pretty step cur m = Some t \<and>
      out = w @ q @ CHR '':'' # w1 @ v @ CHR '','' # w2 @ t"
proof -
  let ?w = "if pretty then spaces cur else []" and ?w1 = "if pretty then '' '' else []"
    and ?w2 = "if pretty then [CHR 10] else []"
  from assms obtain q v t where "quoted k = Some q" "dump_value fl pretty step cur x = Some v"
    "m = [] \<and> out = ?w @ q @ CHR '':'' # ?w1 @ v \<or>
     m \<noteq> [] \<and> dump_members fl pretty step cur m = Some t \<and> out = ?w @ q @ CHR '':'' # ?w1 @ v @ CHR '','' # ?w2 @ t"
    by (auto simp: glue_eq split: if_splits)
  moreover have "list_all is_json_space ?w" "list_all is_json_space ?w1" "list_all is_json_space ?w2"
    by (simp_all add: list_all_spaces json_space_literal)
  ultimately show thesis using that [of q v ?w ?w1] by metis
qed

lemma reads_empty: "reads ''[]'' (JArray [])" "reads ''{}'' (JObject [])"
  by (simp_all add: reads_def scan_structural)

lemma dump_object_reads:
  assumes "dump_value fl pretty step cur (JObject m) = Some out" and "sorted_wrt (<) (map fst m)" and "m \<noteq> []"
    and "\<And>t c. dump_members fl pretty step c m = Some t \<Longrightarrow> c = (if pretty then cur + step else cur) \<Longrightarrow>
      reads_members t (map (map_prod id as_read) m)"
  shows "reads out (as_read (JObject m))"
proof -
  let ?w = "if pretty then [CHR 10] else []" and ?w' = "if pretty then CHR 10 # spaces cur else []"
  obtain t where t: "dump_members fl pretty step (if pretty then cur + step else cur) m = Some t"
    and out: "out = CHR ''{'' # ?w @ t @ ?w' @ ''}''"
    using assms(1,3) by (auto simp: glue_eq split: if_splits)
  have "sorted_wrt (<) (map fst (map (map_prod id as_read) m))" using assms(2) by (simp add: comp_def)
  moreover have "list_all is_json_space ?w" "list_all is_json_space ?w'"
    by (simp_all add: list_all_spaces json_space_literal)
  ultimately show ?thesis using assms(4) [OF t refl] unfolding out as_read.simps by (intro reads_object)
qed

lemma dump_array_reads:
  assumes "dump_value fl pretty step cur (JArray xs) = Some out" and "xs \<noteq> []"
    and "\<And>t c. dump_elements fl pretty step c xs = Some t \<Longrightarrow> c = (if pretty then cur + step else cur) \<Longrightarrow>
      reads_elements t (map as_read xs)"
  shows "reads out (as_read (JArray xs))"
proof -
  let ?w = "if pretty then [CHR 10] else []" and ?w' = "if pretty then CHR 10 # spaces cur else []"
  obtain t where t: "dump_elements fl pretty step (if pretty then cur + step else cur) xs = Some t"
    and out: "out = CHR ''['' # ?w @ t @ ?w' @ '']''"
    using assms(1,2) by (auto simp: glue_eq split: if_splits)
  have "list_all is_json_space ?w" "list_all is_json_space ?w'"
    by (simp_all add: list_all_spaces json_space_literal)
  then show ?thesis using assms(3) [OF t refl] unfolding out as_read.simps by (intro reads_array)
qed

lemma dump_leaf_reads:
  "dump_value fl pretty step cur j = Some out \<Longrightarrow> readable j \<Longrightarrow> (\<forall>xs. j \<noteq> JArray xs) \<Longrightarrow> (\<forall>m. j \<noteq> JObject m) \<Longrightarrow>
     reads out (as_read j)"
proof (cases j)
  case (JString s)
  assume "dump_value fl pretty step cur j = Some out"
  then show ?thesis using JString by (intro reads_leaf [where t = "ValueString s"]) (simp_all add: scan_quoted leaf_def)
next
  case (JBool b)
  assume "dump_value fl pretty step cur j = Some out"
  then show ?thesis using JBool
    by (intro reads_leaf [where t = "if b then LiteralTrue else LiteralFalse"]) (auto simp: scan_literal_chars leaf_def)
next
  case (JInteger n)
  assume "dump_value fl pretty step cur j = Some out" "readable j"
  then show ?thesis using JInteger
    by (intro reads_leaf [where t = "integer_token n"])
      (auto simp: scan_integer llong_range_def integer_token_def leaf_def)
next
  case (JUnsigned n)
  assume "dump_value fl pretty step cur j = Some out" "readable j"
  then show ?thesis using JUnsigned
    by (intro reads_leaf [where t = "integer_token n"]) (auto simp: scan_integer integer_token_def leaf_def)
next
  case JNull
  assume "dump_value fl pretty step cur j = Some out"
  then show ?thesis using JNull by (intro reads_leaf [where t = LiteralNull]) (auto simp: scan_literal_chars leaf_def)
qed simp_all

lemma dump_elements_reads:
  assumes "dump_elements fl pretty step cur (x # xs) = Some out"
    and "\<And>v. dump_value fl pretty step cur x = Some v \<Longrightarrow> reads v (as_read x)"
    and "\<And>t. xs \<noteq> [] \<Longrightarrow> dump_elements fl pretty step cur xs = Some t \<Longrightarrow> reads_elements t (map as_read xs)"
  shows "reads_elements out (map as_read (x # xs))"
  using assms(1)
proof (rule dump_elements_Cons)
  fix v w
  assume v: "dump_value fl pretty step cur x = Some v" and w: "list_all is_json_space w"
    and one: "xs = [] \<Longrightarrow> out = w @ v"
    and more: "xs \<noteq> [] \<Longrightarrow> \<exists>w1 t. list_all is_json_space w1 \<and> dump_elements fl pretty step cur xs = Some t \<and>
      out = w @ v @ CHR '','' # w1 @ t"
  show ?thesis using one more assms(2) [OF v] assms(3) w
    by (cases "xs = []") (auto intro: reads_elements_last reads_elements_more)
qed

lemma dump_members_reads:
  assumes "dump_members fl pretty step cur ((k, x) # m) = Some out"
    and "\<And>v. dump_value fl pretty step cur x = Some v \<Longrightarrow> reads v (as_read x)"
    and "\<And>t. m \<noteq> [] \<Longrightarrow> dump_members fl pretty step cur m = Some t \<Longrightarrow>
      reads_members t (map (map_prod id as_read) m)"
  shows "reads_members out (map (map_prod id as_read) ((k, x) # m))"
  using assms(1)
proof (rule dump_members_Cons)
  fix q v w w1
  assume q: "quoted k = Some q" and v: "dump_value fl pretty step cur x = Some v"
    and w: "list_all is_json_space w" "list_all is_json_space w1"
    and one: "m = [] \<Longrightarrow> out = w @ q @ CHR '':'' # w1 @ v"
    and more: "m \<noteq> [] \<Longrightarrow> \<exists>w2 t. list_all is_json_space w2 \<and> dump_members fl pretty step cur m = Some t \<and>
      out = w @ q @ CHR '':'' # w1 @ v @ CHR '','' # w2 @ t"
  show ?thesis using one more assms(2) [OF v] assms(3) w q
    by (cases "m = []") (auto intro: reads_members_last reads_members_more simp: id_def)
qed

lemma readable_array: "readable (JArray xs) \<longleftrightarrow> list_all readable xs"
  by (simp add: list_all_iff)

lemma readable_object: "readable (JObject m) \<longleftrightarrow> sorted_wrt (<) (map fst m) \<and> list_all readable (map snd m)"
  by (auto simp: list_all_iff)

lemma dump_reads:
  "dump_value fl pretty step cur j = Some out \<Longrightarrow> readable j \<Longrightarrow> reads out (as_read j)"
  "dump_elements fl pretty step cur xs = Some out \<Longrightarrow> list_all readable xs \<Longrightarrow> xs \<noteq> [] \<Longrightarrow>
     reads_elements out (map as_read xs)"
  "dump_members fl pretty step cur m = Some out \<Longrightarrow> list_all readable (map snd m) \<Longrightarrow> m \<noteq> [] \<Longrightarrow>
     reads_members out (map (map_prod id as_read) m)"
proof (induction fl pretty step cur j and fl pretty step cur xs and fl pretty step cur m
    arbitrary: out and out and out
    rule: dump_value_dump_elements_dump_members.induct)
  case (1 fl pretty step cur m)
  show ?case
  proof (cases "m = []")
    case False
    have m: "sorted_wrt (<) (map fst m)" "list_all readable (map snd m)"
      using "1.prems"(2) unfolding readable_object by blast+
    show ?thesis
    proof (rule dump_object_reads [OF "1.prems"(1) m(1) False])
      fix t c
      assume "dump_members fl pretty step c m = Some t" "c = (if pretty then cur + step else cur)"
      then show "reads_members t (map (map_prod id as_read) m)"
        using "1.IH" m(2) False by (cases pretty) (simp_all add: id_def)
    qed
  qed (use "1.prems" reads_empty in simp)
next
  case (2 fl pretty step cur xs)
  show ?case
  proof (cases "xs = []")
    case False
    have xs: "list_all readable xs" using "2.prems"(2) unfolding readable_array .
    show ?thesis
    proof (rule dump_array_reads [OF "2.prems"(1) False])
      fix t c
      assume "dump_elements fl pretty step c xs = Some t" "c = (if pretty then cur + step else cur)"
      then show "reads_elements t (map as_read xs)" using "2.IH" xs False by (cases pretty) simp_all
    qed
  qed (use "2.prems" reads_empty in simp)
next
  case (10 fl pretty step cur x xs)
  then show ?case by (intro dump_elements_reads) auto
next
  case (12 fl pretty step cur k x m)
  then show ?case by (intro dump_members_reads) (auto simp: id_def)
qed ((rule dump_leaf_reads, assumption, assumption, simp, simp) | simp)+

lemma reads_no_bom: "reads out v \<Longrightarrow> skip_bom out = Some out"
proof (cases out)
  case (Cons c r)
  assume out: "reads out v"
  have "code c \<noteq> 239"
  proof
    assume c: "code c = 239"
    then have "is_digit 10 c = False" "c \<notin> {CHR ''['', CHR '']'', CHR ''{'', CHR ''}'', CHR '':'', CHR '','', CHR ''t'',
        CHR ''f'', CHR ''n'', CHR 34, CHR ''-''}" "is_json_space c = False"
      by (auto simp: is_digit_def digit_of_def code_def is_json_space_def)
    then have "scan out = (ParseError, r)"
      using Cons c by (simp add: scan_def skip_whitespace_def)
    moreover obtain t s where "scan out = (t, s)" "parse_value [] t s = Parsed v []"
      using out ends_number_simps(5) unfolding reads_def by (metis append_Nil2 after_value.simps(1))
    ultimately show False by (simp add: leaf_def)
  qed
  then show ?thesis using Cons by (simp add: skip_bom_def)
qed (simp add: skip_bom_def)

lemma reads_parse: "reads out v \<Longrightarrow> sax_parse_internal out = Parsed v []"
proof -
  assume out: "reads out v"
  then obtain t s where "scan out = (t, s)" "parse_value [] t s = after_value [] v []"
    unfolding reads_def using ends_number_simps(5) by (metis append_Nil2)
  then show ?thesis using reads_no_bom [OF out] by (simp add: sax_parse_internal_def)
qed

lemma dump_parse:
  assumes "readable j" and "dump_value fl pretty step 0 j = Some s"
  shows "sax_parse_internal s = Parsed (as_read j) []"
  using dump_reads(1) [OF assms(2,1)] by (rule reads_parse)

text \<open>C19: Round trip: what the serializer writes for a value without floating-point numbers, compact or
  indented by any step, the parser reads back as that value, whatever bytes its strings and keys hold; only a
  non-negative signed integer comes back as the unsigned one.\<close>

theorem parse_dump:
  assumes "readable j" and "dump fl j = Inr s \<or> dump_indent fl step j = Inr s"
  shows "parse s = Inr (as_read j) \<and> read_stream s = (Inr (), as_read j)"
proof -
  from assms(2) obtain pretty st where "dump_value fl pretty st 0 j = Some s"
    by (auto simp: dump_def dump_indent_def as_outcome_def split: option.splits)
  then show ?thesis using dump_parse [OF assms(1)]
    by (simp add: parse_def read_stream_def scan_def skip_whitespace_def)
qed

definition sample_value :: json where
  "sample_value = object [(''n'', JInteger 1207), (''a'', JArray [JNull, JString [CHR 34, CHR 0xC3, CHR 0xA9, CHR 10]])]"

definition sample_text :: string where
  "sample_text = [CHR ''{'', CHR 34, CHR ''a'', CHR 34, CHR '':''] @ ''[null,'' @ [CHR 34, CHR 92, CHR 34, CHR 0xC3, CHR 0xA9,
     CHR 92, CHR ''n'', CHR 34, CHR '']'', CHR '','', CHR 34, CHR ''n'', CHR 34] @ '':1207}''"

theorem parse_dump_witness:
  "dump (\<lambda>_. []) sample_value = Inr sample_text \<and> readable sample_value \<and>
   parse sample_text = Inr (as_read sample_value) \<and> as_read sample_value \<noteq> sample_value"
proof -
  have 1: "dump (\<lambda>_. []) sample_value = Inr sample_text" by code_simp
  have 2: "readable sample_value" by code_simp
  have "as_read sample_value \<noteq> sample_value" by code_simp
  with 1 2 show ?thesis using parse_dump [OF 2, of "\<lambda>_. []" sample_text] by blast
qed

text \<open>The two-digits-at-a-time integer printer, with its digit count made in advance, writes the same text as
  the standard conversion, for every integer.\<close>

theorem dump_integer_is_to_string: "dump_integer x = to_string x"
  by (rule dump_integer_to_string)

end
