(* ===== verification/Master_Server.thy ===== *)
theory Master_Server
  imports Http Json_Dump Crypto Collector
begin

text \<open>
  \<^verbatim>\<open>master/MasterServer.hpp\<close>: the authentication of users, the eleven handlers over any metadata
  repository, and the routes.
\<close>

section \<open>Configuration and texts\<close>

text \<open>
  What a handler reads besides the request and the repository: the library of cryptography, the
  time of the request, how the serializer prints a floating-point number, the secrets, the port.
\<close>

record master_env =
  m_ossl :: openssl
  m_time :: int
  m_float :: "double \<Rightarrow> string"
  cluster_secret :: string
  session_secret :: string
  node_port :: int

text \<open>The raw literal with one member, blank after the colon.\<close>

definition literal_json :: "string \<Rightarrow> string \<Rightarrow> string" where
  "literal_json k v = ''{'' @ [CHR 34] @ k @ [CHR 34] @ '': '' @ [CHR 34] @ v @ [CHR 34] @ ''}''"

definition answer :: "int \<Rightarrow> string \<Rightarrow> Response" where
  "answer st body = set_content body ''application/json'' (with_status st)"

definition refuse :: "int \<Rightarrow> string \<Rightarrow> Response" where
  "refuse st msg = answer st (literal_json ''error'' msg)"

definition deleted_body :: string where
  "deleted_body = ''{'' @ [CHR 34] @ ''status'' @ [CHR 34] @ '': '' @ [CHR 34] @ ''success'' @ [CHR 34] @ '', '' @
     [CHR 34] @ ''message'' @ [CHR 34] @ '': '' @ [CHR 34] @ ''File deleted.'' @ [CHR 34] @ ''}''"

text \<open>A status left unset becomes 200 when the server sends the response.\<close>

definition unset_status :: int where
  "unset_status = -1"

section \<open>Exceptions\<close>

definition of_outcome :: "'a outcome \<Rightarrow> ('s, 'a) action" where
  "of_outcome x = (\<lambda>s. (x, s))"

text \<open>\<^verbatim>\<open>try\<close> with handlers that cover every \<^verbatim>\<open>std::exception\<close>; a trap is none.\<close>

definition catching :: "(exn \<Rightarrow> Response) \<Rightarrow> ('s, Response) action \<Rightarrow> ('s, Response) action" where
  "catching h m = (\<lambda>s. case m s of
       (Inl e, s') \<Rightarrow> if e = Trap then (Inl e, s') else (Inr (h e), s')
     | (Inr r, s') \<Rightarrow> (Inr r, s'))"

section \<open>Authentication\<close>

definition AuthenticateUser :: "master_env \<Rightarrow> Request \<Rightarrow> Response + int" where
  "AuthenticateUser env req =
     (if \<not> has_header ''Authorization'' req then Inl (refuse 401 ''Unauthorized: Missing token'')
      else let auth_header = get_header_value ''Authorization'' req
        in if take 7 auth_header \<noteq> ''Bearer '' then Inl (refuse 401 ''Unauthorized: Malformed token'')
           else case VerifySessionToken (m_ossl env) (m_time env) (drop 7 auth_header) (session_secret env) of
               None \<Rightarrow> Inl (refuse 401 ''Unauthorized: Invalid or expired token'')
             | Some user \<Rightarrow> Inr user)"

definition authenticated :: "master_env \<Rightarrow> Request \<Rightarrow> (int \<Rightarrow> ('s, Response) action) \<Rightarrow> ('s, Response) action" where
  "authenticated env req handle =
     (case AuthenticateUser env req of Inl res \<Rightarrow> ret res | Inr user \<Rightarrow> handle user)"

section \<open>JSON of the answers\<close>

definition node_json :: "NodeInfo \<Rightarrow> json" where
  "node_json n = object [(''advertised_host'', JString (advertised_host n)),
                         (''advertised_port'', JInteger (advertised_port n))]"

definition plan_json :: "ChunkRoutingPlan \<Rightarrow> json" where
  "plan_json p = object [(''hash'', JString (plan_hash p)),
                         (''assigned_nodes'', JArray (map node_json (assigned_nodes p)))]"

definition send_json :: "master_env \<Rightarrow> int \<Rightarrow> json \<Rightarrow> ('s, Response) action" where
  "send_json env st j = andthen (of_outcome (dump (m_float env) j)) (\<lambda>body. ret (answer st body))"

section \<open>The handlers\<close>

definition HandleFileExists :: "master_env \<Rightarrow> 's IMetadataRepository \<Rightarrow> 's handler" where
  "HandleFileExists env R req = authenticated env req (\<lambda>u.
     if \<not> has_param ''filename'' req then ret (with_status 400)
     else andthen (op_FileExists R u (get_param_value ''filename'' req))
       (\<lambda>exists. send_json env 200 (object [(''exists'', JBool exists)])))"

definition HandleDeleteFile :: "master_env \<Rightarrow> 's IMetadataRepository \<Rightarrow> 's handler" where
  "HandleDeleteFile env R req = authenticated env req (\<lambda>u.
     if \<not> has_param ''filename'' req then ret (with_status 400)
     else andthen (op_DeleteFile R u (get_param_value ''filename'' req))
       (\<lambda>deleted. ret (if deleted then answer 200 deleted_body else refuse 404 ''File not found'')))"

definition HandleHealthCheck :: "master_env \<Rightarrow> 's IMetadataRepository \<Rightarrow> 's handler" where
  "HandleHealthCheck env R req =
     catching (\<lambda>_. refuse 500 ''Database offline'')
       (andthen (op_GetDatabaseVersion R)
         (\<lambda>db_version. ret (set_content
            (''Master Node OK. Port: '' @ to_string (node_port env) @ [CHR 10] @ ''DB: '' @ db_version) ''text/plain''
            (with_status unset_status))))"

definition HandleSignup :: "master_env \<Rightarrow> 's IMetadataRepository \<Rightarrow> 's handler" where
  "HandleSignup env R req =
     catching (\<lambda>e. if e = JsonError then refuse 400 ''Invalid JSON payload'' else refuse 500 ''Internal server error'')
       (andthen (of_outcome (parse (req_body req)))
       (\<lambda>j. andthen (of_outcome (json_at j ''email''))
       (\<lambda>v. andthen (of_outcome (get_string v))
       (\<lambda>mail. andthen (of_outcome (json_at j ''password''))
       (\<lambda>v. andthen (of_outcome (get_string v))
       (\<lambda>raw_password. andthen (of_outcome (GenerateSalt (m_ossl env) 16))
       (\<lambda>new_salt. andthen (of_outcome (HashPasswordPBKDF2 (m_ossl env) raw_password new_salt))
       (\<lambda>hashed_password. andthen (op_CreateUser R mail hashed_password new_salt)
       (\<lambda>created. ret (if created then answer 201 (literal_json ''status'' ''success'')
                       else refuse 409 ''Registration failed''))))))))))"

definition dummy_salt :: string where
  "dummy_salt = replicate 32 CHR ''0''"

definition HandleLogin :: "master_env \<Rightarrow> 's IMetadataRepository \<Rightarrow> 's handler" where
  "HandleLogin env R req =
     catching (\<lambda>e. if e = JsonError then with_status 400 else with_status 500)
       (andthen (of_outcome (parse (req_body req)))
       (\<lambda>j. andthen (of_outcome (json_at j ''email''))
       (\<lambda>v. andthen (of_outcome (get_string v))
       (\<lambda>mail. andthen (of_outcome (json_at j ''password''))
       (\<lambda>v. andthen (of_outcome (get_string v))
       (\<lambda>password. andthen (op_GetUserByEmail R mail)
       (\<lambda>user.
          if found user then
            andthen (of_outcome (HashPasswordPBKDF2 (m_ossl env) password (user_salt user)))
            (\<lambda>attempt_hash.
               if ConstantTimeEquals (m_ossl env) attempt_hash (user_password_hash user) then
                 send_json env unset_status
                   (object [(''status'', JString ''success''),
                            (''token'', JString (GenerateSessionToken (m_ossl env) (m_time env) (user_id user)
                                                   (session_secret env)))])
               else ret (refuse 401 ''Invalid credentials''))
          else
            andthen (of_outcome (HashPasswordPBKDF2 (m_ossl env) password dummy_salt))
            (\<lambda>_. ret (refuse 401 ''Invalid credentials'')))))))))"

definition HandleUploadInit :: "master_env \<Rightarrow> 's IMetadataRepository \<Rightarrow> 's handler" where
  "HandleUploadInit env R req = authenticated env req (\<lambda>u.
     catching (\<lambda>e. if e = JsonError then with_status 400
                   else if e = RuntimeError ''CHUNK_LOCKED'' then refuse 423 ''Resource locked. Retry.''
                   else with_status 500)
       (andthen (of_outcome (parse (req_body req)))
       (\<lambda>j. andthen (of_outcome (json_at j ''hashes''))
       (\<lambda>v. andthen (of_outcome (get_vector get_string v))
       (\<lambda>client_hashes. andthen (op_FilterMissingChunks R client_hashes)
       (\<lambda>missing. send_json env unset_status
          (object [(''status'', JString ''success''), (''missing_hashes'', JArray (map plan_json missing))])))))))"

definition HandleCommit :: "master_env \<Rightarrow> 's IMetadataRepository \<Rightarrow> 's handler" where
  "HandleCommit env R req = authenticated env req (\<lambda>u.
     catching (\<lambda>e. if e = JsonError then with_status 400 else with_status 500)
       (andthen (of_outcome (parse (req_body req)))
       (\<lambda>j. andthen (of_outcome (json_at j ''filename''))
       (\<lambda>v. andthen (of_outcome (get_string v))
       (\<lambda>name. andthen (of_outcome (json_at j ''file_size''))
       (\<lambda>v. andthen (of_outcome (get_long_long v))
       (\<lambda>bytes. andthen (of_outcome (json_at j ''chunk_hashes''))
       (\<lambda>v. andthen (of_outcome (get_vector get_string v))
       (\<lambda>chunk_hashes. andthen (op_CommitFile R u name bytes chunk_hashes)
       (\<lambda>_. ret (answer 200 (literal_json ''status'' ''success'')))))))))))) "

definition HandleDownloadPlan :: "master_env \<Rightarrow> 's IMetadataRepository \<Rightarrow> 's handler" where
  "HandleDownloadPlan env R req = authenticated env req (\<lambda>u.
     if \<not> has_param ''filename'' req then ret (refuse 400 ''Missing filename parameter'')
     else catching (\<lambda>e. if is_runtime_error e then refuse 404 ''File not found or access denied''
                        else refuse 500 ''Internal server error'')
       (andthen (op_GetDownloadPlan R u (get_param_value ''filename'' req))
       (\<lambda>manifest. send_json env 200
          (object [(''status'', JString ''success''), (''file_size'', JInteger (file_size manifest)),
                   (''chunks'', JArray (map plan_json (plans manifest)))]))))"

definition HandleHeartbeat :: "master_env \<Rightarrow> 's IMetadataRepository \<Rightarrow> 's handler" where
  "HandleHeartbeat env R req =
     (if \<not> has_header ''X-Cluster-Secret'' req \<or> get_header_value ''X-Cluster-Secret'' req \<noteq> cluster_secret env
      then ret (with_status 401)
      else catching (\<lambda>e. if e = JsonError then with_status 400 else with_status 500)
        (andthen (of_outcome (parse (req_body req)))
        (\<lambda>j. andthen (of_outcome (case json_at j ''internal_host'' of Inl e \<Rightarrow> Inl e | Inr v \<Rightarrow> get_string v))
        (\<lambda>ihost. andthen (of_outcome (case json_at j ''internal_port'' of Inl e \<Rightarrow> Inl e | Inr v \<Rightarrow> get_int v))
        (\<lambda>iport. andthen (of_outcome (case json_at j ''advertised_host'' of Inl e \<Rightarrow> Inl e | Inr v \<Rightarrow> get_string v))
        (\<lambda>ahost. andthen (of_outcome (case json_at j ''advertised_port'' of Inl e \<Rightarrow> Inl e | Inr v \<Rightarrow> get_int v))
        (\<lambda>aport. andthen (of_outcome (case json_at j ''free_space'' of Inl e \<Rightarrow> Inl e | Inr v \<Rightarrow> get_long_long v))
        (\<lambda>space. andthen (op_RegisterWorker R ihost iport ahost aport space)
        (\<lambda>_. ret (with_status 200))))))))))"

definition HandleAddCluster :: "master_env \<Rightarrow> 's IMetadataRepository \<Rightarrow> 's handler" where
  "HandleAddCluster env R req =
     catching (\<lambda>_. refuse 500 ''Failed to integrate cluster'')
       (andthen (of_outcome (parse (req_body req)))
       (\<lambda>j. andthen (of_outcome (json_at j ''cluster_name''))
       (\<lambda>v. andthen (of_outcome (get_string v))
       (\<lambda>cname. andthen (of_outcome (json_at j ''active_node_ids''))
       (\<lambda>v. andthen (of_outcome (get_vector get_int v))
       (\<lambda>active_node_ids. andthen (op_AddCluster R cname active_node_ids)
       (\<lambda>_. ret (answer 200 (literal_json ''status'' ''Load distributed successfully.'')))))))))"

definition HandleReplaceCluster :: "master_env \<Rightarrow> 's IMetadataRepository \<Rightarrow> 's handler" where
  "HandleReplaceCluster env R req =
     catching (\<lambda>_. refuse 500 ''Failed to execute in-place cluster replacement'')
       (andthen (of_outcome (parse (req_body req)))
       (\<lambda>j. andthen (of_outcome (json_at j ''cluster_id''))
       (\<lambda>v. andthen (of_outcome (get_int v))
       (\<lambda>cid. andthen (of_outcome (json_at j ''new_worker_ids''))
       (\<lambda>v. andthen (of_outcome (get_vector get_int v))
       (\<lambda>new_worker_ids. andthen (op_ReplaceCluster R cid new_worker_ids)
       (\<lambda>_. send_json env 200
          (object [(''status'', JString ''success''),
                   (''message'', JString ''Cluster nodes replaced in-place. Former nodes marked READ_ONLY.'')]))))))))"

section \<open>The routes\<close>

definition master_routes :: "master_env \<Rightarrow> 's IMetadataRepository \<Rightarrow> (string \<times> string \<times> 's handler) list" where
  "master_routes env R =
     [(''GET'', ''/'', HandleHealthCheck env R),
      (''POST'', ''/auth/signup'', HandleSignup env R),
      (''POST'', ''/auth/login'', HandleLogin env R),
      (''POST'', ''/upload-init'', HandleUploadInit env R),
      (''POST'', ''/files/commit'', HandleCommit env R),
      (''GET'', ''/files/download-plan'', HandleDownloadPlan env R),
      (''POST'', ''/heartbeat'', HandleHeartbeat env R),
      (''POST'', ''/admin/cluster/add'', HandleAddCluster env R),
      (''POST'', ''/admin/cluster/replace'', HandleReplaceCluster env R),
      (''GET'', ''/files/exists'', HandleFileExists env R),
      (''DELETE'', ''/files'', HandleDeleteFile env R)]"

text \<open>The server keeps the library's own limit on the body, 100 MiB.\<close>

definition master_payload_max :: int where
  "master_payload_max = 100 * 1024 * 1024"

definition MasterServer :: "master_env \<Rightarrow> 's IMetadataRepository \<Rightarrow> Request \<Rightarrow> 's \<Rightarrow> Response option \<times> 's" where
  "MasterServer env R = serve master_payload_max (master_routes env R)"

section \<open>Running the handlers\<close>

lemma of_outcome_apply [outcome_simps]: "of_outcome x s = (x, s)"
  by (simp add: of_outcome_def)

lemma andthen_of_outcome [outcome_simps]:
  "andthen (of_outcome x) f s = (case x of Inl e \<Rightarrow> (Inl e, s) | Inr y \<Rightarrow> f y s)"
  by (simp add: andthen_def of_outcome_def)

lemma preserves_of_outcome [preserves_intros]: "preserves P (of_outcome x)"
  by (simp add: preserves_def of_outcome_def)

lemma preserves_catching [preserves_intros]: "preserves P m \<Longrightarrow> preserves P (catching h m)"
  by (auto simp: preserves_def catching_def split: prod.splits sum.splits)

lemma preserves_send_json [preserves_intros]: "preserves P (send_json env st j)"
  unfolding send_json_def by (rule preserves_intros)+

lemma preserves_authenticated [preserves_intros]:
  "(\<And>u. AuthenticateUser env req = Inr u \<Longrightarrow> preserves P (handle u)) \<Longrightarrow> preserves P (authenticated env req handle)"
  by (auto simp: authenticated_def preserves_ret split: sum.split)

lemma preserves_if [preserves_intros]:
  "(b \<Longrightarrow> preserves P m) \<Longrightarrow> (\<not> b \<Longrightarrow> preserves P m') \<Longrightarrow> preserves P (if b then m else m')"
  by simp

lemma run_handler_state: "snd (run_handler m s) = snd (m s)"
  by (simp add: run_handler_def split: prod.split sum.split)

lemma serve_preserves:
  assumes "\<And>m p h. (m, p, h) \<in> set routes \<Longrightarrow> preserves P (h req)" and "P s"
  shows "P (snd (serve payload routes req s))"
proof (cases "List.find (\<lambda>(m, p, h). method_matches (req_method req) m \<and> p = req_path req) routes")
  case None
  then show ?thesis using assms(2) by (simp add: serve_def)
next
  case (Some r)
  obtain m p h where r: "r = (m, p, h)" by (cases r)
  have "preserves P (h req)" using assms(1) find_Some_in [OF Some] r by auto
  then show ?thesis using assms(2) Some r by (simp add: serve_def run_handler_state preserves_def)
qed

section \<open>Strangers\<close>

definition user_routes :: "(string \<times> string) list" where
  "user_routes = [(''POST'', ''/upload-init''), (''POST'', ''/files/commit''), (''GET'', ''/files/download-plan''),
     (''GET'', ''/files/exists''), (''DELETE'', ''/files'')]"

lemma refused_status: "AuthenticateUser env req = Inl res \<Longrightarrow> res_status res = 401"
  by (auto simp: AuthenticateUser_def refuse_def answer_def set_content_def with_status_def Let_def
      split: if_splits option.splits)

lemma authenticated_refused:
  "AuthenticateUser env req = Inl res \<Longrightarrow> run_handler (authenticated env req handle) s = (Some res, s)"
  using refused_status [of env req res] by (simp add: run_handler_def authenticated_def outcome_simps)

lemma method_matches_simps [simp]:
  "method_matches ''POST'' m \<longleftrightarrow> m = ''POST''" "method_matches ''GET'' m \<longleftrightarrow> m = ''GET''"
  "method_matches ''DELETE'' m \<longleftrightarrow> m = ''DELETE''"
  by (auto simp: method_matches_def)

lemma empty_body [simp]: "0 \<le> master_payload_max"
  by (simp add: master_payload_max_def)

lemma master_handler:
  assumes "int (length (req_body req)) \<le> master_payload_max"
  shows "req_method req = ''POST'' \<Longrightarrow> req_path req = ''/auth/signup'' \<Longrightarrow> MasterServer env R req s = run_handler (HandleSignup env R req) s"
    and "req_method req = ''POST'' \<Longrightarrow> req_path req = ''/auth/login'' \<Longrightarrow> MasterServer env R req s = run_handler (HandleLogin env R req) s"
    and "req_method req = ''POST'' \<Longrightarrow> req_path req = ''/upload-init'' \<Longrightarrow> MasterServer env R req s = run_handler (HandleUploadInit env R req) s"
    and "req_method req = ''POST'' \<Longrightarrow> req_path req = ''/files/commit'' \<Longrightarrow> MasterServer env R req s = run_handler (HandleCommit env R req) s"
    and "req_method req = ''GET'' \<Longrightarrow> req_path req = ''/files/download-plan'' \<Longrightarrow> MasterServer env R req s = run_handler (HandleDownloadPlan env R req) s"
    and "req_method req = ''POST'' \<Longrightarrow> req_path req = ''/heartbeat'' \<Longrightarrow> MasterServer env R req s = run_handler (HandleHeartbeat env R req) s"
    and "req_method req = ''POST'' \<Longrightarrow> req_path req = ''/admin/cluster/add'' \<Longrightarrow> MasterServer env R req s = run_handler (HandleAddCluster env R req) s"
    and "req_method req = ''POST'' \<Longrightarrow> req_path req = ''/admin/cluster/replace'' \<Longrightarrow> MasterServer env R req s = run_handler (HandleReplaceCluster env R req) s"
    and "req_method req = ''GET'' \<Longrightarrow> req_path req = ''/files/exists'' \<Longrightarrow> MasterServer env R req s = run_handler (HandleFileExists env R req) s"
    and "req_method req = ''DELETE'' \<Longrightarrow> req_path req = ''/files'' \<Longrightarrow> MasterServer env R req s = run_handler (HandleDeleteFile env R req) s"
  using assms by (simp_all add: MasterServer_def serve_def master_routes_def)

text \<open>
  Without a session no user route does anything. The script \<^verbatim>\<open>tests/main.py\<close> is older than the sessions: it posts to
  \<^verbatim>\<open>/upload-init\<close> and \<^verbatim>\<open>/files/commit\<close> without a token and expects 200.
\<close>

theorem user_routes_refused:
  assumes "(req_method req, req_path req) \<in> set user_routes \<and> (\<forall>u. AuthenticateUser env req \<noteq> Inr u) \<or>
      req_method req = ''POST'' \<and> req_path req = ''/heartbeat'' \<and> get_header_value ''X-Cluster-Secret'' req \<noteq> cluster_secret env"
    and "int (length (req_body req)) \<le> master_payload_max"
  shows "\<exists>r. MasterServer env R req s = (Some r, s) \<and> res_status r = 401"
  using assms(1)
proof (elim disjE conjE)
  assume route: "(req_method req, req_path req) \<in> set user_routes" and no: "\<forall>u. AuthenticateUser env req \<noteq> Inr u"
  then obtain res where res: "AuthenticateUser env req = Inl res" by (cases "AuthenticateUser env req") auto
  obtain handle where "MasterServer env R req s = run_handler (authenticated env req handle) s"
    using route by (auto simp: user_routes_def master_handler [OF assms(2)] HandleUploadInit_def HandleCommit_def
        HandleDownloadPlan_def HandleFileExists_def HandleDeleteFile_def)
  then have "MasterServer env R req s = (Some res, s)" by (simp add: authenticated_refused [OF res])
  then show ?thesis using refused_status [OF res] by blast
next
  assume "req_method req = ''POST''" "req_path req = ''/heartbeat''"
    "get_header_value ''X-Cluster-Secret'' req \<noteq> cluster_secret env"
  then show ?thesis
    by (simp add: master_handler [OF assms(2)] HandleHeartbeat_def run_handler_def outcome_simps with_status_def)
qed

text \<open>C6: Without a session nobody reads, plans or deletes a file: a request for a download plan, for the existence of a file or for
  its deletion whose bearer token is missing, malformed, forged or expired is answered 401 and leaves the store as it is, and so is a
  heartbeat without the cluster's secret. The body of the request is within the server's limit of 100 MiB; a longer one is answered 413
  before anything else is looked at.\<close>

theorem strangers_refused:
  assumes "(req_method req, req_path req) \<in> {(''GET'', ''/files/download-plan''), (''GET'', ''/files/exists''), (''DELETE'', ''/files'')} \<and>
        (\<forall>u. AuthenticateUser env req \<noteq> Inr u) \<or>
      req_method req = ''POST'' \<and> req_path req = ''/heartbeat'' \<and> get_header_value ''X-Cluster-Secret'' req \<noteq> cluster_secret env"
    and "int (length (req_body req)) \<le> master_payload_max"
  shows "\<exists>r. MasterServer env R req s = (Some r, s) \<and> res_status r = 401"
  using assms(1) by (intro user_routes_refused [OF _ assms(2)]) (auto simp: user_routes_def)

definition sample_env :: master_env where
  "sample_env = \<lparr>m_ossl = sample_ossl, m_time = 1000, m_float = (\<lambda>_. []), cluster_secret = ''c'', session_secret = ''s'',
     node_port = 8081\<rparr>"

definition user_request :: "string \<Rightarrow> string \<Rightarrow> string \<Rightarrow> (string \<times> string) list \<Rightarrow> string \<Rightarrow> Request" where
  "user_request m p token ps body =
     \<lparr>req_method = m, req_path = p, req_params = ps, req_headers = [(''Authorization'', ''Bearer '' @ token)], req_body = body\<rparr>"

lemma strangers_refused_witness:
  "\<exists>r. MasterServer sample_env (PostgresRepository 2)
       (user_request ''DELETE'' ''/files'' (GenerateSessionToken sample_ossl 1000 1 ''other'') [(''filename'', ''f'')] []) run_world =
     (Some r, run_world) \<and> res_status r = 401"
proof -
  let ?req = "user_request ''DELETE'' ''/files'' (GenerateSessionToken sample_ossl 1000 1 ''other'') [(''filename'', ''f'')] []"
  have "AuthenticateUser sample_env ?req = Inl (refuse 401 ''Unauthorized: Invalid or expired token'')" by code_simp
  then have "\<forall>u. AuthenticateUser sample_env ?req \<noteq> Inr u" by simp
  then show ?thesis
    by (intro strangers_refused) (simp_all add: user_request_def user_routes_def)
qed

section \<open>Tenants\<close>

text \<open>
  What keeps tenants apart: no operation of the repository changes the files of a user it is not
  called for.
\<close>

locale multi_tenant =
  fixes R :: "'s IMetadataRepository"
    and files_of :: "int \<Rightarrow> 's \<Rightarrow> 'f list"
  assumes free: "\<And>v l. preserves (\<lambda>s. files_of v s = l) (op_GetDatabaseVersion R)"
      "\<And>v l e h x. preserves (\<lambda>s. files_of v s = l) (op_CreateUser R e h x)"
      "\<And>v l e. preserves (\<lambda>s. files_of v s = l) (op_GetUserByEmail R e)"
      "\<And>v l a b c d e. preserves (\<lambda>s. files_of v s = l) (op_RegisterWorker R a b c d e)"
      "\<And>v l hs. preserves (\<lambda>s. files_of v s = l) (op_FilterMissingChunks R hs)"
      "\<And>v l u n. preserves (\<lambda>s. files_of v s = l) (op_GetDownloadPlan R u n)"
      "\<And>v l u n. preserves (\<lambda>s. files_of v s = l) (op_FileExists R u n)"
      "\<And>v l n ids. preserves (\<lambda>s. files_of v s = l) (op_AddCluster R n ids)"
      "\<And>v l c ids. preserves (\<lambda>s. files_of v s = l) (op_ReplaceCluster R c ids)"
    and own: "\<And>v u l n b hs. v \<noteq> u \<Longrightarrow> preserves (\<lambda>s. files_of v s = l) (op_CommitFile R u n b hs)"
      "\<And>v u l n. v \<noteq> u \<Longrightarrow> preserves (\<lambda>s. files_of v s = l) (op_DeleteFile R u n)"
begin

lemma request_spares_others:
  assumes "AuthenticateUser env req \<noteq> Inr v"
  shows "files_of v (snd (MasterServer env R req s)) = files_of v s"
proof -
  let ?P = "\<lambda>t. files_of v t = files_of v s"
  have "preserves ?P (h req)" if "(m, p, h) \<in> set (master_routes env R)" for m p h
    using that assms unfolding master_routes_def
    by (auto simp: HandleHealthCheck_def HandleSignup_def HandleLogin_def HandleUploadInit_def HandleCommit_def
        HandleDownloadPlan_def HandleHeartbeat_def HandleAddCluster_def HandleReplaceCluster_def HandleFileExists_def
        HandleDeleteFile_def intro!: preserves_intros free own)
  then show ?thesis
    unfolding MasterServer_def by (rule serve_preserves [where P = ?P]) (assumption, rule refl)
qed

end

end
