(* ===== verification/Json_Wire.thy ===== *)
theory Json_Wire
  imports Json_Roundtrip
begin

text \<open>
  Values on their way from one process to another: which ones the serializer takes, and what the
  receiver finds in them.
\<close>

section \<open>What the serializer takes\<close>

definition utf8 :: "string \<Rightarrow> bool" where
  "utf8 s \<longleftrightarrow> dump_escaped s \<noteq> None"

primrec dumpable :: "json \<Rightarrow> bool" where
  "dumpable JNull = True"
| "dumpable (JBool b) = True"
| "dumpable (JInteger n) = True"
| "dumpable (JUnsigned n) = True"
| "dumpable (JFloat x) = True"
| "dumpable (JString s) = utf8 s"
| "dumpable (JArray xs) = list_all id (map dumpable xs)"
| "dumpable (JObject m) = (list_all utf8 (map fst m) \<and> list_all snd (map (map_prod id dumpable) m))"

lemma dumpable_array: "dumpable (JArray xs) \<longleftrightarrow> list_all dumpable xs"
  by (simp add: list_all_iff)

lemma dumpable_object: "dumpable (JObject m) \<longleftrightarrow> list_all utf8 (map fst m) \<and> list_all dumpable (map snd m)"
  by (auto simp: list_all_iff)

lemma glue_None: "glue a b = None \<longleftrightarrow> a = None \<or> b = None"
  by (auto simp: glue_def split: option.split)

lemma quoted_None: "quoted s = None \<longleftrightarrow> \<not> utf8 s"
  by (simp add: quoted_def utf8_def)

text \<open>The serializer raises an exception exactly for a string or key that is not UTF-8.\<close>

lemma dump_None:
  "dump_value fl pretty step cur j = None \<longleftrightarrow> \<not> dumpable j"
  "dump_elements fl pretty step cur xs = None \<longleftrightarrow> \<not> list_all dumpable xs"
  "dump_members fl pretty step cur m = None \<longleftrightarrow> \<not> (list_all utf8 (map fst m) \<and> list_all dumpable (map snd m))"
proof (induction fl pretty step cur j and fl pretty step cur xs and fl pretty step cur m
    rule: dump_value_dump_elements_dump_members.induct)
  case (1 fl pretty step cur m)
  then show ?case unfolding dumpable_object by (cases pretty) (auto simp: glue_None)
next
  case (2 fl pretty step cur xs)
  then show ?case unfolding dumpable_array by (cases pretty) (auto simp: glue_None)
next
  case (10 fl pretty step cur x xs)
  then show ?case by (cases "xs = []") (auto simp: glue_None)
next
  case (12 fl pretty step cur k x m)
  then show ?case by (cases "m = []") (auto simp: glue_None quoted_None)
qed (simp_all add: quoted_None)

lemma sent_and_parsed:
  assumes "dumpable j" and "readable j"
  shows "\<exists>body. dump fl j = Inr body \<and> parse body = Inr (as_read j)"
proof -
  obtain body where "dump_value fl False 0 0 j = Some body" using assms(1) dump_None(1) by blast
  then show ?thesis using dump_parse [OF assms(2)]
    by (auto simp: dump_def as_outcome_def parse_def scan_def skip_whitespace_def)
qed

section \<open>Texts that are UTF-8\<close>

definition ascii :: "string \<Rightarrow> bool" where
  "ascii s \<longleftrightarrow> list_all (\<lambda>c. code c < 128) s"

lemma ascii_append [simp]: "ascii (s @ t) \<longleftrightarrow> ascii s \<and> ascii t"
  by (simp add: ascii_def)

lemma ascii_utf8: "ascii s \<Longrightarrow> utf8 s"
proof -
  have "dump_from 0 cp s \<noteq> None" if "ascii s" for cp
    using that
  proof (induction s arbitrary: cp)
    case (Cons c s)
    then have "decode 0 cp (code c) = (0, code c)"
      by (simp add: ascii_def decode_def state_row_simps byte_class_def)
    then show ?case using Cons by (auto simp: ascii_def)
  qed simp
  then show "ascii s \<Longrightarrow> utf8 s" by (simp add: utf8_def dump_escaped_def)
qed

lemma ascii_digit_char: "d < 16 \<Longrightarrow> code (digit_char d) < 128"
  by (simp add: code_digit_char)

lemma ascii_dec: "0 \<le> n \<Longrightarrow> ascii (dec n)"
  unfolding ascii_def list_all_iff using dec_digits ascii_digit_char by fastforce

lemma ascii_to_string: "ascii (to_string n)"
proof -
  have "ascii ''-''" by (simp add: ascii_def code_def)
  then show ?thesis
    using ascii_dec [of n] ascii_dec [of "- n"] ascii_append [of "''-''" "dec (- n)"] by (simp add: to_string_def)
qed

lemma ascii_hex_string: "ascii (hex_string bs)"
  unfolding ascii_def list_all_iff using hex_string_digit ascii_digit_char by fastforce

section \<open>What the receiver finds\<close>

lemma map_of_assign: "map_of (assign k v m) = (map_of m)(k \<mapsto> v)"
  by (induction m) (auto simp: fun_eq_iff)

lemma keys_assign: "fst ` set (assign k v m) = insert k (fst ` set m)"
proof (induction m)
  case (Cons p m)
  then show ?case by (cases p) (auto split: if_splits simp: insert_commute)
qed simp

lemma set_assign: "set (map fst (assign k v m)) = insert k (set (map fst m))"
  by (simp add: keys_assign)

lemma sorted_assign: "sorted_wrt (<) (map fst m) \<Longrightarrow> sorted_wrt (<) (map fst (assign k v m))"
proof (induction m)
  case (Cons p m)
  obtain k' v' where p: "p = (k', v')" by (cases p)
  then show ?case using Cons set_assign [of k v m] by (auto simp: not_less_iff_gr_or_eq)
qed simp

lemma sorted_emplace: "sorted_wrt (<) (map fst m) \<Longrightarrow> sorted_wrt (<) (map fst (emplace k v m))"
  by (simp add: emplace_def sorted_assign)

lemma map_of_emplace: "map_of (emplace k v m) = (if map_of m k = None then (map_of m)(k \<mapsto> v) else map_of m)"
  by (simp add: emplace_def map_of_assign)

lemma emplace_values: "set (map snd (emplace k v m)) \<subseteq> insert v (set (map snd m))"
proof -
  have "snd ` set (assign k v m) \<subseteq> insert v (snd ` set m)"
  proof (induction m)
    case (Cons p m)
    then show ?case by (cases p) (auto split: if_splits)
  qed simp
  then show ?thesis by (auto simp: emplace_def)
qed

lemma emplace_keys: "set (map fst (emplace k v m)) = insert k (set (map fst m))"
  using set_assign [of k v m] by (auto simp: emplace_def map_of_eq_None_iff dest: map_of_SomeD)

lemma as_read_member: "map_of (map (map_prod id as_read) m) k = map_option as_read (map_of m k)"
  by (induction m) auto

lemma as_read_at: "json_at (as_read (JObject m)) k = (case map_of m k of None \<Rightarrow> Inl JsonError | Some v \<Rightarrow> Inr (as_read v))"
  by (simp add: json_at_def as_read_member split: option.split)

text \<open>An object given by an initializer list: the first of two members with one key counts.\<close>

lemma members_facts:
  "sorted_wrt (<) (map fst m) \<Longrightarrow> sorted_wrt (<) (map fst (foldl (\<lambda>m (k, v). emplace k v m) m kvs))"
  "map_of (foldl (\<lambda>m (k, v). emplace k v m) m kvs) = (\<lambda>k. case map_of m k of None \<Rightarrow> map_of kvs k | Some v \<Rightarrow> Some v)"
  "set (map snd (foldl (\<lambda>m (k, v). emplace k v m) m kvs)) \<subseteq> set (map snd m) \<union> set (map snd kvs)"
  "set (map fst (foldl (\<lambda>m (k, v). emplace k v m) m kvs)) = set (map fst m) \<union> set (map fst kvs)"
proof (induction kvs arbitrary: m)
  case (Cons p kvs)
  obtain k v where p: "p = (k, v)" by (cases p)
  {
    case 1
    then show ?case using Cons.IH(1) [OF sorted_emplace] p by simp
  next
    case 2
    show ?case using Cons.IH(2) [of "emplace k v m"] p
      by (auto simp: map_of_emplace fun_eq_iff split: option.split)
  next
    case 3
    show ?case using Cons.IH(3) [of "emplace k v m"] emplace_values [of k v m] p by auto
  next
    case 4
    show ?case using Cons.IH(4) [of "emplace k v m"] emplace_keys [of k v m] p by auto
  }
qed (auto split: option.split)

lemma members_values:
  "(\<forall>v\<in>set (map snd kvs). P v) \<Longrightarrow> list_all P (map snd (foldl (\<lambda>m (k, v). emplace k v m) [] kvs))"
  unfolding list_all_iff using members_facts(3) [of "[]" kvs] by (simp only: list.map list.set Un_empty_left) (blast dest: subsetD)

lemma object_readable: "\<forall>v\<in>set (map snd kvs). readable v \<Longrightarrow> readable (object kvs)"
  using members_facts(1) [of "[]" kvs] members_values [of kvs readable]
  unfolding object_def readable_object by simp

lemma object_dumpable:
  "\<forall>k\<in>set (map fst kvs). utf8 k \<Longrightarrow> \<forall>v\<in>set (map snd kvs). dumpable v \<Longrightarrow> dumpable (object kvs)"
  using members_facts(4) [of "[]" kvs] members_values [of kvs dumpable]
  unfolding object_def dumpable_object list_all_iff by (metis Un_iff empty_iff list.set(1) list.map(1))

lemma object_at:
  "json_at (as_read (object kvs)) k = (case map_of kvs k of None \<Rightarrow> Inl JsonError | Some v \<Rightarrow> Inr (as_read v))"
  unfolding object_def as_read_at members_facts(2) by simp

lemma object_is_object: "\<exists>m. as_read (object kvs) = JObject m"
  by (simp add: object_def)

lemma as_read_simps [simp]: "get_string (as_read (JString s)) = Inr s"
  by (simp add: get_string_def)

lemma get_int_as_read: "int_range n \<Longrightarrow> get_int (as_read (JInteger n)) = Inr n"
  by (simp add: get_int_def arithmetic_def to_int32_id)

lemma get_long_long_as_read: "llong_range n \<Longrightarrow> get_long_long (as_read (JInteger n)) = Inr n"
  by (simp add: get_long_long_def arithmetic_def to_llong_id)

lemma convert_all_map: "(\<And>x. x \<in> set xs \<Longrightarrow> f (g x) = Inr (h x)) \<Longrightarrow> convert_all f (map g xs) = Inr (map h xs)"
  by (induction xs) simp_all

lemma get_vector_strings: "get_vector get_string (as_read (JArray (map JString ss))) = Inr ss"
  using convert_all_map [of ss get_string JString id] by (simp add: get_vector_def get_string_def comp_def)

end
