(* ===== verification/Tenants.thy ===== *)
theory Tenants
  imports Master_Server File_Catalog Json_Wire
begin

text \<open>
  Users at the master's front door: no request reaches the files of a user whose token it does not
  carry, and whoever signs up can log in.
\<close>

section \<open>The instance of the tenancy contract\<close>

definition user_files :: "int \<Rightarrow> pg_world \<Rightarrow> file_row list" where
  "user_files v w = filter (\<lambda>f. owner f = v) (files (tables w))"

lemma preserves_in_turn:
  assumes "\<And>pg d r d'. f pg d = (r, d') \<Longrightarrow> filter (\<lambda>f. owner f = v) (files d') = filter (\<lambda>f. owner f = v) (files d)"
  shows "preserves (\<lambda>w. user_files v w = l) (in_turn f)"
  unfolding preserves_def
proof (intro allI impI)
  fix w :: pg_world
  assume w: "user_files v w = l"
  obtain r d' where f: "f (now w) (tables w) = (r, d')" by fastforce
  show "user_files v (snd (in_turn f w)) = l"
    using assms [OF f] w by (simp add: in_turn_def f user_files_def)
qed

lemma same_files: "same_store d d' \<Longrightarrow> filter (\<lambda>f. owner f = v) (files d') = filter (\<lambda>f. owner f = v) (files d)"
  by (simp add: same_store_def)

lemma transact_get_same: "transact pg (get f) d = (r, d') \<Longrightarrow> d' = d"
  by (auto simp: transact_def get_def split: if_splits)

lemma GetDownloadPlan_same: "GetDownloadPlan pg u n d = (r, d') \<Longrightarrow> d' = d"
  by (auto simp: GetDownloadPlan_def transact_def andthen_def get_def throw_def ret_def split: if_splits option.splits)

lemma FilterMissingChunks_files: "FilterMissingChunks pg nb hs d = (r, d') \<Longrightarrow> files d' = files d"
proof (cases r)
  case (Inl e)
  assume "FilterMissingChunks pg nb hs d = (r, d')"
  then show ?thesis using Inl by (auto simp: FilterMissingChunks_def dest: transact_Inl)
next
  case (Inr ps)
  assume "FilterMissingChunks pg nb hs d = (r, d')"
  then show ?thesis using Inr FilterMissingChunks_Inr by (auto simp: negotiated_def)
qed

interpretation tenants: multi_tenant "PostgresRepository nb" user_files
proof (unfold_locales, unfold PostgresRepository_def IMetadataRepository.simps)
  show "preserves (\<lambda>w. user_files v w = l) (in_turn GetDatabaseVersion)" for v l
    by (rule preserves_in_turn) (auto simp: GetDatabaseVersion_def transact_def ret_def split: if_splits)
  show "preserves (\<lambda>w. user_files v w = l) (in_turn (\<lambda>pg. no_throw (CreateUser pg e h x)))" for v l e h x
    by (rule preserves_in_turn) (auto simp: no_throw_eq dest: CreateUser_store same_files)
  show "preserves (\<lambda>w. user_files v w = l) (in_turn (\<lambda>pg. GetUserByEmail pg e))" for v l e
    by (rule preserves_in_turn) (auto simp: GetUserByEmail_def dest: transact_get_same)
  show "preserves (\<lambda>w. user_files v w = l) (in_turn (\<lambda>pg. RegisterWorker pg a b c d e))" for v l a b c d e
    by (rule preserves_in_turn) (auto dest: RegisterWorker_store same_files)
  show "preserves (\<lambda>w. user_files v w = l) (in_turn (\<lambda>pg. FilterMissingChunks pg nb hs))" for v l hs
    by (rule preserves_in_turn) (auto dest: FilterMissingChunks_files)
  show "preserves (\<lambda>w. user_files v w = l) (in_turn (\<lambda>pg. GetDownloadPlan pg u n))" for v l u n
    by (rule preserves_in_turn) (auto dest: GetDownloadPlan_same)
  show "preserves (\<lambda>w. user_files v w = l) (in_turn (\<lambda>pg. FileExists pg u n))" for v l u n
    by (rule preserves_in_turn) (auto simp: FileExists_def dest: transact_get_same)
  show "preserves (\<lambda>w. user_files v w = l) (in_turn (\<lambda>pg. AddCluster pg nb n ids))" for v l n ids
    by (rule preserves_in_turn) (auto dest: AddCluster_store same_files)
  show "preserves (\<lambda>w. user_files v w = l) (in_turn (\<lambda>pg. ReplaceCluster pg c ids))" for v l c ids
    by (rule preserves_in_turn) (auto dest: ReplaceCluster_store same_files)
  show "preserves (\<lambda>w. user_files v w = l) (in_turn (\<lambda>pg. CommitFile pg u n b hs))" if "v \<noteq> u" for v u l n b hs
    by (rule preserves_in_turn) (use that in \<open>auto dest: commit_keeps_others\<close>)
  show "preserves (\<lambda>w. user_files v w = l) (in_turn (\<lambda>pg. DeleteFile pg u n))" if "v \<noteq> u" for v u l n
    by (rule preserves_in_turn) (use that in \<open>auto dest: delete_keeps_others\<close>)
qed

text \<open>C8: Tenants stay apart through the whole master: whatever the request, by whatever route, and however the
  database fails, the files of a user are the same afterwards unless the request carries a valid token of
  that user.\<close>

theorem requests_spare_other_tenants:
  assumes "AuthenticateUser env req \<noteq> Inr v"
  shows "user_files v (snd (MasterServer env (PostgresRepository nb) req w)) = user_files v w"
  using assms by (rule tenants.request_spares_others)

lemma requests_spare_other_tenants_witness:
  "user_files 1 (snd (MasterServer sample_env (PostgresRepository 2)
     (user_request ''DELETE'' ''/files'' (GenerateSessionToken sample_ossl 1000 2 ''s'') [(''filename'', ''f'')] []) run_world)) =
   user_files 1 run_world"
proof (rule requests_spare_other_tenants)
  have "AuthenticateUser sample_env
      (user_request ''DELETE'' ''/files'' (GenerateSessionToken sample_ossl 1000 2 ''s'') [(''filename'', ''f'')] []) = Inr 2"
    by code_simp
  then show "AuthenticateUser sample_env
      (user_request ''DELETE'' ''/files'' (GenerateSessionToken sample_ossl 1000 2 ''s'') [(''filename'', ''f'')] []) \<noteq> Inr 1"
    by simp
qed

section \<open>Signing up and logging in\<close>

definition sends_credentials :: "Request \<Rightarrow> string \<Rightarrow> string \<Rightarrow> bool" where
  "sends_credentials req e p \<longleftrightarrow> int (length (req_body req)) \<le> master_payload_max \<and> req_method req = ''POST'' \<and>
     (\<exists>j. parse (req_body req) = Inr j \<and> json_at j ''email'' = Inr (JString e) \<and> json_at j ''password'' = Inr (JString p))"

lemma signup_created:
  assumes "sends_credentials req e p" and "req_path req = ''/auth/signup''"
    and "MasterServer env R req s = (Some r, s')" and "res_status r = 201"
  obtains salt hp where "HashPasswordPBKDF2 (m_ossl env) p salt = Inr hp" and "op_CreateUser R e hp salt s = (Inr True, s')"
proof -
  obtain j where j: "parse (req_body req) = Inr j" "json_at j ''email'' = Inr (JString e)"
    "json_at j ''password'' = Inr (JString p)" using assms(1) by (auto simp: sends_credentials_def)
  have "run_handler (HandleSignup env R req) s = (Some r, s')"
    using assms master_handler(1) [of req env R s] by (simp add: sends_credentials_def)
  then show thesis using assms(4) j that
    by (auto simp: HandleSignup_def run_handler_def catching_def outcome_simps get_string_def answer_def refuse_def
        set_content_def with_status_def andthen_def ret_def of_outcome_def split: sum.splits prod.splits if_splits)
qed

lemma CreateUser_True:
  assumes "CreateUser pg e h x d = (True, d')"
  shows "e \<notin> email ` set (users d) \<and> users d' = users d @ [\<lparr>uid = user_seq d, email = e, password_hash = h, salt = x\<rparr>]"
  using assms
proof -
  have "transact pg (insert_user pg e h x) d = (Inr (), d')"
    using assms by (auto simp: CreateUser_def split: prod.splits sum.splits)
  then have "insert_user pg e h x d = (Inr (), d')" by (simp add: transact_eq_Inr)
  then show ?thesis by (auto simp: insert_user_def andthen_require andthen_get modify_apply split: if_splits)
qed

lemma GetUserByEmail_row:
  assumes "List.find (\<lambda>u. email u = e) (users d) = Some row" and "connects pg" and "commits pg"
  shows "GetUserByEmail pg e d = (Inr \<lparr>found = True, user_id = uid row, user_password_hash = password_hash row,
      user_salt = salt row\<rparr>, d)"
  using assms by (simp add: GetUserByEmail_def transact_def get_def)

definition login_answer :: "string \<Rightarrow> json" where
  "login_answer tok = object [(''status'', JString ''success''), (''token'', JString tok)]"

lemma ascii_token: "ascii (GenerateSessionToken ossl t u k)"
proof -
  have "ascii ''.''" by (simp add: ascii_def code_def)
  then show ?thesis
    using ascii_append [of "''.''"] by (simp add: GenerateSessionToken_def Let_def hmac_sha256_def ascii_hex_string ascii_to_string
        del: append.simps)
qed

lemma login_answer_sent:
  assumes "ascii tok"
  shows "\<exists>body j. dump fl (login_answer tok) = Inr body \<and> parse body = Inr j \<and> json_at j ''token'' = Inr (JString tok)"
proof -
  have "ascii ''status''" "ascii ''token''" "ascii ''success''" by code_simp+
  then have "dumpable (login_answer tok)" "readable (login_answer tok)"
    unfolding login_answer_def using assms by (auto intro!: object_dumpable object_readable ascii_utf8)
  then obtain body where "dump fl (login_answer tok) = Inr body" "parse body = Inr (as_read (login_answer tok))"
    using sent_and_parsed by blast
  moreover have "json_at (as_read (login_answer tok)) ''token'' = Inr (JString tok)"
    by (simp add: login_answer_def object_at)
  ultimately show ?thesis by blast
qed

lemma login_accepted:
  assumes "sends_credentials req e p" and "req_path req = ''/auth/login''" and "memcmp_ok (m_ossl env)"
    and "op_GetUserByEmail R e s = (Inr user, s')" and "found user"
    and "HashPasswordPBKDF2 (m_ossl env) p (user_salt user) = Inr (user_password_hash user)"
  shows "\<exists>r j. MasterServer env R req s = (Some r, s') \<and> res_status r = 200 \<and> parse (res_body r) = Inr j \<and>
     json_at j ''token'' = Inr (JString (GenerateSessionToken (m_ossl env) (m_time env) (user_id user) (session_secret env)))"
proof -
  let ?tok = "GenerateSessionToken (m_ossl env) (m_time env) (user_id user) (session_secret env)"
  obtain j where j: "parse (req_body req) = Inr j" "json_at j ''email'' = Inr (JString e)"
    "json_at j ''password'' = Inr (JString p)" using assms(1) by (auto simp: sends_credentials_def)
  obtain body k where body: "dump (m_float env) (login_answer ?tok) = Inr body" "parse body = Inr k"
    "json_at k ''token'' = Inr (JString ?tok)" using login_answer_sent [OF ascii_token] by blast
  have run: "MasterServer env R req s = run_handler (HandleLogin env R req) s"
    using assms(1,2) by (intro master_handler(2)) (simp_all add: sends_credentials_def)
  have get: "andthen (op_GetUserByEmail R e) f s = f user s'" for f :: "UserRecord \<Rightarrow> ('a, Response) action"
    by (rule andthen_Inr) (rule assms(4))
  have "HandleLogin env R req s = (Inr (answer unset_status body), s')"
    using assms(4-6) j body(1)
    by (simp add: HandleLogin_def catching_def andthen_of_outcome get get_string_def
        ConstantTimeEquals_eq [OF assms(3)] send_json_def login_answer_def [symmetric] outcome_simps)
  then have "MasterServer env R req s = (Some (answer 200 body), s')"
    by (simp add: run run_handler_def answer_def set_content_def with_status_def unset_status_def)
  then show ?thesis using body by (simp add: answer_def set_content_def with_status_def)
qed

text \<open>C10: Whoever signs up can log in: after a sign-up that was answered 201, a log-in with the same e-mail and
  password over a working database is answered 200 with a token that, for a day and under the master's secret,
  authenticates exactly the new user; and a sign-up never takes an e-mail that is in use.\<close>

theorem signup_then_login:
  assumes "memcmp_ok (m_ossl env)" and "digest_ok (m_ossl env)"
    and "m_ossl env' = m_ossl env" and "llong_range (m_time env' + 86400)"
    and "sends_credentials req e p" and "req_path req = ''/auth/signup''"
    and "MasterServer env (PostgresRepository nb) req w = (Some r, w1)" and "res_status r = 201"
    and "sends_credentials req' e p" and "req_path req' = ''/auth/login''"
    and "connects (now w1)" and "commits (now w1)" and "int_range (user_seq (tables w))"
  shows "e \<notin> email ` set (users (tables w)) \<and>
    (\<exists>r' w2 j tok. MasterServer env' (PostgresRepository nb) req' w1 = (Some r', w2) \<and> res_status r' = 200 \<and>
       parse (res_body r') = Inr j \<and> json_at j ''token'' = Inr (JString tok) \<and>
       (\<forall>t. VerifySessionToken (m_ossl env') t tok (session_secret env') =
          (if t \<le> m_time env' + 86400 then Some (user_seq (tables w)) else None)))"
proof -
  obtain x hp where hp: "HashPasswordPBKDF2 (m_ossl env) p x = Inr hp"
    and "op_CreateUser (PostgresRepository nb) e hp x w = (Inr True, w1)"
    using signup_created [OF assms(5-8)] by blast
  then have created: "e \<notin> email ` set (users (tables w))"
    "users (tables w1) = users (tables w) @ [\<lparr>uid = user_seq (tables w), email = e, password_hash = hp, salt = x\<rparr>]"
    by (auto simp: PostgresRepository_def in_turn_eq no_throw_eq dest!: CreateUser_True)
  then have "List.find (\<lambda>u. email u = e) (users (tables w)) = None" by (auto simp: find_None_conv)
  then have "List.find (\<lambda>u. email u = e) (users (tables w1)) =
      Some \<lparr>uid = user_seq (tables w), email = e, password_hash = hp, salt = x\<rparr>"
    using created(2) by (simp add: find_snoc)
  from GetUserByEmail_row [OF this assms(11,12)]
  have get: "op_GetUserByEmail (PostgresRepository nb) e w1 =
      (Inr \<lparr>found = True, user_id = user_seq (tables w), user_password_hash = hp, user_salt = x\<rparr>, after_turn (tables w1) w1)"
    by (simp add: PostgresRepository_def in_turn_def)
  have "\<exists>r j. MasterServer env' (PostgresRepository nb) req' w1 = (Some r, after_turn (tables w1) w1) \<and> res_status r = 200 \<and>
      parse (res_body r) = Inr j \<and> json_at j ''token'' =
        Inr (JString (GenerateSessionToken (m_ossl env') (m_time env') (user_seq (tables w)) (session_secret env')))"
    using login_accepted [where env = env', OF assms(9,10) _ get] assms(1,3) hp by simp
  then show ?thesis using created(1) token_verifies [of "m_ossl env'"] assms(1-4,13) by metis
qed

definition quote :: "string \<Rightarrow> string" where
  "quote t = [CHR 34] @ t @ [CHR 34]"

definition run_credentials :: "string \<Rightarrow> Request" where
  "run_credentials p = \<lparr>req_method = ''POST'', req_path = p, req_params = [], req_headers = [],
     req_body = ''{'' @ quote ''email'' @ '':'' @ quote ''x@y.z'' @ '','' @ quote ''password'' @ '':'' @ quote ''pw'' @ ''}''\<rparr>"

lemma run_sends: "sends_credentials (run_credentials p) ''x@y.z'' ''pw''"
proof -
  have "parse (''{'' @ quote ''email'' @ '':'' @ quote ''x@y.z'' @ '','' @ quote ''password'' @ '':'' @ quote ''pw'' @ ''}'') =
      Inr (JObject [(''email'', JString ''x@y.z''), (''password'', JString ''pw'')])"
    by code_simp
  then show ?thesis by (simp add: sends_credentials_def json_at_def run_credentials_def quote_def master_payload_max_def)
qed

definition run_start :: pg_world where
  "run_start = \<lparr>tables = empty_db, server = (\<lambda>_. sample_pg 1), turn = 0\<rparr>"

definition run_signed :: pg_world where
  "run_signed = snd (MasterServer sample_env (PostgresRepository 2) (run_credentials ''/auth/signup'') run_start)"

lemma run_signup: "MasterServer sample_env (PostgresRepository 2) (run_credentials ''/auth/signup'') run_start =
    (Some (answer 201 (literal_json ''status'' ''success'')), run_signed)"
proof -
  have "fst (MasterServer sample_env (PostgresRepository 2) (run_credentials ''/auth/signup'') run_start) =
      Some (answer 201 (literal_json ''status'' ''success''))"
    by code_simp
  then show ?thesis by (simp add: run_signed_def prod_eq_iff)
qed

lemma run_signed_up: "connects (now run_signed) \<and> commits (now run_signed)"
  by code_simp

lemma signup_then_login_witness:
  "\<exists>r w2 j tok. MasterServer sample_env (PostgresRepository 2) (run_credentials ''/auth/login'') run_signed = (Some r, w2) \<and>
     res_status r = 200 \<and> parse (res_body r) = Inr j \<and> json_at j ''token'' = Inr (JString tok) \<and>
     VerifySessionToken sample_ossl 5000 tok ''s'' = Some 1"
proof -
  have env: "m_ossl sample_env = sample_ossl" "m_time sample_env = 1000" "session_secret sample_env = ''s''"
    by (simp_all add: sample_env_def)
  have seq: "user_seq (tables run_start) = 1" by (simp add: run_start_def empty_db_def)
  have range: "llong_range (1000 + 86400)" "int_range 1" by (simp_all add: llong_range_def int_range_def)
  have "res_status (answer 201 (literal_json ''status'' ''success'')) = 201"
    by (simp add: answer_def set_content_def with_status_def)
  moreover have "req_path (run_credentials p) = p" for p by (simp add: run_credentials_def)
  ultimately show ?thesis
    using signup_then_login [OF _ _ refl _ run_sends _ run_signup _ run_sends _ conjunct1 [OF run_signed_up] conjunct2 [OF run_signed_up]] env seq range sample_ossl_ok by auto
qed

end
