(* ===== verification/Client_World.thy ===== *)
theory Client_World
  imports Json_Wire Master_Server
begin

text \<open>
  What the client program acts on: the files of its machine, its open stream, its session token, and
  the network behind which the master and the workers stand. The operating system answers each call
  by the number of the call, which covers other programs that change files in between, calls that
  fail, and signals that change the state of the transfer.
\<close>

section \<open>The state\<close>

record local_file =
  contents :: string
  write_time :: int

type_synonym file_system = "string \<Rightarrow> local_file option"

record os_answers =
  meddling :: "nat \<Rightarrow> file_system \<Rightarrow> file_system"
  refused :: "nat \<Rightarrow> bool"
  transfer_state :: "nat \<Rightarrow> TransferState"
  system_clock :: "nat \<Rightarrow> int"
  write_clock :: "nat \<Rightarrow> int"
  thread_schedule :: "nat \<Rightarrow> nat list"

text \<open>The open stream of the client: its path, and whether an operation on it has failed.\<close>

record 'w client =
  local_files :: file_system
  file_stream :: "(string \<times> bool) option"
  auth_token :: string
  remote :: 'w
  os_answer :: os_answers
  moment :: nat

text \<open>A program run finds its command line's environment and the libraries it is linked with.\<close>

record client_env =
  c_ossl :: openssl
  c_float :: "double \<Rightarrow> string"
  master_url :: string
  home_directory :: string

text \<open>
  The network: the base address, the method, the target, the headers and the body of a request, and
  the response, if one arrives.
\<close>

type_synonym 'w network =
  "string \<Rightarrow> string \<Rightarrow> string \<Rightarrow> (string \<times> string) list \<Rightarrow> string \<Rightarrow> 'w \<Rightarrow> Response option \<times> 'w"

section \<open>Calls\<close>

text \<open>The next call: others have been at the files, and the call works or is refused.\<close>

definition next_call :: "('w client, bool) action" where
  "next_call = (\<lambda>s. let n = moment s in
     (Inr (\<not> refused (os_answer s) n), s\<lparr>local_files := meddling (os_answer s) n (local_files s), moment := n + 1\<rparr>))"

text \<open>\<^verbatim>\<open>std::filesystem::file_size\<close> and \<^verbatim>\<open>last_write_time\<close>; \<open>None\<close> is an error code.\<close>

definition fs_file_size :: "string \<Rightarrow> ('w client, int option) action" where
  "fs_file_size p = andthen next_call (\<lambda>works. get (\<lambda>s.
     if works then map_option (\<lambda>f. int (length (contents f))) (local_files s p) else None))"

definition fs_last_write_time :: "string \<Rightarrow> ('w client, int option) action" where
  "fs_last_write_time p = andthen next_call (\<lambda>works. get (\<lambda>s.
     if works then map_option write_time (local_files s p) else None))"

definition fs_exists :: "string \<Rightarrow> ('w client, bool) action" where
  "fs_exists p = andthen next_call (\<lambda>works. get (\<lambda>s. works \<and> local_files s p \<noteq> None))"

text \<open>A file read in one go through an \<^verbatim>\<open>ifstream\<close>; \<open>None\<close> if it does not open.\<close>

definition fs_read :: "string \<Rightarrow> ('w client, string option) action" where
  "fs_read p = andthen next_call (\<lambda>works. get (\<lambda>s.
     if works then map_option contents (local_files s p) else None))"

definition set_file :: "string \<Rightarrow> string \<Rightarrow> 'w client \<Rightarrow> 'w client" where
  "set_file p content s =
     s\<lparr>local_files := (local_files s)(p \<mapsto> \<lparr>contents = content, write_time = write_clock (os_answer s) (moment s)\<rparr>)\<rparr>"

text \<open>A file written from the start through an \<^verbatim>\<open>ofstream\<close>, and one appended to.\<close>

definition fs_write :: "string \<Rightarrow> string \<Rightarrow> ('w client, bool) action" where
  "fs_write p content = andthen next_call (\<lambda>works.
     if works then andthen (modify (set_file p content)) (\<lambda>_. ret True) else ret False)"

definition fs_append :: "string \<Rightarrow> string \<Rightarrow> ('w client, bool) action" where
  "fs_append p content = andthen next_call (\<lambda>works.
     if works then andthen (modify (\<lambda>s. set_file p
       ((case local_files s p of None \<Rightarrow> [] | Some f \<Rightarrow> contents f) @ content) s)) (\<lambda>_. ret True)
     else ret False)"

definition fs_remove :: "string \<Rightarrow> ('w client, unit) action" where
  "fs_remove p = andthen next_call (\<lambda>works.
     if works then modify (\<lambda>s. s\<lparr>local_files := (local_files s)(p := None)\<rparr>) else ret ())"

text \<open>\<^verbatim>\<open>state->load()\<close> and \<^verbatim>\<open>system_clock::now()\<close>.\<close>

definition load_state :: "('w client, TransferState) action" where
  "load_state = andthen (get (\<lambda>s. transfer_state (os_answer s) (moment s))) (\<lambda>st. andthen next_call (\<lambda>_. ret st))"

definition now_seconds :: "('w client, int) action" where
  "now_seconds = get (\<lambda>s. system_clock (os_answer s) (moment s))"

definition http_call :: "'w network \<Rightarrow> string \<Rightarrow> string \<Rightarrow> string \<Rightarrow> (string \<times> string) list \<Rightarrow> string \<Rightarrow> ('w client, Response option) action" where
  "http_call net url m target headers body = (\<lambda>s.
     case net url m target headers body (remote s) of (r, w) \<Rightarrow> (Inr r, s\<lparr>remote := w\<rparr>))"

text \<open>\<^verbatim>\<open>try\<close> and \<^verbatim>\<open>catch (const std::exception &)\<close>.\<close>

definition try_catch :: "('s, 'a) action \<Rightarrow> (exn \<Rightarrow> ('s, 'a) action) \<Rightarrow> ('s, 'a) action" where
  "try_catch m h = (\<lambda>s. case m s of
       (Inl e, s') \<Rightarrow> if e = Trap then (Inl e, s') else h e s'
     | (Inr x, s') \<Rightarrow> (Inr x, s'))"

text \<open>A computation that may throw, and what is made of its result.\<close>

definition bind_outcome :: "'a outcome \<Rightarrow> ('a \<Rightarrow> 'b outcome) \<Rightarrow> 'b outcome" where
  "bind_outcome x f = (case x of Inl e \<Rightarrow> Inl e | Inr y \<Rightarrow> f y)"

lemma bind_Inr [simp]: "bind_outcome (Inr x) f = f x"
  by (simp add: bind_outcome_def)

section \<open>A machine at rest\<close>

text \<open>From here on every call works and nobody else changes a file.\<close>

definition quiet :: "'w client \<Rightarrow> bool" where
  "quiet s \<longleftrightarrow> (\<forall>k\<ge>moment s. \<not> refused (os_answer s) k \<and> meddling (os_answer s) k = (\<lambda>fs. fs))"

definition content_at :: "'w client \<Rightarrow> string \<Rightarrow> string option" where
  "content_at s p = map_option contents (local_files s p)"

abbreviation passed :: "'w client \<Rightarrow> 'w client" where
  "passed s \<equiv> s\<lparr>moment := Suc (moment s)\<rparr>"

named_theorems quiet_simps "calls on a machine at rest"

lemma quiet_step [quiet_simps]:
  "quiet s \<Longrightarrow> moment s \<le> n \<Longrightarrow> quiet (s\<lparr>moment := n\<rparr>)" "quiet (set_file p c s) = quiet s" "quiet (s\<lparr>file_stream := f\<rparr>) = quiet s"
  "quiet (s\<lparr>auth_token := t\<rparr>) = quiet s" "quiet (s\<lparr>remote := w\<rparr>) = quiet s" "quiet (s\<lparr>local_files := fs\<rparr>) = quiet s"
  by (simp_all add: quiet_def set_file_def)

lemma content_step [quiet_simps]:
  "content_at (s\<lparr>moment := n\<rparr>) q = content_at s q" "content_at (set_file p c s) q = (if q = p then Some c else content_at s q)"
  by (simp_all add: content_at_def set_file_def)

lemma quiet_call [quiet_simps]: "quiet s \<Longrightarrow> next_call s = (Inr True, passed s)"
  by (simp add: quiet_def next_call_def Let_def)

lemma quiet_read [quiet_simps]: "quiet s \<Longrightarrow> fs_read p s = (Inr (content_at s p), passed s)"
  by (simp add: fs_read_def andthen_Inr quiet_call get_def content_at_def)

lemma quiet_write [quiet_simps]: "quiet s \<Longrightarrow> fs_write p c s = (Inr True, set_file p c (passed s))"
  by (simp add: fs_write_def andthen_Inr quiet_call modify_apply ret_apply)

lemma quiet_append [quiet_simps]:
  "quiet s \<Longrightarrow> fs_append p c s = (Inr True, set_file p ((case content_at s p of None \<Rightarrow> [] | Some b \<Rightarrow> b) @ c) (passed s))"
  by (simp add: fs_append_def andthen_Inr quiet_call modify_apply ret_apply content_at_def split: option.split)

end
