(* ===== verification/File_Slicer.thy ===== *)
theory File_Slicer
  imports Client_World
begin

text \<open>
  \<^verbatim>\<open>client/file/IFileSlicer.hpp\<close>, \<^verbatim>\<open>client/file/LocalFileSlicer.cpp\<close> and
  \<^verbatim>\<open>client/crypto\<close>: a file is cut into chunks of one size, hashed in a first pass and read
  chunk by chunk in a second one. The hashes are computed by a thread pool; each future holds the
  hash of its chunk and the futures are collected in the order of the chunks, so that the order in
  which the threads run has no effect on the result.
\<close>

section \<open>The interfaces\<close>

record ICryptoEngine =
  ComputeHash :: "string \<Rightarrow> string outcome"

definition OpenSSLCryptoEngine :: "openssl \<Rightarrow> ICryptoEngine" where
  "OpenSSLCryptoEngine ossl = \<lparr>ComputeHash = sha256 ossl\<rparr>"

record 's IFileSlicer =
  sl_ComputeHashes :: "string \<Rightarrow> nat \<Rightarrow> ('s, string list) action"
  sl_OpenStream :: "string \<Rightarrow> nat \<Rightarrow> ('s, unit) action"
  sl_ReadChunk :: "int \<Rightarrow> nat \<Rightarrow> ('s, string) action"
  sl_CloseStream :: "('s, unit) action"

section \<open>Pass 1\<close>

text \<open>
  The reads of the loop: full buffers, then the rest, as long as a read yields anything. The buffer
  has the size of a chunk, which is positive. The file is taken as it is when it is opened.
\<close>

function read_chunks :: "nat \<Rightarrow> string \<Rightarrow> string list" where
  "read_chunks n s = (if s = [] \<or> n = 0 then [] else take n s # read_chunks n (drop n s))"
  by pat_completeness auto
termination by (relation "measure (\<lambda>(n, s). length s)") auto

declare read_chunks.simps [simp del]

text \<open>
  A hash that fails puts its exception into the future; \<^verbatim>\<open>get\<close> throws it while the pool is
  still running, and the destruction of its threads ends the process.
\<close>

definition collect_hashes :: "ICryptoEngine \<Rightarrow> string list \<Rightarrow> string list outcome" where
  "collect_hashes crypto parts =
     (if list_all (\<lambda>d. case ComputeHash crypto d of Inl _ \<Rightarrow> False | Inr _ \<Rightarrow> True) parts
      then Inr (map (\<lambda>d. case ComputeHash crypto d of Inl _ \<Rightarrow> [] | Inr h \<Rightarrow> h) parts)
      else Inl Trap)"

definition ComputeHashes :: "ICryptoEngine \<Rightarrow> string \<Rightarrow> nat \<Rightarrow> ('w client, string list) action" where
  "ComputeHashes crypto p chunk_size =
     andthen (fs_read p) (\<lambda>content.
     case content of
       None \<Rightarrow> throw (RuntimeError ''Failed to open file for hashing.'')
     | Some bytes \<Rightarrow> of_outcome (collect_hashes crypto (read_chunks chunk_size bytes)))"

section \<open>Pass 2\<close>

definition CloseStream :: "('w client, unit) action" where
  "CloseStream = modify (\<lambda>s. s\<lparr>file_stream := None\<rparr>)"

definition OpenStream :: "string \<Rightarrow> nat \<Rightarrow> ('w client, unit) action" where
  "OpenStream p chunk_size =
     andthen CloseStream (\<lambda>_. andthen (fs_read p) (\<lambda>content.
     case content of
       None \<Rightarrow> throw (RuntimeError ''Failed to open file stream.'')
     | Some _ \<Rightarrow> modify (\<lambda>s. s\<lparr>file_stream := Some (p, False)\<rparr>)))"

text \<open>
  A stream on which a read has come up short stays in the failed state: seeking clears the end of
  the file, but not the failure, so that every later read on it yields nothing.
\<close>

definition ReadChunk :: "int \<Rightarrow> nat \<Rightarrow> ('w client, string) action" where
  "ReadChunk index chunk_size =
     andthen next_call (\<lambda>_ s.
     case file_stream s of
       None \<Rightarrow> (Inr [], s)
     | Some (p, failed) \<Rightarrow>
         let content = (case local_files s p of None \<Rightarrow> [] | Some f \<Rightarrow> contents f);
             buffer = (if failed \<or> index < 0 then [] else take chunk_size (drop (nat index * chunk_size) content))
         in (Inr buffer, s\<lparr>file_stream := Some (p, failed \<or> index < 0 \<or> length buffer < chunk_size)\<rparr>))"

definition LocalFileSlicer :: "ICryptoEngine \<Rightarrow> 'w client IFileSlicer" where
  "LocalFileSlicer crypto =
     \<lparr>sl_ComputeHashes = ComputeHashes crypto, sl_OpenStream = OpenStream, sl_ReadChunk = ReadChunk, sl_CloseStream = CloseStream\<rparr>"

section \<open>Chunks\<close>

definition chunk_at :: "nat \<Rightarrow> string \<Rightarrow> nat \<Rightarrow> string" where
  "chunk_at n content i = take n (drop (i * n) content)"

lemma read_chunks_Nil [simp]: "read_chunks n [] = []"
  by (subst read_chunks.simps) simp

lemma read_chunks_step: "s \<noteq> [] \<Longrightarrow> 0 < n \<Longrightarrow> read_chunks n s = take n s # read_chunks n (drop n s)"
  by (subst read_chunks.simps) simp

lemma concat_read_chunks: "0 < n \<Longrightarrow> concat (read_chunks n s) = s"
proof (induction n s rule: read_chunks.induct)
  case (1 n s)
  then show ?case by (cases "s = []") (simp_all add: read_chunks_step)
qed

lemma nth_read_chunks: "0 < n \<Longrightarrow> i < length (read_chunks n s) \<Longrightarrow> read_chunks n s ! i = chunk_at n s i"
proof (induction n s arbitrary: i rule: read_chunks.induct)
  case (1 n s)
  then show ?case
    by (cases "s = []"; cases i) (simp_all add: read_chunks_step chunk_at_def add.commute)
qed

lemma length_read_chunks: "0 < n \<Longrightarrow> length (read_chunks n s) = (length s + n - 1) div n"
proof (induction n s rule: read_chunks.induct)
  case (1 n s)
  show ?case
  proof (cases "s = []")
    case False
    then have "length (read_chunks n s) = Suc ((length s - n + n - 1) div n)"
      using 1 by (simp add: read_chunks_step)
    also have "\<dots> = (length s + n - 1) div n"
    proof (cases "length s \<le> n")
      case True
      then have "length s + n - 1 = n + (length s - 1)" "length s - 1 < n" using False 1(2) by (cases s; simp)+
      then have "(length s + n - 1) div n = 1" using 1(2) by (simp only: div_add_self1) simp
      then show ?thesis using True 1(2) by simp
    next
      case longer: False
      then have "length s + n - 1 = n + (length s - n + n - 1)" using 1(2) by simp
      then have "(length s + n - 1) div n = Suc ((length s - n + n - 1) div n)" using 1(2) by (simp only: div_add_self1)
      then show ?thesis ..
    qed
    finally show ?thesis .
  qed (use 1 in simp)
qed

lemma collect_hashes_Inr:
  "collect_hashes crypto parts = Inr hs \<longleftrightarrow> length hs = length parts \<and> (\<forall>i<length parts. ComputeHash crypto (parts ! i) = Inr (hs ! i))"
proof
  assume "collect_hashes crypto parts = Inr hs"
  then show "length hs = length parts \<and> (\<forall>i<length parts. ComputeHash crypto (parts ! i) = Inr (hs ! i))"
    by (auto simp: collect_hashes_def list_all_length split: if_splits sum.splits) 
next
  assume hs: "length hs = length parts \<and> (\<forall>i<length parts. ComputeHash crypto (parts ! i) = Inr (hs ! i))"
  then have "list_all (\<lambda>d. case ComputeHash crypto d of Inl _ \<Rightarrow> False | Inr _ \<Rightarrow> True) parts"
    by (simp add: list_all_length)
  moreover have "map (\<lambda>d. case ComputeHash crypto d of Inl _ \<Rightarrow> [] | Inr h \<Rightarrow> h) parts = hs"
    using hs by (intro nth_equalityI) simp_all
  ultimately show "collect_hashes crypto parts = Inr hs" by (simp add: collect_hashes_def)
qed

section \<open>The contract of a slicer\<close>

text \<open>The hashes of the chunks of a file.\<close>

definition hashes_of :: "ICryptoEngine \<Rightarrow> nat \<Rightarrow> string \<Rightarrow> string list \<Rightarrow> bool" where
  "hashes_of crypto n content hs \<longleftrightarrow> length hs = (length content + n - 1) div n \<and>
     (\<forall>i<length hs. ComputeHash crypto (chunk_at n content i) = Inr (hs ! i))"

text \<open>The chunks with the given indices, read one after the other from the open stream.\<close>

fun read_all :: "'s IFileSlicer \<Rightarrow> nat \<Rightarrow> nat list \<Rightarrow> ('s, string list) action" where
  "read_all S n [] = ret []"
| "read_all S n (i # ks) = andthen (sl_ReadChunk S (int i) n) (\<lambda>d. andthen (read_all S n ks) (\<lambda>ds. ret (d # ds)))"

lemma full_chunk: "Suc i < (length content + n - 1) div n \<Longrightarrow> length (chunk_at n content i) = n"
proof -
  assume "Suc i < (length content + n - 1) div n"
  then have "Suc (Suc i) * n \<le> (length content + n - 1) div n * n" by (simp only: mult_le_mono1 Suc_leI)
  also have "\<dots> \<le> length content + n - 1" by simp
  finally show ?thesis by (simp add: chunk_at_def)
qed

locale file_slicer =
  fixes S :: "'s IFileSlicer"
    and crypto :: ICryptoEngine
    and steady :: "'s \<Rightarrow> string \<Rightarrow> string \<Rightarrow> bool"
    and reading :: "'s \<Rightarrow> string option"
  assumes hashes_law: "\<And>p n s hs s' content. 0 < n \<Longrightarrow> steady s p content \<Longrightarrow> sl_ComputeHashes S p n s = (Inr hs, s') \<Longrightarrow>
      hashes_of crypto n content hs \<and> steady s' p content"
    and open_law: "\<And>p n s s' content. steady s p content \<Longrightarrow> sl_OpenStream S p n s = (Inr (), s') \<Longrightarrow>
      reading s' = Some p \<and> steady s' p content"
    and read_law: "\<And>p n i s d s' content. steady s p content \<Longrightarrow> reading s = Some p \<Longrightarrow>
      sl_ReadChunk S (int i) n s = (Inr d, s') \<Longrightarrow>
      d = chunk_at n content i \<and> steady s' p content \<and> (length d = n \<longrightarrow> reading s' = Some p)"
begin

text \<open>Chunks read in ascending order, from a file that stays as it is, are the ones that were hashed.\<close>

lemma read_ascending:
  "hashes_of crypto n content hs \<Longrightarrow> sorted_wrt (<) ks \<Longrightarrow> \<forall>i\<in>set ks. i < length hs \<Longrightarrow> steady s p content \<Longrightarrow>
    reading s = Some p \<Longrightarrow> read_all S n ks s = (Inr ds, s') \<Longrightarrow> map (ComputeHash crypto) ds = map (\<lambda>i. Inr (hs ! i)) ks"
proof (induction ks arbitrary: s ds)
  case (Cons i ks)
  from Cons.prems(6) obtain d t ds' where d: "sl_ReadChunk S (int i) n s = (Inr d, t)" and ds': "read_all S n ks t = (Inr ds', s')"
    and ds: "ds = d # ds'" by (auto simp: andthen_eq_Inr ret_eq_Inr)
  have read: "d = chunk_at n content i" "steady t p content" "length d = n \<Longrightarrow> reading t = Some p"
    using read_law [OF Cons.prems(4,5) d] by auto
  have "ComputeHash crypto d = Inr (hs ! i)" using read(1) Cons.prems(1,3) by (simp add: hashes_of_def)
  moreover have "map (ComputeHash crypto) ds' = map (\<lambda>i. Inr (hs ! i)) ks"
  proof (cases ks)
    case Nil
    then show ?thesis using ds' by (simp add: ret_eq_Inr)
  next
    case (Cons k ks')
    then have "i < k" "k < length hs" using Cons.prems(2,3) by simp_all
    then have "length d = n" using read(1) full_chunk [of i content n] Cons.prems(1) by (simp add: hashes_of_def)
    then show ?thesis using Cons.IH [OF Cons.prems(1) _ _ read(2,3) ds'] Cons.prems(2,3) by simp
  qed
  ultimately show ?case by (simp add: ds)
qed (simp add: ret_eq_Inr)

lemma hash_then_read:
  assumes "0 < n" and "steady s p content" and "sl_ComputeHashes S p n s = (Inr hs, s1)" and "sl_OpenStream S p n s1 = (Inr (), s2)"
    and "read_all S n ks s2 = (Inr ds, s3)" and "sorted_wrt (<) ks" and "\<forall>i\<in>set ks. i < length hs"
  shows "map (ComputeHash crypto) ds = map (\<lambda>i. Inr (hs ! i)) ks"
proof -
  have "hashes_of crypto n content hs" "steady s1 p content" using hashes_law [OF assms(1-3)] by auto
  moreover have "reading s2 = Some p" "steady s2 p content" using open_law [OF calculation(2) assms(4)] by auto
  ultimately show ?thesis using read_ascending assms(5-7) by blast
qed

end

section \<open>The local slicer keeps it\<close>

text \<open>The file has this content and nobody touches it from here on.\<close>

definition file_steady :: "'w client \<Rightarrow> string \<Rightarrow> string \<Rightarrow> bool" where
  "file_steady s p content \<longleftrightarrow> map_option contents (local_files s p) = Some content \<and>
     (\<forall>k\<ge>moment s. \<forall>fs. meddling (os_answer s) k fs p = fs p)"

definition stream_path :: "'w client \<Rightarrow> string option" where
  "stream_path s = (case file_stream s of Some (p, False) \<Rightarrow> Some p | _ \<Rightarrow> None)"

lemma next_call_apply:
  "next_call s = (Inr (\<not> refused (os_answer s) (moment s)),
     s\<lparr>local_files := meddling (os_answer s) (moment s) (local_files s), moment := moment s + 1\<rparr>)"
  by (simp add: next_call_def Let_def)

lemma steady_call: "next_call s = (Inr b, s') \<Longrightarrow> file_steady s p content \<Longrightarrow> file_steady s' p content"
  by (auto simp: next_call_apply file_steady_def)

lemma fs_read_Inr:
  "fs_read p s = (Inr r, s') \<longleftrightarrow> (\<exists>b. next_call s = (Inr b, s') \<and> r = (if b then map_option contents (local_files s' p) else None))"
  by (auto simp: fs_read_def andthen_eq_Inr get_eq_Inr)

interpretation local_slicer: file_slicer "LocalFileSlicer crypto" crypto file_steady stream_path
proof
  fix p :: string and n :: nat and s :: "'a client" and hs s' content
  assume n: "0 < n" and steady: "file_steady s p content" and run: "sl_ComputeHashes (LocalFileSlicer crypto) p n s = (Inr hs, s')"
  then obtain bytes where bytes: "fs_read p s = (Inr (Some bytes), s')" "collect_hashes crypto (read_chunks n bytes) = Inr hs"
    by (auto simp: LocalFileSlicer_def ComputeHashes_def andthen_eq_Inr of_outcome_def throw_def split: option.splits)
  then obtain b where call: "next_call s = (Inr b, s')" and "Some bytes = (if b then map_option contents (local_files s' p) else None)"
    by (auto simp: fs_read_Inr)
  moreover have steady': "file_steady s' p content" by (rule steady_call [OF call steady])
  ultimately have "bytes = content" by (auto simp: file_steady_def split: if_splits)
  then show "hashes_of crypto n content hs \<and> file_steady s' p content"
    using bytes(2) n steady' by (auto simp: hashes_of_def collect_hashes_Inr length_read_chunks nth_read_chunks)
next
  fix p :: string and n :: nat and s :: "'a client" and s' content
  assume steady: "file_steady s p content" and run: "sl_OpenStream (LocalFileSlicer crypto) p n s = (Inr (), s')"
  then obtain bytes t where "fs_read p (s\<lparr>file_stream := None\<rparr>) = (Inr (Some bytes), t)" and s': "s' = t\<lparr>file_stream := Some (p, False)\<rparr>"
    by (auto simp: LocalFileSlicer_def OpenStream_def CloseStream_def andthen_eq_Inr modify_eq_Inr throw_eq_Inr split: option.splits)
  then obtain b where "next_call (s\<lparr>file_stream := None\<rparr>) = (Inr b, t)" by (auto simp: fs_read_Inr)
  moreover have "file_steady (s\<lparr>file_stream := None\<rparr>) p content" using steady by (simp add: file_steady_def)
  ultimately have "file_steady t p content" by (rule steady_call)
  then show "stream_path s' = Some p \<and> file_steady s' p content" by (simp add: s' stream_path_def file_steady_def)
next
  fix p :: string and n i :: nat and s :: "'a client" and d s' content
  assume steady: "file_steady s p content" and path: "stream_path s = Some p"
    and run: "sl_ReadChunk (LocalFileSlicer crypto) (int i) n s = (Inr d, s')"
  obtain b t where call: "next_call s = (Inr b, t)" by (auto simp: next_call_apply)
  have steady': "file_steady t p content" by (rule steady_call [OF call steady])
  have "file_stream t = Some (p, False)" using call path by (auto simp: next_call_apply stream_path_def split: option.splits bool.splits)
  then have "d = chunk_at n content i" "s' = t\<lparr>file_stream := Some (p, length d < n)\<rparr>"
    using run call steady' by (auto simp: LocalFileSlicer_def ReadChunk_def andthen_def Let_def chunk_at_def file_steady_def)
  then show "d = chunk_at n content i \<and> file_steady s' p content \<and> (length d = n \<longrightarrow> stream_path s' = Some p)"
    using steady' by (simp add: file_steady_def stream_path_def)
qed


text \<open>C14: Both passes over a file agree: as long as nobody changes the file, the chunks that the second pass reads
  in ascending order are exactly those whose hashes the first pass reported at their indices.\<close>

theorem passes_agree:
  assumes "0 < n" and "file_steady s p content" and "ComputeHashes crypto p n s = (Inr hs, s1)" and "OpenStream p n s1 = (Inr (), s2)"
    and "read_all (LocalFileSlicer crypto) n ks s2 = (Inr ds, s3)" and "sorted_wrt (<) ks" and "\<forall>i\<in>set ks. i < length hs"
  shows "map (ComputeHash crypto) ds = map (\<lambda>i. Inr (hs ! i)) ks"
  using local_slicer.hash_then_read [OF assms(1,2) _ _ assms(5-7)] assms(3,4) by (simp add: LocalFileSlicer_def)

definition sample_disk :: "unit client" where
  "sample_disk = \<lparr>local_files = [''/d/f'' \<mapsto> \<lparr>contents = ''abcdefgh'', write_time = 3\<rparr>], file_stream = None, auth_token = [], remote = (),
     os_answer = \<lparr>meddling = (\<lambda>_ fs. fs), refused = (\<lambda>_. False), transfer_state = (\<lambda>_. RUNNING), system_clock = (\<lambda>_. 5000),
       write_clock = (\<lambda>_. 7), thread_schedule = (\<lambda>_. [])\<rparr>, moment = 0\<rparr>"

definition sample_crypto :: ICryptoEngine where
  "sample_crypto = \<lparr>ComputeHash = (\<lambda>d. Inr (''#'' @ d))\<rparr>"

lemma passes_agree_witness:
  "\<exists>s1 s2 s3. ComputeHashes sample_crypto ''/d/f'' 3 sample_disk = (Inr [''#abc'', ''#def'', ''#gh''], s1) \<and>
     OpenStream ''/d/f'' 3 s1 = (Inr (), s2) \<and> read_all (LocalFileSlicer sample_crypto) 3 [0, 2] s2 = (Inr [''abc'', ''gh''], s3) \<and>
     map (ComputeHash sample_crypto) [''abc'', ''gh''] = map (\<lambda>i. Inr ([''#abc'', ''#def'', ''#gh''] ! i)) [0, 2]"
proof -
  define s1 where "s1 = snd (ComputeHashes sample_crypto ''/d/f'' 3 sample_disk)"
  define s2 where "s2 = snd (OpenStream ''/d/f'' 3 s1)"
  have "fst (ComputeHashes sample_crypto ''/d/f'' 3 sample_disk) = Inr [''#abc'', ''#def'', ''#gh'']" by code_simp
  then have 1: "ComputeHashes sample_crypto ''/d/f'' 3 sample_disk = (Inr [''#abc'', ''#def'', ''#gh''], s1)"
    by (simp add: s1_def prod_eq_iff)
  have "fst (OpenStream ''/d/f'' 3 s1) = Inr ()" unfolding s1_def by code_simp
  then have 2: "OpenStream ''/d/f'' 3 s1 = (Inr (), s2)" by (simp add: s2_def prod_eq_iff)
  have "fst (read_all (LocalFileSlicer sample_crypto) 3 [0, 2] s2) = Inr [''abc'', ''gh'']" unfolding s1_def s2_def by code_simp
  then obtain s3 where 3: "read_all (LocalFileSlicer sample_crypto) 3 [0, 2] s2 = (Inr [''abc'', ''gh''], s3)"
    by (metis prod.collapse)
  have "file_steady sample_disk ''/d/f'' ''abcdefgh''" by (simp add: file_steady_def sample_disk_def)
  from passes_agree [OF _ this 1 2 3] 1 2 3 show ?thesis by simp
qed

text \<open>A chunk read after the short last one comes out empty.\<close>

lemma tail_poisons_stream:
  assumes "file_stream s = Some (p, True)"
  shows "fst (ReadChunk i n s) = Inr []"
  using assms by (simp add: ReadChunk_def andthen_def next_call_apply Let_def)

end
