(* ===== verification/State_Manager.thy ===== *)
theory State_Manager
  imports Client_World
begin

text \<open>
  \<^verbatim>\<open>client/state/ILocalStateManager.hpp\<close> and \<^verbatim>\<open>client/state/LocalStateManager.cpp\<close>: what
  the client keeps between its runs. A manifest is a JSON file that is written once per upload; the
  indices of completed chunks are appended to a log beside it; the session token is a member of the
  configuration file.
\<close>

section \<open>The interface\<close>

record 's ILocalStateManager =
  sm_HasActiveUpload :: "string \<Rightarrow> ('s, bool) action"
  sm_LoadUploadManifest :: "string \<Rightarrow> ('s, UploadManifest) action"
  sm_SaveUploadManifest :: "UploadManifest \<Rightarrow> ('s, unit) action"
  sm_AppendCompletedIndices :: "string \<Rightarrow> int list \<Rightarrow> ('s, unit) action"
  sm_DeleteUploadManifest :: "string \<Rightarrow> ('s, unit) action"
  sm_SaveAuthToken :: "string \<Rightarrow> ('s, unit) action"
  sm_LoadAuthToken :: "('s, string) action"

section \<open>Paths\<close>

definition GetHomeDirectory :: "string option \<Rightarrow> string option \<Rightarrow> string \<Rightarrow> string" where
  "GetHomeDirectory home userprofile current =
     (case home of Some h \<Rightarrow> h | None \<Rightarrow> (case userprofile of Some u \<Rightarrow> u | None \<Rightarrow> current))"

definition workspace_dir :: "client_env \<Rightarrow> string" where
  "workspace_dir env = path_append (home_directory env) ''.dse_client''"

definition transfers_dir :: "client_env \<Rightarrow> string" where
  "transfers_dir env = path_append (workspace_dir env) ''transfers''"

definition config_file :: "client_env \<Rightarrow> string" where
  "config_file env = path_append (workspace_dir env) ''config.json''"

definition GetManifestFilename :: "string \<Rightarrow> string" where
  "GetManifestFilename p = path_filename p @ ''.manifest.json''"

definition manifest_path :: "client_env \<Rightarrow> string \<Rightarrow> string" where
  "manifest_path env p = path_append (transfers_dir env) (GetManifestFilename p)"

definition log_path :: "client_env \<Rightarrow> string \<Rightarrow> string" where
  "log_path env p = path_append (transfers_dir env) (path_filename p @ ''.completed.log'')"

section \<open>Manifests\<close>

definition HasActiveUpload :: "client_env \<Rightarrow> string \<Rightarrow> ('w client, bool) action" where
  "HasActiveUpload env p =
     andthen (fs_exists (manifest_path env p)) (\<lambda>found. if found then fs_exists (manifest_path env p) else ret False)"

definition AppendCompletedIndices :: "client_env \<Rightarrow> string \<Rightarrow> int list \<Rightarrow> ('w client, unit) action" where
  "AppendCompletedIndices env p new_indices =
     andthen (fs_append (log_path env p) (print_lines new_indices)) (\<lambda>_. ret ())"

text \<open>A number of the log counts when it names a chunk.\<close>

definition mark_completed :: "int \<Rightarrow> bool list \<Rightarrow> bool list" where
  "mark_completed i bits = (if 0 \<le> i \<and> nat i < length bits then bits[nat i := True] else bits)"

definition completed_bits :: "nat \<Rightarrow> int list \<Rightarrow> bool list" where
  "completed_bits n indices = fold mark_completed indices (replicate n False)"

definition read_manifest_json :: "json \<Rightarrow> UploadManifest outcome" where
  "read_manifest_json j =
     bind_outcome (bind_outcome (json_at j ''filepath'') get_string) (\<lambda>p.
     bind_outcome (bind_outcome (json_at j ''total_size'') get_long_long) (\<lambda>total.
     bind_outcome (bind_outcome (json_at j ''temp_modified_timestamp'') get_long_long) (\<lambda>modified.
     bind_outcome (value_long_long j ''session_timestamp'' 0) (\<lambda>session.
     bind_outcome (bind_outcome (json_at j ''chunk_hashes'') (get_vector get_string)) (\<lambda>hashes.
     Inr (new_UploadManifest\<lparr>filepath := p, total_size := total, temp_modified_timestamp := modified,
       session_timestamp := session, chunk_hashes := hashes\<rparr>))))))"

definition LoadUploadManifest :: "client_env \<Rightarrow> string \<Rightarrow> ('w client, UploadManifest) action" where
  "LoadUploadManifest env p =
     andthen (fs_read (manifest_path env p)) (\<lambda>content.
     case content of
       None \<Rightarrow> throw (RuntimeError ''Manifest file is inaccessible or missing.'')
     | Some text \<Rightarrow>
         andthen (of_outcome (case read_stream text of (Inl e, _) \<Rightarrow> Inl e | (Inr _, j) \<Rightarrow> read_manifest_json j)) (\<lambda>manifest.
         andthen (fs_read (log_path env p)) (\<lambda>log.
         ret (manifest\<lparr>completed_chunks := completed_bits (length (chunk_hashes manifest))
                (case log of None \<Rightarrow> [] | Some text \<Rightarrow> extract_ints text)\<rparr>))))"

definition manifest_json :: "UploadManifest \<Rightarrow> json" where
  "manifest_json m =
     object [(''filepath'', JString (filepath m)), (''total_size'', JInteger (total_size m)),
       (''temp_modified_timestamp'', JInteger (temp_modified_timestamp m)),
       (''session_timestamp'', JInteger (session_timestamp m)),
       (''chunk_hashes'', JArray (map JString (chunk_hashes m)))]"

text \<open>Opening the file empties it, before the text to write is made.\<close>

definition write_json :: "client_env \<Rightarrow> string \<Rightarrow> json \<Rightarrow> ('w client, unit) action" where
  "write_json env p j =
     andthen (fs_write p []) (\<lambda>opened.
     if \<not> opened then ret ()
     else andthen (of_outcome (dump_indent (c_float env) 4 j)) (\<lambda>text. modify (set_file p text)))"

definition SaveUploadManifest :: "client_env \<Rightarrow> UploadManifest \<Rightarrow> ('w client, unit) action" where
  "SaveUploadManifest env m = write_json env (manifest_path env (filepath m)) (manifest_json m)"

definition DeleteUploadManifest :: "client_env \<Rightarrow> string \<Rightarrow> ('w client, unit) action" where
  "DeleteUploadManifest env p = andthen (fs_remove (manifest_path env p)) (\<lambda>_. fs_remove (log_path env p))"

section \<open>The token\<close>

text \<open>A configuration that does not parse is kept as far as it was built, and any error is ignored.\<close>

definition SaveAuthToken :: "client_env \<Rightarrow> string \<Rightarrow> ('w client, unit) action" where
  "SaveAuthToken env token =
     andthen (fs_read (config_file env)) (\<lambda>content.
     andthen (of_outcome (store_member (case content of None \<Rightarrow> JNull | Some text \<Rightarrow> snd (read_stream text)) ''auth_token'' (JString token)))
     (\<lambda>config_json. write_json env (config_file env) config_json))"

definition LoadAuthToken :: "client_env \<Rightarrow> ('w client, string) action" where
  "LoadAuthToken env =
     andthen (fs_read (config_file env)) (\<lambda>content.
     ret (case content of
       None \<Rightarrow> []
     | Some text \<Rightarrow>
         (case read_stream text of
            (Inl _, _) \<Rightarrow> []
          | (Inr _, config_json) \<Rightarrow>
              if contains config_json ''auth_token'' then
                (case bind_outcome (subscript config_json ''auth_token'') (\<lambda>(token, _). get_string token) of Inl _ \<Rightarrow> [] | Inr token \<Rightarrow> token)
              else [])))"

definition LocalStateManager :: "client_env \<Rightarrow> 'w client ILocalStateManager" where
  "LocalStateManager env =
     \<lparr>sm_HasActiveUpload = HasActiveUpload env, sm_LoadUploadManifest = LoadUploadManifest env,
      sm_SaveUploadManifest = SaveUploadManifest env, sm_AppendCompletedIndices = AppendCompletedIndices env,
      sm_DeleteUploadManifest = DeleteUploadManifest env, sm_SaveAuthToken = SaveAuthToken env, sm_LoadAuthToken = LoadAuthToken env\<rparr>"

section \<open>What is saved is found again\<close>

lemma written_and_read:
  assumes "dumpable j" and "readable j"
  shows "\<exists>out. dump_indent fl n j = Inr out \<and> read_stream out = (Inr (), as_read j)"
proof -
  obtain out where "dump_value fl True n 0 j = Some out" using assms(1) dump_None(1) by blast
  then show ?thesis using dump_parse [OF assms(2)] by (auto simp: dump_indent_def as_outcome_def read_stream_def)
qed

lemma utf8_keys: "utf8 ''filepath''" "utf8 ''total_size''" "utf8 ''temp_modified_timestamp''" "utf8 ''session_timestamp''"
  "utf8 ''chunk_hashes''" "utf8 ''auth_token''"
  by (rule ascii_utf8, simp add: ascii_def code_def)+

definition manifest_storable :: "UploadManifest \<Rightarrow> bool" where
  "manifest_storable m \<longleftrightarrow> utf8 (filepath m) \<and> list_all utf8 (chunk_hashes m) \<and> llong_range (total_size m) \<and>
     llong_range (temp_modified_timestamp m) \<and> llong_range (session_timestamp m)"

lemma manifest_json_read:
  assumes "manifest_storable m"
  shows "\<exists>text. dump_indent fl 4 (manifest_json m) = Inr text \<and> read_stream text = (Inr (), as_read (manifest_json m)) \<and>
    read_manifest_json (as_read (manifest_json m)) =
      Inr (m\<lparr>completed_chunks := [], successfully_uploaded_count := 0\<rparr>)"
proof -
  have "dumpable (manifest_json m)" "readable (manifest_json m)"
    unfolding manifest_json_def using assms
    by (intro object_dumpable object_readable; simp add: manifest_storable_def utf8_keys list_all_iff)+
  then obtain out where out: "dump_indent fl 4 (manifest_json m) = Inr out" "read_stream out = (Inr (), as_read (manifest_json m))"
    using written_and_read by blast
  moreover have "value_long_long (as_read (manifest_json m)) ''session_timestamp'' 0 = Inr (session_timestamp m)"
  proof -
    have "json_at (as_read (manifest_json m)) ''session_timestamp'' = Inr (as_read (JInteger (session_timestamp m)))"
      by (simp add: manifest_json_def object_at del: as_read.simps)
    then show ?thesis using assms get_long_long_as_read [of "session_timestamp m"]
      by (auto simp: json_at_def value_long_long_def manifest_storable_def split: json.splits option.splits)
  qed
  moreover note out
  ultimately show ?thesis using assms
    by (simp add: read_manifest_json_def manifest_json_def object_at get_long_long_as_read get_vector_strings manifest_storable_def
        new_UploadManifest_def del: as_read.simps)
qed

lemma nth_mark_completed:
  "length (mark_completed i bits) = length bits"
  "k < length bits \<Longrightarrow> mark_completed i bits ! k \<longleftrightarrow> bits ! k \<or> i = int k"
  by (auto simp: mark_completed_def nth_list_update)

lemma nth_completed_bits:
  "length (completed_bits n indices) = n"
  "k < n \<Longrightarrow> completed_bits n indices ! k \<longleftrightarrow> int k \<in> set indices"
proof -
  have len: "length (fold mark_completed indices bits) = length bits" for bits
    by (induction indices arbitrary: bits) (simp_all add: nth_mark_completed)
  then show "length (completed_bits n indices) = n" by (simp add: completed_bits_def)
  have "k < length bits \<Longrightarrow> fold mark_completed indices bits ! k \<longleftrightarrow> bits ! k \<or> int k \<in> set indices" for bits
    by (induction indices arbitrary: bits) (auto simp: nth_mark_completed)
  then show "k < n \<Longrightarrow> completed_bits n indices ! k \<longleftrightarrow> int k \<in> set indices" by (simp add: completed_bits_def)
qed

lemma completed_bits_eq: "completed_bits n indices = map (\<lambda>k. int k \<in> set indices) [0..<n]"
  by (intro nth_equalityI) (simp_all add: nth_completed_bits)

text \<open>The paths of a manifest and its log differ.\<close>

lemma append_dir: "hd q \<noteq> CHR ''/'' \<Longrightarrow> q \<noteq> [] \<Longrightarrow> \<exists>pre. path_append d q = pre @ q"
  by (auto simp: path_append_def)

lemma filename_no_slash: "CHR ''/'' \<notin> set (path_filename p)"
  by (auto simp: path_filename_def dest: set_takeWhileD)

lemma paths_apart: "manifest_path env p \<noteq> log_path env p"
proof -
  have "hd (path_filename p @ q) \<noteq> CHR ''/''" if "hd q \<noteq> CHR ''/''" for q
    using filename_no_slash [of p] that by (cases "path_filename p") auto
  then have "\<exists>pre. manifest_path env p = pre @ GetManifestFilename p" "\<exists>pre. log_path env p = pre @ path_filename p @ ''.completed.log''"
    unfolding manifest_path_def log_path_def by (intro append_dir; simp add: GetManifestFilename_def)+
  then have "manifest_path env p \<noteq> [] \<and> last (manifest_path env p) = CHR ''n''" "log_path env p \<noteq> [] \<and> last (log_path env p) = CHR ''g''"
    by (auto simp: GetManifestFilename_def)
  then show ?thesis by auto
qed

section \<open>The contract of a journal\<close>

locale upload_journal =
  fixes M :: "'s ILocalStateManager"
    and ready :: "'s \<Rightarrow> string \<Rightarrow> bool"
    and journaled :: "'s \<Rightarrow> string \<Rightarrow> UploadManifest \<Rightarrow> int list \<Rightarrow> bool"
  assumes save_law: "\<And>m s r s'. ready s (filepath m) \<Longrightarrow> manifest_storable m \<Longrightarrow> sm_SaveUploadManifest M m s = (r, s') \<Longrightarrow>
      r = Inr () \<and> journaled s' (filepath m) (m\<lparr>completed_chunks := [], successfully_uploaded_count := 0\<rparr>) []"
    and append_law: "\<And>p xs m ns s r s'. journaled s p m ns \<Longrightarrow> \<forall>i\<in>set xs. int_range i \<Longrightarrow>
      sm_AppendCompletedIndices M p xs s = (r, s') \<Longrightarrow> r = Inr () \<and> journaled s' p m (ns @ xs)"
    and load_law: "\<And>p m ns s r s'. journaled s p m ns \<Longrightarrow> sm_LoadUploadManifest M p s = (r, s') \<Longrightarrow>
      r = Inr (m\<lparr>completed_chunks := completed_bits (length (chunk_hashes m)) ns\<rparr>) \<and> journaled s' p m ns"
begin

lemma appends:
  "journaled s p m ns \<Longrightarrow> \<forall>i\<in>set (concat batches). int_range i \<Longrightarrow> for_each (sm_AppendCompletedIndices M p) batches s = (r, s') \<Longrightarrow>
    r = Inr () \<and> journaled s' p m (ns @ concat batches)"
proof (induction batches arbitrary: s ns)
  case (Cons xs batches)
  obtain r1 t where "sm_AppendCompletedIndices M p xs s = (r1, t)" by fastforce
  with append_law [OF Cons.prems(1) _ this] Cons.prems(2) have step: "sm_AppendCompletedIndices M p xs s = (Inr (), t)" "journaled t p m (ns @ xs)"
    by auto
  then show ?case using Cons.IH [OF step(2)] Cons.prems(2,3) by (simp add: andthen_Inr)
qed (auto simp: ret_def)

lemma resume:
  assumes "ready s (filepath m)" and "manifest_storable m" and "\<forall>i\<in>set (concat batches). int_range i"
    and "sm_SaveUploadManifest M m s = (r1, s1)" and "for_each (sm_AppendCompletedIndices M (filepath m)) batches s1 = (r2, s2)"
    and "sm_LoadUploadManifest M (filepath m) s2 = (r3, s3)"
  shows "r3 = Inr (m\<lparr>completed_chunks := map (\<lambda>k. int k \<in> set (concat batches)) [0..<length (chunk_hashes m)],
    successfully_uploaded_count := 0\<rparr>)"
proof -
  have "journaled s2 (filepath m) (m\<lparr>completed_chunks := [], successfully_uploaded_count := 0\<rparr>) (concat batches)"
    using appends save_law [OF assms(1,2,4)] assms(3,5) by fastforce
  from load_law [OF this assms(6)] show ?thesis by (simp add: completed_bits_eq)
qed

end

section \<open>The local state manager keeps it\<close>

definition log_empty :: "client_env \<Rightarrow> 'w client \<Rightarrow> string \<Rightarrow> bool" where
  "log_empty env s p \<longleftrightarrow> quiet s \<and> content_at s (log_path env p) \<in> {None, Some []}"

definition manifest_kept :: "client_env \<Rightarrow> 'w client \<Rightarrow> string \<Rightarrow> UploadManifest \<Rightarrow> int list \<Rightarrow> bool" where
  "manifest_kept env s p m ns \<longleftrightarrow> quiet s \<and>
     (\<exists>out j. content_at s (manifest_path env p) = Some out \<and> read_stream out = (Inr (), j) \<and> read_manifest_json j = Inr m) \<and>
     (case content_at s (log_path env p) of None \<Rightarrow> [] | Some t \<Rightarrow> t) = print_lines ns \<and> (\<forall>i\<in>set ns. int_range i)"

lemma extract_lines: "\<forall>i\<in>set ns. int_range i \<Longrightarrow> extract_ints (print_lines ns) = ns"
proof -
  have "extract_ints [] = []" by (subst extract_ints.simps) (simp add: extract_int_def strto_def drop_sign_def)
  then show "\<forall>i\<in>set ns. int_range i \<Longrightarrow> extract_ints (print_lines ns) = ns" using extract_ints_print [of ns "[]"] by simp
qed

interpretation local_journal: upload_journal "LocalStateManager env" "log_empty env" "manifest_kept env"
proof
  fix m :: UploadManifest and s :: "'a client" and r s'
  assume ready: "log_empty env s (filepath m)" and m: "manifest_storable m"
    and run: "sm_SaveUploadManifest (LocalStateManager env) m s = (r, s')"
  obtain out where out: "dump_indent (c_float env) 4 (manifest_json m) = Inr out" "read_stream out = (Inr (), as_read (manifest_json m))"
    "read_manifest_json (as_read (manifest_json m)) = Inr (m\<lparr>completed_chunks := [], successfully_uploaded_count := 0\<rparr>)"
    using manifest_json_read [OF m] by blast
  let ?p = "manifest_path env (filepath m)"
  have "quiet s" using ready by (simp add: log_empty_def)
  then have "r = Inr ()" "s' = set_file ?p out (set_file ?p [] (passed s))"
    using run out(1) by (simp_all add: LocalStateManager_def SaveUploadManifest_def write_json_def andthen_Inr quiet_simps
        andthen_of_outcome modify_apply)
  moreover have "manifest_kept env s' (filepath m) (m\<lparr>completed_chunks := [], successfully_uploaded_count := 0\<rparr>) []"
    unfolding calculation(2) using ready out(2,3) paths_apart [of env "filepath m"]
    by (auto simp: manifest_kept_def log_empty_def quiet_simps print_lines_def)
  ultimately show "r = Inr () \<and> manifest_kept env s' (filepath m) (m\<lparr>completed_chunks := [], successfully_uploaded_count := 0\<rparr>) []" by blast
next
  fix p :: string and xs ns :: "int list" and m :: UploadManifest and s :: "'a client" and r s'
  assume kept: "manifest_kept env s p m ns" and xs: "\<forall>i\<in>set xs. int_range i"
    and run: "sm_AppendCompletedIndices (LocalStateManager env) p xs s = (r, s')"
  have "quiet s" using kept by (simp add: manifest_kept_def)
  then have "r = Inr ()" "s' = set_file (log_path env p) ((case content_at s (log_path env p) of None \<Rightarrow> [] | Some t \<Rightarrow> t) @ print_lines xs) (passed s)"
    using run by (simp_all add: LocalStateManager_def AppendCompletedIndices_def andthen_Inr quiet_simps ret_apply)
  then show "r = Inr () \<and> manifest_kept env s' p m (ns @ xs)"
    using kept xs paths_apart [of env p] by (auto simp: manifest_kept_def quiet_simps print_lines_append)
next
  fix p :: string and ns :: "int list" and m :: UploadManifest and s :: "'a client" and r s'
  assume kept: "manifest_kept env s p m ns" and run: "sm_LoadUploadManifest (LocalStateManager env) p s = (r, s')"
  then obtain out j where out: "content_at s (manifest_path env p) = Some out" "read_stream out = (Inr (), j)" "read_manifest_json j = Inr m"
    and q: "quiet s" by (auto simp: manifest_kept_def)
  have "(case content_at s (log_path env p) of None \<Rightarrow> [] | Some t \<Rightarrow> extract_ints t) = ns"
    using kept extract_lines [of ns] by (auto simp: manifest_kept_def extract_lines [of "[]"] print_lines_def split: option.splits)
  then have "LoadUploadManifest env p s =
      (Inr (m\<lparr>completed_chunks := completed_bits (length (chunk_hashes m)) ns\<rparr>), passed (passed s))"
    using q out by (simp add: LoadUploadManifest_def andthen_Inr quiet_simps andthen_of_outcome ret_apply)
  then show "r = Inr (m\<lparr>completed_chunks := completed_bits (length (chunk_hashes m)) ns\<rparr>) \<and> manifest_kept env s' p m ns"
    using run kept by (auto simp: LocalStateManager_def manifest_kept_def quiet_simps)
qed


text \<open>C15: An upload can be resumed from what was saved: after a manifest is saved and any batches of completed
  indices are appended to its log, loading it returns the manifest with exactly the chunks of those indices marked
  as completed.\<close>

theorem manifest_survives:
  assumes "log_empty env s (filepath m)" and "manifest_storable m" and "\<forall>i\<in>set (concat batches). int_range i"
  shows "\<exists>s1 s2 s3. SaveUploadManifest env m s = (Inr (), s1) \<and>
    for_each (AppendCompletedIndices env (filepath m)) batches s1 = (Inr (), s2) \<and>
    LoadUploadManifest env (filepath m) s2 =
      (Inr (m\<lparr>completed_chunks := map (\<lambda>k. int k \<in> set (concat batches)) [0..<length (chunk_hashes m)],
         successfully_uploaded_count := 0\<rparr>), s3)"
proof -
  let ?M = "LocalStateManager env"
  obtain r1 s1 where 1: "sm_SaveUploadManifest ?M m s = (r1, s1)" by fastforce
  obtain r2 s2 where 2: "for_each (sm_AppendCompletedIndices ?M (filepath m)) batches s1 = (r2, s2)" by fastforce
  obtain r3 s3 where 3: "sm_LoadUploadManifest ?M (filepath m) s2 = (r3, s3)" by fastforce
  have "r1 = Inr ()" "manifest_kept env s1 (filepath m) (m\<lparr>completed_chunks := [], successfully_uploaded_count := 0\<rparr>) []"
    using local_journal.save_law [OF assms(1,2) 1] by auto
  moreover have "r2 = Inr ()" using local_journal.appends [OF calculation(2) assms(3) 2] by blast
  ultimately show ?thesis using local_journal.resume [OF assms 1 2 3] 1 2 3 by (simp add: LocalStateManager_def)
qed

definition sample_home :: client_env where
  "sample_home = \<lparr>c_ossl = sample_ossl, c_float = (\<lambda>_. []), master_url = [], home_directory = ''/home/u''\<rparr>"

definition sample_state :: "unit client" where
  "sample_state = \<lparr>local_files = (\<lambda>_. None), file_stream = None, auth_token = [], remote = (),
     os_answer = \<lparr>meddling = (\<lambda>_ fs. fs), refused = (\<lambda>_. False), transfer_state = (\<lambda>_. RUNNING), system_clock = (\<lambda>_. 5000),
       write_clock = (\<lambda>_. 7), thread_schedule = (\<lambda>_. [])\<rparr>, moment = 0\<rparr>"

definition sample_upload :: UploadManifest where
  "sample_upload = \<lparr>filepath = ''/d/f'', total_size = 8, temp_modified_timestamp = -3, session_timestamp = 5000,
     chunk_hashes = [''a'', ''b'', ''c''], completed_chunks = [False, False, False], successfully_uploaded_count = 0\<rparr>"

lemma manifest_survives_witness:
  "\<exists>s1 s2 s3. SaveUploadManifest sample_home sample_upload sample_state = (Inr (), s1) \<and>
    for_each (AppendCompletedIndices sample_home ''/d/f'') [[2], [0, 2]] s1 = (Inr (), s2) \<and>
    LoadUploadManifest sample_home ''/d/f'' s2 = (Inr (sample_upload\<lparr>completed_chunks := [True, False, True]\<rparr>), s3)"
proof -
  have "log_empty sample_home sample_state (filepath sample_upload)"
    by (simp add: log_empty_def quiet_def content_at_def sample_state_def)
  moreover have "manifest_storable sample_upload"
    by (simp add: manifest_storable_def sample_upload_def llong_range_def ascii_utf8 ascii_def code_def)
  moreover have "\<forall>i\<in>set (concat [[2], [0, 2]]). int_range i" by (simp add: int_range_def)
  ultimately show ?thesis
    using manifest_survives [of sample_home sample_state sample_upload "[[2], [0, 2]]"] by (simp add: sample_upload_def)
qed

section \<open>The token and the configuration\<close>

definition config_json :: "client_env \<Rightarrow> 'w client \<Rightarrow> json" where
  "config_json env s = (case content_at s (config_file env) of None \<Rightarrow> JNull | Some t \<Rightarrow> snd (read_stream t))"

lemma store_read:
  assumes "j = JNull \<or> (\<exists>m. j = JObject m)" and "readable j" and "dumpable j" and "utf8 t"
  shows "\<exists>m. store_member j ''auth_token'' (JString t) = Inr (JObject m) \<and> readable (JObject m) \<and> dumpable (JObject m) \<and>
    map_of m ''auth_token'' = Some (JString t)"
proof -
  define m where "m = (case j of JObject m \<Rightarrow> m | _ \<Rightarrow> [])"
  have m: "sorted_wrt (<) (map fst m)" "list_all readable (map snd m)" "list_all utf8 (map fst m)" "list_all dumpable (map snd m)"
    using assms(1-3) unfolding m_def readable_object dumpable_object by (auto simp: list_all_iff) force+
  let ?m = "assign ''auth_token'' (JString t) m"
  have vals: "snd ` set (assign k v l) \<subseteq> insert v (snd ` set l)" for k and v :: json and l
  proof (induction l)
    case (Cons p l)
    then show ?case by (cases p) (auto split: if_splits)
  qed simp
  have store: "store_member j ''auth_token'' (JString t) = Inr (JObject ?m)" using assms(1) by (auto simp: store_member_def m_def)
  have "\<forall>x\<in>insert (JString t) (snd ` set m). readable x \<and> dumpable x"
    using m(2,4) assms(4) by (simp add: list_all_iff)
  then have "\<forall>x\<in>snd ` set ?m. readable x \<and> dumpable x" using vals by blast
  moreover have "\<forall>k\<in>fst ` set ?m. utf8 k"
    unfolding keys_assign using m(3) utf8_keys(6) by (simp add: list_all_iff)
  ultimately have "readable (JObject ?m)" "dumpable (JObject ?m)"
    unfolding readable_object dumpable_object using sorted_assign [OF m(1)] by (simp_all add: list_all_iff)
  then show ?thesis using store by (auto simp: map_of_assign)
qed

lemma token_survives:
  assumes "quiet s" and "config_json env s = JNull \<or> (\<exists>m. config_json env s = JObject m)"
    and "readable (config_json env s)" and "dumpable (config_json env s)" and "utf8 t"
  shows "\<exists>s1 s2. SaveAuthToken env t s = (Inr (), s1) \<and> LoadAuthToken env s1 = (Inr t, s2) \<and> quiet s1"
proof -
  obtain m where m: "store_member (config_json env s) ''auth_token'' (JString t) = Inr (JObject m)" "readable (JObject m)"
    "dumpable (JObject m)" "map_of m ''auth_token'' = Some (JString t)" using store_read [OF assms(2-5)] by blast
  obtain out where out: "dump_indent (c_float env) 4 (JObject m) = Inr out" "read_stream out = (Inr (), as_read (JObject m))"
    using written_and_read [OF m(3,2)] by blast
  let ?s = "set_file (config_file env) out (set_file (config_file env) [] (passed (passed s)))"
  have "SaveAuthToken env t s = (Inr (), ?s)"
    using assms(1) m(1) out(1)
    by (simp add: SaveAuthToken_def andthen_Inr quiet_simps andthen_of_outcome config_json_def write_json_def modify_apply)
  moreover have "contains (as_read (JObject m)) ''auth_token''"
    "subscript (as_read (JObject m)) ''auth_token'' = Inr (JString t, as_read (JObject m))"
    using m(4) by (simp_all add: contains_def subscript_def emplace_def as_read_member)
  then have "LoadAuthToken env ?s = (Inr t, passed ?s)"
    using assms(1) out(2) by (simp add: LoadAuthToken_def andthen_Inr quiet_simps ret_apply get_string_def del: as_read.simps)
  ultimately show ?thesis using assms(1) by (auto simp: quiet_simps)
qed

text \<open>A configuration that holds anything but an object makes every log-in fail with an exception.\<close>

lemma odd_config_refuses_token:
  assumes "quiet s" and "config_json env s \<noteq> JNull" and "\<forall>m. config_json env s \<noteq> JObject m"
  shows "SaveAuthToken env t s = (Inl JsonError, passed s)"
proof -
  have "store_member (config_json env s) ''auth_token'' (JString t) = Inl JsonError"
    using assms(2,3) by (simp add: store_member_def split: json.split)
  then show ?thesis using assms(1) by (simp add: SaveAuthToken_def andthen_Inr quiet_simps andthen_of_outcome config_json_def)
qed

end
