(* ===== verification/Transfer_Manager.thy ===== *)
theory Transfer_Manager
  imports File_Slicer State_Manager
begin

text \<open>
  \<^verbatim>\<open>client/network/ITransferManager.hpp\<close> and the upload half of
  \<^verbatim>\<open>client/network/ParallelTransferManager.cpp\<close>. The thread pool runs its tasks one at a time here, at
  moments and in an order that the schedule of the run chooses: which tasks have run is what the main
  loop can observe of it, through the futures and the semaphore.
\<close>

section \<open>The interface\<close>

record 's ITransferManager =
  tm_Upload :: "'s IFileSlicer \<Rightarrow> 's ILocalStateManager \<Rightarrow> string \<Rightarrow> nat \<Rightarrow> (int \<times> ChunkRoutingPlan) list \<Rightarrow> ('s, bool) action"
  tm_DownloadToFile :: "DownloadChunkMeta list \<Rightarrow> ChunkRoutingPlan list \<Rightarrow> string \<Rightarrow> ('s, bool) action"

section \<open>One chunk to one worker\<close>

definition worker_url :: "NodeInfo \<Rightarrow> string" where
  "worker_url node = advertised_host node @ '':'' @ to_string (advertised_port node)"

fun upload_attempts :: "nat \<Rightarrow> 'w network \<Rightarrow> NodeInfo \<Rightarrow> string \<Rightarrow> string \<Rightarrow> ('w client, bool) action" where
  "upload_attempts 0 net node hash data = ret False"
| "upload_attempts (Suc n) net node hash data =
     andthen (http_call net (worker_url node) ''POST'' (''/chunk?hash='' @ hash) [] data) (\<lambda>res.
     if (case res of None \<Rightarrow> False | Some r \<Rightarrow> res_status r = 200) then ret True
     else upload_attempts n net node hash data)"

definition UploadChunkToWorker :: "'w network \<Rightarrow> NodeInfo \<Rightarrow> string \<Rightarrow> string \<Rightarrow> ('w client, bool) action" where
  "UploadChunkToWorker = upload_attempts 3"

section \<open>The upload\<close>

text \<open>
  A task with its future, \<open>None\<close> while it has not run. The permit of a chunk is held by its
  tasks that have not run; \<open>task_chunk\<close> tells the chunks apart.
\<close>

record task =
  task_chunk :: nat
  task_node :: NodeInfo
  task_hash :: string
  task_index :: int
  task_payload :: string
  task_result :: "bool option"

record upload_vars =
  futures :: "task list"
  pending_disk_writes :: "int list"
  all_succeeded :: bool

definition max_in_flight :: nat where
  "max_in_flight = 16"

definition log_batch :: nat where
  "log_batch = 64"

definition in_flight :: "upload_vars \<Rightarrow> nat" where
  "in_flight v = length (remdups (map task_chunk (filter (\<lambda>t. task_result t = None) (futures v))))"

definition run_task ::
    "'w network \<Rightarrow> 'w client ILocalStateManager \<Rightarrow> string \<Rightarrow> nat \<Rightarrow> upload_vars \<Rightarrow> ('w client, upload_vars) action" where
  "run_task net M p k v =
     (if \<not> k < length (futures v) then ret v
      else let t = futures v ! k
        in if task_result t \<noteq> None then ret v
           else andthen (UploadChunkToWorker net (task_node t) (task_hash t) (task_payload t)) (\<lambda>success.
             let v = v\<lparr>futures := (futures v)[k := t\<lparr>task_result := Some success\<rparr>],
                       pending_disk_writes := pending_disk_writes v @ (if success then [task_index t] else [])\<rparr>
             in if success \<and> log_batch \<le> length (pending_disk_writes v)
                then andthen (sm_AppendCompletedIndices M p (pending_disk_writes v)) (\<lambda>_. ret (v\<lparr>pending_disk_writes := []\<rparr>))
                else ret v))"

fun run_tasks ::
    "(nat \<Rightarrow> upload_vars \<Rightarrow> ('s, upload_vars) action) \<Rightarrow> nat list \<Rightarrow> upload_vars \<Rightarrow> ('s, upload_vars) action" where
  "run_tasks run [] v = ret v"
| "run_tasks run (k # ks) v = andthen (run k v) (run_tasks run ks)"

text \<open>The tasks that the pool runs before the main loop goes on.\<close>

definition pool_progress ::
    "'w network \<Rightarrow> 'w client ILocalStateManager \<Rightarrow> string \<Rightarrow> upload_vars \<Rightarrow> ('w client, upload_vars) action" where
  "pool_progress net M p v =
     andthen (get (\<lambda>s. thread_schedule (os_answer s) (moment s))) (\<lambda>ks. run_tasks (run_task net M p) ks v)"

text \<open>Futures that are ready are taken from the front of the queue.\<close>

definition drain_ready :: "upload_vars \<Rightarrow> upload_vars" where
  "drain_ready v =
     v\<lparr>futures := dropWhile (\<lambda>t. task_result t \<noteq> None) (futures v),
       all_succeeded := all_succeeded v \<and>
         list_all (\<lambda>t. task_result t = Some True) (takeWhile (\<lambda>t. task_result t \<noteq> None) (futures v))\<rparr>"

text \<open>\<^verbatim>\<open>acquire\<close> waits while no permit is left, that is until enough tasks have run.\<close>

definition acquire_permit ::
    "'w network \<Rightarrow> 'w client ILocalStateManager \<Rightarrow> string \<Rightarrow> upload_vars \<Rightarrow> ('w client, upload_vars) action" where
  "acquire_permit net M p v =
     run_tasks (\<lambda>k v. if max_in_flight \<le> in_flight v then run_task net M p k v else ret v) [0..<length (futures v)] v"

definition new_tasks :: "nat \<Rightarrow> int \<times> ChunkRoutingPlan \<Rightarrow> string \<Rightarrow> task list" where
  "new_tasks no t payload =
     map (\<lambda>node. \<lparr>task_chunk = no, task_node = node, task_hash = plan_hash (snd t), task_index = fst t, task_payload = payload,
            task_result = None\<rparr>) (assigned_nodes (snd t))"

fun upload_loop ::
    "'w network \<Rightarrow> 'w client IFileSlicer \<Rightarrow> 'w client ILocalStateManager \<Rightarrow> string \<Rightarrow> nat \<Rightarrow> nat \<Rightarrow>
     (int \<times> ChunkRoutingPlan) list \<Rightarrow> upload_vars \<Rightarrow> ('w client, upload_vars) action" where
  "upload_loop net S M p chunk_size no [] v = ret v"
| "upload_loop net S M p chunk_size no (t # ts) v =
     andthen load_state (\<lambda>st.
     if st \<noteq> RUNNING then ret v
     else andthen (pool_progress net M p v) (\<lambda>v.
       let v = drain_ready v
       in if \<not> all_succeeded v then ret v
          else andthen (acquire_permit net M p v) (\<lambda>v.
            andthen (sl_ReadChunk S (fst t) chunk_size) (\<lambda>payload.
            upload_loop net S M p chunk_size (no + 1) ts (v\<lparr>futures := futures v @ new_tasks no t payload\<rparr>)))))"

text \<open>Waiting for the futures that are left, in their order; the pool runs what has not run yet.\<close>

definition await_all ::
    "'w network \<Rightarrow> 'w client ILocalStateManager \<Rightarrow> string \<Rightarrow> upload_vars \<Rightarrow> ('w client, upload_vars) action" where
  "await_all net M p v =
     andthen (pool_progress net M p v) (\<lambda>v.
     andthen (run_tasks (run_task net M p) [0..<length (futures v)] v) (\<lambda>v. ret (drain_ready v)))"

text \<open>An exception that leaves the function while the pool is running destroys joinable threads.\<close>

definition with_pool :: "('s, 'a) action \<Rightarrow> ('s, 'a) action" where
  "with_pool m = (\<lambda>s. case m s of (Inl e, s') \<Rightarrow> (Inl Trap, s') | (Inr x, s') \<Rightarrow> (Inr x, s'))"

definition Upload ::
    "'w network \<Rightarrow> 'w client IFileSlicer \<Rightarrow> 'w client ILocalStateManager \<Rightarrow> string \<Rightarrow> nat \<Rightarrow>
     (int \<times> ChunkRoutingPlan) list \<Rightarrow> ('w client, bool) action" where
  "Upload net S M p chunk_size pending_tasks =
     andthen (with_pool
       (andthen (sl_OpenStream S p chunk_size) (\<lambda>_.
        andthen (upload_loop net S M p chunk_size 0 pending_tasks \<lparr>futures = [], pending_disk_writes = [], all_succeeded = True\<rparr>)
        (await_all net M p)))) (\<lambda>v.
     andthen (if pending_disk_writes v \<noteq> [] then sm_AppendCompletedIndices M p (pending_disk_writes v) else ret ()) (\<lambda>_.
     andthen (if all_succeeded v then andthen load_state (\<lambda>st. ret (st = RUNNING)) else ret False) (\<lambda>result.
     andthen (sl_CloseStream S) (\<lambda>_. ret result))))"

section \<open>Actions that stay on the machine\<close>

named_theorems local_intros "actions that do not reach the network"

definition local_only :: "('w client, 'a) action \<Rightarrow> bool" where
  "local_only m \<longleftrightarrow> (\<forall>s r s'. m s = (r, s') \<longrightarrow>
     remote s' = remote s \<and> auth_token s' = auth_token s \<and> os_answer s' = os_answer s \<and> moment s \<le> moment s')"

lemma local_onlyD: "local_only m \<Longrightarrow> m s = (r, s') \<Longrightarrow>
    remote s' = remote s \<and> auth_token s' = auth_token s \<and> os_answer s' = os_answer s \<and> moment s \<le> moment s'"
  by (auto simp: local_only_def)

lemma local_basic [local_intros]:
  "local_only (ret x)" "local_only (throw e)" "local_only (get f)" "local_only (of_outcome oc)" "local_only next_call"
  by (simp_all add: local_only_def ret_def throw_def get_def of_outcome_def next_call_def Let_def)

lemma local_modify [local_intros]:
  "(\<And>s. remote (f s) = remote s \<and> auth_token (f s) = auth_token s \<and> os_answer (f s) = os_answer s \<and> moment (f s) = moment s) \<Longrightarrow>
     local_only (modify f)"
  by (simp add: local_only_def modify_def)

lemma local_andthen [local_intros]:
  "local_only m \<Longrightarrow> (\<And>x. local_only (f x)) \<Longrightarrow> local_only (andthen m f)"
  unfolding local_only_def andthen_def by (fastforce split: prod.splits sum.splits)

lemma local_if [local_intros]: "(b \<Longrightarrow> local_only m) \<Longrightarrow> (\<not> b \<Longrightarrow> local_only m') \<Longrightarrow> local_only (if b then m else m')"
  by simp

lemma local_option [local_intros]:
  "(x = None \<Longrightarrow> local_only m) \<Longrightarrow> (\<And>y. x = Some y \<Longrightarrow> local_only (f y)) \<Longrightarrow> local_only (case x of None \<Rightarrow> m | Some y \<Rightarrow> f y)"
  by (cases x) simp_all

lemma set_file_keeps [simp]: "remote (set_file p c s) = remote s" "auth_token (set_file p c s) = auth_token s" "os_answer (set_file p c s) = os_answer s" "moment (set_file p c s) = moment s"
  by (simp_all add: set_file_def)

lemma local_files_ops [local_intros]:
  "local_only (fs_read p)" "local_only (fs_write p c)" "local_only (fs_append p c)" "local_only (fs_exists p)"
  "local_only (fs_file_size p)" "local_only (fs_last_write_time p)" "local_only (fs_remove p)" "local_only load_state"
  unfolding fs_read_def fs_write_def fs_append_def fs_exists_def fs_file_size_def fs_last_write_time_def fs_remove_def load_state_def
  by (rule local_intros | simp)+

lemma local_slicer_ops [local_intros]:
  "local_only (sl_OpenStream (LocalFileSlicer crypto) p n)" "local_only (sl_ReadChunk (LocalFileSlicer crypto) i n)"
  "local_only (sl_CloseStream (LocalFileSlicer crypto))" "local_only (sl_ComputeHashes (LocalFileSlicer crypto) p n)"
proof -
  have close: "local_only CloseStream" unfolding CloseStream_def by (intro local_intros) simp
  then show "local_only (sl_CloseStream (LocalFileSlicer crypto))" by (simp add: LocalFileSlicer_def)
  show "local_only (sl_OpenStream (LocalFileSlicer crypto) p n)"
    unfolding LocalFileSlicer_def OpenStream_def by simp (rule local_intros close | simp)+
  have "local_only (\<lambda>s. case file_stream s of None \<Rightarrow> (Inr [], s) | Some (p, failed) \<Rightarrow>
         let content = (case local_files s p of None \<Rightarrow> [] | Some f \<Rightarrow> contents f);
             buffer = (if failed \<or> i < 0 then [] else take n (drop (nat i * n) content))
         in (Inr buffer, s\<lparr>file_stream := Some (p, failed \<or> i < 0 \<or> length buffer < n)\<rparr>))"
    by (simp add: local_only_def Let_def split: option.split)
  then show "local_only (sl_ReadChunk (LocalFileSlicer crypto) i n)"
    unfolding LocalFileSlicer_def ReadChunk_def by (simp, intro local_intros) 
  show "local_only (sl_ComputeHashes (LocalFileSlicer crypto) p n)"
    unfolding LocalFileSlicer_def ComputeHashes_def by simp (rule local_intros | simp)+
qed

lemma local_journal_ops [local_intros]: "local_only (sm_AppendCompletedIndices (LocalStateManager env) p ns)"
  unfolding LocalStateManager_def AppendCompletedIndices_def by (simp, intro local_intros)

section \<open>Tasks and their ends\<close>

definition finished :: "nat \<Rightarrow> upload_vars \<Rightarrow> bool" where
  "finished k v \<longleftrightarrow> task_result (futures v ! k) \<noteq> None"

definition due_of :: "(int \<times> ChunkRoutingPlan) list \<Rightarrow> (string \<times> string) set" where
  "due_of ts = {(worker_url node, plan_hash plan) | i plan node. (i, plan) \<in> set ts \<and> node \<in> set (assigned_nodes plan)}"

text \<open>The journal is on the machine and never fails.\<close>

definition stays_local :: "'w client ILocalStateManager \<Rightarrow> bool" where
  "stays_local M \<longleftrightarrow> (\<forall>p ns. local_only (sm_AppendCompletedIndices M p ns)) \<and>
     (\<forall>p ns s. \<exists>s'. sm_AppendCompletedIndices M p ns s = (Inr (), s'))"

lemma slicer_reads: "\<exists>d s'. sl_ReadChunk (LocalFileSlicer crypto) i n s = (Inr d, s')"
  by (simp add: LocalFileSlicer_def ReadChunk_def andthen_def next_call_apply Let_def split: option.split)

lemma journal_stays_local: "stays_local (LocalStateManager env :: 'a client ILocalStateManager)"
proof -
  have "\<exists>s'. sm_AppendCompletedIndices (LocalStateManager env) p ns s = (Inr (), s')" for p ns and s :: "'a client"
    by (simp add: LocalStateManager_def AppendCompletedIndices_def fs_append_def andthen_def next_call_apply modify_def ret_def)
  then show ?thesis unfolding stays_local_def using local_journal_ops by blast
qed

text \<open>A transfer that has been paused or cancelled does not run again.\<close>

definition stop_is_final :: "'w client \<Rightarrow> bool" where
  "stop_is_final s \<longleftrightarrow> (\<forall>k l. k \<le> l \<longrightarrow> transfer_state (os_answer s) k \<noteq> RUNNING \<longrightarrow> transfer_state (os_answer s) l \<noteq> RUNNING)"

section \<open>The contract of the workers\<close>

text \<open>
  What the transfer relies on of the workers behind the network, as long as these are well: an upload
  that is answered 200 leaves the chunk on the worker, and no upload takes a chunk away.
\<close>

locale chunk_network =
  fixes net :: "'w network"
    and well :: "'w \<Rightarrow> bool"
    and addressable :: "string \<Rightarrow> bool"
    and holds :: "'w \<Rightarrow> string \<Rightarrow> string \<Rightarrow> bool"
  assumes ack_law: "\<And>url h d w r w'. well w \<Longrightarrow> addressable h \<Longrightarrow>
      net url ''POST'' (''/chunk?hash='' @ h) [] d w = (Some r, w') \<Longrightarrow> res_status r = 200 \<Longrightarrow> holds w' url h"
    and keep_law: "\<And>url h d w r w'. well w \<Longrightarrow> addressable h \<Longrightarrow> net url ''POST'' (''/chunk?hash='' @ h) [] d w = (r, w') \<Longrightarrow>
      well w' \<and> (\<forall>u k. holds w u k \<longrightarrow> holds w' u k)"
begin

text \<open>From one state to a later one of the same run the workers lose nothing.\<close>

definition later :: "'w client \<Rightarrow> 'w client \<Rightarrow> bool" where
  "later s s' \<longleftrightarrow> (well (remote s) \<longrightarrow> well (remote s') \<and> (\<forall>u k. holds (remote s) u k \<longrightarrow> holds (remote s') u k)) \<and>
     auth_token s' = auth_token s \<and> os_answer s' = os_answer s \<and> moment s \<le> moment s'"

lemma later_refl [simp]: "later s s"
  by (simp add: later_def)

lemma later_trans [trans]: "later s t \<Longrightarrow> later t u \<Longrightarrow> later s u"
  by (auto simp: later_def)

lemma later_local: "local_only m \<Longrightarrow> m s = (r, s') \<Longrightarrow> later s s'"
  by (auto simp: later_def dest: local_onlyD)

lemma later_well: "later s s' \<Longrightarrow> well (remote s) \<Longrightarrow> well (remote s')"
  by (simp add: later_def)

lemma later_holds: "later s s' \<Longrightarrow> well (remote s) \<Longrightarrow> holds (remote s) u k \<Longrightarrow> holds (remote s') u k"
  by (simp add: later_def)

lemma attempts:
  "upload_attempts n net node h d s = (r, s') \<Longrightarrow> well (remote s) \<Longrightarrow> addressable h \<Longrightarrow>
     \<exists>b. r = Inr b \<and> later s s' \<and> (b \<longrightarrow> holds (remote s') (worker_url node) h)"
proof (induction n arbitrary: s)
  case (Suc n)
  obtain res w where call: "net (worker_url node) ''POST'' (''/chunk?hash='' @ h) [] d (remote s) = (res, w)" by fastforce
  let ?t = "s\<lparr>remote := w\<rparr>"
  have t: "later s ?t" "well (remote ?t)" using keep_law [OF Suc.prems(2,3) call] by (simp_all add: later_def)
  have step: "upload_attempts (Suc n) net node h d s =
      (if (case res of None \<Rightarrow> False | Some r \<Rightarrow> res_status r = 200) then ret True else upload_attempts n net node h d) ?t"
    using call by (simp add: andthen_def http_call_def)
  show ?case
  proof (cases "case res of None \<Rightarrow> False | Some r \<Rightarrow> res_status r = 200")
    case True
    then have "holds w (worker_url node) h" using ack_law [OF Suc.prems(2,3)] call by (auto split: option.splits)
    moreover have "r = Inr True" "s' = ?t" using step True Suc.prems(1) by (simp_all add: ret_def)
    ultimately show ?thesis using t(1) by (intro exI [of _ True]) simp
  next
    case False
    then have "upload_attempts n net node h d ?t = (r, s')" using step Suc.prems(1) by simp
    from Suc.IH [OF this t(2) Suc.prems(3)] show ?thesis using later_trans [OF t(1)] by blast
  qed
qed (auto simp: ret_def)

text \<open>
  What holds while an upload runs: as long as no task has failed, every chunk handed to the pool is
  on its worker or its task is still in the queue.
\<close>

definition due :: "(string \<times> string) set \<Rightarrow> upload_vars \<Rightarrow> 'w client \<Rightarrow> bool" where
  "due A v s \<longleftrightarrow> well (remote s) \<and> (\<forall>t\<in>set (futures v). addressable (task_hash t)) \<and>
     (all_succeeded v \<longrightarrow> (\<forall>u h. (u, h) \<in> A \<longrightarrow> holds (remote s) u h \<or>
        (\<exists>t\<in>set (futures v). worker_url (task_node t) = u \<and> task_hash t = h \<and> task_result t \<noteq> Some True)))"

lemma due_later: "due A v s \<Longrightarrow> later s s' \<Longrightarrow> due A v s'"
  unfolding due_def later_def by blast

lemma task_run:
  assumes "run_task net M p k v s = (r, s')" and "due A v s" and "\<And>p ns. local_only (sm_AppendCompletedIndices M p ns)"
    and "\<And>p ns s. \<exists>s'. sm_AppendCompletedIndices M p ns s = (Inr (), s')"
  shows "\<exists>v'. r = Inr v' \<and> due A v' s' \<and> later s s' \<and> length (futures v') = length (futures v) \<and> all_succeeded v' = all_succeeded v \<and>
    (\<forall>j. finished j v \<longrightarrow> finished j v') \<and> (k < length (futures v) \<longrightarrow> finished k v')"
proof (cases "k < length (futures v) \<and> task_result (futures v ! k) = None")
  case False
  then have "r = Inr v" "s' = s" using assms(1) by (auto simp: run_task_def ret_def Let_def split: if_splits)
  then show ?thesis using assms(2) False by (auto simp: finished_def)
next
  case True
  define t where "t = futures v ! k"
  have t: "k < length (futures v)" "task_result t = None" "t \<in> set (futures v)" using True by (auto simp: t_def)
  obtain r1 s1 where call: "UploadChunkToWorker net (task_node t) (task_hash t) (task_payload t) s = (r1, s1)" by fastforce
  then obtain b where b: "r1 = Inr b" "later s s1" "b \<longrightarrow> holds (remote s1) (worker_url (task_node t)) (task_hash t)"
    using attempts [of 3 "task_node t" "task_hash t" "task_payload t" s r1 s1] assms(2) t(3) unfolding UploadChunkToWorker_def due_def by blast
  define v1 where "v1 = v\<lparr>futures := (futures v)[k := t\<lparr>task_result := Some b\<rparr>],
      pending_disk_writes := pending_disk_writes v @ (if b then [task_index t] else [])\<rparr>"
  have "due A v1 s1"
    unfolding due_def
  proof (intro conjI)
    show "well (remote s1)" using later_well [OF b(2)] assms(2) by (simp add: due_def)
    show "\<forall>t\<in>set (futures v1). addressable (task_hash t)"
      using assms(2) t(3) by (auto simp: due_def v1_def dest!: set_update_subset_insert [THEN subsetD])
    show "all_succeeded v1 \<longrightarrow> (\<forall>u h. (u, h) \<in> A \<longrightarrow> holds (remote s1) u h \<or>
        (\<exists>t\<in>set (futures v1). worker_url (task_node t) = u \<and> task_hash t = h \<and> task_result t \<noteq> Some True))"
    proof (intro impI allI disjCI)
      fix u h
      assume "all_succeeded v1" and A: "(u, h) \<in> A" and no: "\<not> (\<exists>t\<in>set (futures v1). worker_url (task_node t) = u \<and> task_hash t = h \<and> task_result t \<noteq> Some True)"
      then have "holds (remote s) u h \<or> (\<exists>t\<in>set (futures v). worker_url (task_node t) = u \<and> task_hash t = h \<and> task_result t \<noteq> Some True)"
        using assms(2) by (auto simp: due_def v1_def)
      then show "holds (remote s1) u h"
      proof
        assume "holds (remote s) u h"
        then show ?thesis using later_holds [OF b(2)] assms(2) by (simp add: due_def)
      next
        assume "\<exists>t\<in>set (futures v). worker_url (task_node t) = u \<and> task_hash t = h \<and> task_result t \<noteq> Some True"
        then obtain j where j: "j < length (futures v)" "worker_url (task_node (futures v ! j)) = u" "task_hash (futures v ! j) = h"
          "task_result (futures v ! j) \<noteq> Some True" by (metis in_set_conv_nth)
        have mem: "futures v1 ! j \<in> set (futures v1)" using j(1) by (simp add: v1_def)
        have "j = k"
        proof (rule ccontr)
          assume "j \<noteq> k"
          then have "futures v1 ! j = futures v ! j" by (simp add: v1_def)
          then show False using no mem j by metis
        qed
        moreover from this have "futures v1 ! j = t\<lparr>task_result := Some b\<rparr>" using t(1) by (simp add: v1_def)
        then have "b" using no mem j calculation by (auto simp: t_def)
        ultimately show ?thesis using b(3) j by (simp add: t_def)
      qed
    qed
  qed
  moreover have "\<forall>j. finished j v \<longrightarrow> finished j v1" "finished k v1"
    using t(1) by (auto simp: finished_def v1_def nth_list_update)
  ultimately have one: "due A v1 s1" "length (futures v1) = length (futures v)" "all_succeeded v1 = all_succeeded v"
    "\<forall>j. finished j v \<longrightarrow> finished j v1" "finished k v1" by (simp_all add: v1_def)
  have run: "run_task net M p k v s = (if b \<and> log_batch \<le> length (pending_disk_writes v1)
      then andthen (sm_AppendCompletedIndices M p (pending_disk_writes v1)) (\<lambda>_. ret (v1\<lparr>pending_disk_writes := []\<rparr>)) else ret v1) s1"
    using t(1,2) call b(1) by (simp add: run_task_def t_def [symmetric] andthen_def v1_def Let_def)
  show ?thesis
  proof (cases "b \<and> log_batch \<le> length (pending_disk_writes v1)")
    case True
    obtain s2 where s2: "sm_AppendCompletedIndices M p (pending_disk_writes v1) s1 = (Inr (), s2)" using assms(4) by blast
    then have l: "later s1 s2" by (rule later_local [OF assms(3)])
    have "due A (v1\<lparr>pending_disk_writes := []\<rparr>) s2" using due_later [OF one(1) l] by (simp add: due_def)
    then show ?thesis using assms(1) run True s2 one(2-5) later_trans [OF b(2) l] by (auto simp: andthen_def ret_def finished_def)
  next
    case False
    then show ?thesis using assms(1) run one b(2) by (auto simp: ret_def)
  qed
qed

text \<open>Running tasks in any order, under any condition.\<close>

definition safe_run :: "(string \<times> string) set \<Rightarrow> (nat \<Rightarrow> upload_vars \<Rightarrow> ('w client, upload_vars) action) \<Rightarrow> bool" where
  "safe_run A run \<longleftrightarrow> (\<forall>k v s r s'. run k v s = (r, s') \<longrightarrow> due A v s \<longrightarrow>
     (\<exists>v'. r = Inr v' \<and> due A v' s' \<and> later s s' \<and> length (futures v') = length (futures v) \<and> all_succeeded v' = all_succeeded v \<and>
        (\<forall>j. finished j v \<longrightarrow> finished j v')))"

lemma tasks_run:
  assumes "safe_run A run"
  shows "run_tasks run ks v s = (r, s') \<Longrightarrow> due A v s \<Longrightarrow>
    \<exists>v'. r = Inr v' \<and> due A v' s' \<and> later s s' \<and> length (futures v') = length (futures v) \<and> all_succeeded v' = all_succeeded v \<and>
      (\<forall>j. finished j v \<longrightarrow> finished j v')"
proof (induction ks arbitrary: v s)
  case (Cons k ks)
  obtain r1 s1 where 1: "run k v s = (r1, s1)" by fastforce
  then obtain v1 where v1: "r1 = Inr v1" "due A v1 s1" "later s s1" "length (futures v1) = length (futures v)"
    "all_succeeded v1 = all_succeeded v" "\<forall>j. finished j v \<longrightarrow> finished j v1"
    using assms Cons.prems(2) unfolding safe_run_def by blast
  have "run_tasks run ks v1 s1 = (r, s')" using Cons.prems(1) 1 v1(1) by (simp add: andthen_def)
  from Cons.IH [OF this v1(2)] show ?case using v1(3-6) later_trans [OF v1(3)] by auto
qed (auto simp: ret_def)

lemma run_task_safe: "stays_local M \<Longrightarrow> safe_run A (run_task net M p)"
  unfolding safe_run_def using task_run by (metis stays_local_def)

lemma run_if_safe: "safe_run A run \<Longrightarrow> safe_run A (\<lambda>k v. if c v then run k v else ret v)"
  by (auto simp: safe_run_def ret_def)

lemma all_run:
  assumes "stays_local M"
  shows "run_tasks (run_task net M p) [i..<n] v s = (r, s') \<Longrightarrow> due A v s \<Longrightarrow> n \<le> length (futures v) \<Longrightarrow> i \<le> n \<Longrightarrow> \<forall>j<i. finished j v \<Longrightarrow>
    \<exists>v'. r = Inr v' \<and> due A v' s' \<and> later s s' \<and> length (futures v') = length (futures v) \<and> all_succeeded v' = all_succeeded v \<and>
      (\<forall>j<n. finished j v')"
proof (induction "n - i" arbitrary: i v s)
  case 0
  then have "r = Inr v \<and> s' = s" by (simp add: ret_def)
  then show ?case using 0 by auto
next
  case (Suc m)
  then have i: "i < n" by simp
  obtain r1 s1 where 1: "run_task net M p i v s = (r1, s1)" by fastforce
  then obtain v1 where v1: "r1 = Inr v1" "due A v1 s1" "later s s1" "length (futures v1) = length (futures v)"
    "all_succeeded v1 = all_succeeded v" "\<forall>j. finished j v \<longrightarrow> finished j v1" "finished i v1"
    using task_run [OF 1 Suc.prems(2)] assms i Suc.prems(3) unfolding stays_local_def by force
  have "run_tasks (run_task net M p) [Suc i..<n] v1 s1 = (r, s')"
    using Suc.prems(1) 1 v1(1) i by (simp add: upt_conv_Cons andthen_def)
  moreover have "\<forall>j<Suc i. finished j v1" using v1(6,7) Suc.prems(5) by (auto simp: less_Suc_eq)
  moreover have "m = n - Suc i" using Suc.hyps(2) by simp
  ultimately obtain v' where "r = Inr v'" "due A v' s'" "later s1 s'" "length (futures v') = length (futures v1)"
    "all_succeeded v' = all_succeeded v1" "\<forall>j<n. finished j v'"
    using Suc.hyps(1) [of "Suc i" v1 s1] i v1(2,4) Suc.prems(3) by auto
  then show ?case using v1(4,5) later_trans [OF v1(3)] by auto
qed

lemma due_drain: "due A v s \<Longrightarrow> due A (drain_ready v) s"
proof -
  assume due: "due A v s"
  have drop: "t \<in> set (futures (drain_ready v)) \<or> task_result t = Some True"
    if "t \<in> set (futures v)" "all_succeeded (drain_ready v)" for t
  proof -
    have "t \<in> set (takeWhile (\<lambda>t. task_result t \<noteq> None) (futures v)) \<or> t \<in> set (dropWhile (\<lambda>t. task_result t \<noteq> None) (futures v))"
      using that(1) by (metis UnE set_append takeWhile_dropWhile_id)
    then show ?thesis using that(2) by (auto simp: drain_ready_def list_all_iff)
  qed
  have "set (futures (drain_ready v)) \<subseteq> set (futures v)" by (auto simp: drain_ready_def dest: set_dropWhileD)
  moreover have "all_succeeded (drain_ready v) \<Longrightarrow> all_succeeded v" by (simp add: drain_ready_def)
  ultimately show ?thesis using due drop unfolding due_def by blast
qed

lemma progress:
  assumes "stays_local M" and "pool_progress net M p v s = (r, s')" and "due A v s"
  shows "\<exists>v'. r = Inr v' \<and> due A v' s' \<and> later s s' \<and> all_succeeded v' = all_succeeded v"
proof -
  have "run_tasks (run_task net M p) (thread_schedule (os_answer s) (moment s)) v s = (r, s')"
    using assms(2) by (simp add: pool_progress_def andthen_get)
  from tasks_run [OF run_task_safe [OF assms(1)] this assms(3)] show ?thesis by blast
qed

lemma acquired:
  assumes "stays_local M" and "acquire_permit net M p v s = (r, s')" and "due A v s"
  shows "\<exists>v'. r = Inr v' \<and> due A v' s' \<and> later s s' \<and> all_succeeded v' = all_succeeded v"
  using tasks_run [OF run_if_safe [OF run_task_safe [OF assms(1)]], of "\<lambda>v. max_in_flight \<le> in_flight v" p "[0..<length (futures v)]" v s r s' A]
    assms(2,3) unfolding acquire_permit_def by blast

lemma due_enqueue:
  assumes "due A v s" and "addressable (plan_hash (snd t))"
  shows "due (A \<union> due_of [t]) (v\<lparr>futures := futures v @ new_tasks no t payload\<rparr>) s"
proof -
  have "\<exists>x\<in>set (new_tasks no t payload). worker_url (task_node x) = u \<and> task_hash x = h \<and> task_result x \<noteq> Some True"
    if "(u, h) \<in> due_of [t]" for u h
    using that by (cases t) (force simp: due_of_def new_tasks_def)
  moreover have "\<forall>x\<in>set (new_tasks no t payload). addressable (task_hash x)" using assms(2) by (auto simp: new_tasks_def)
  ultimately show ?thesis using assms(1) unfolding due_def by (auto; blast)
qed

text \<open>
  The loop ends with everything handed over, with a failure seen, or because the transfer was no
  longer running.
\<close>

lemma loop_run:
  assumes "stays_local M" and "\<And>i. local_only (sl_ReadChunk S i chunk_size)" and "\<And>i s. \<exists>d s'. sl_ReadChunk S i chunk_size s = (Inr d, s')"
  shows "upload_loop net S M p chunk_size no ts v s = (r, s') \<Longrightarrow> due A v s \<Longrightarrow> \<forall>t\<in>set ts. addressable (plan_hash (snd t)) \<Longrightarrow>
    \<exists>v' B. r = Inr v' \<and> due B v' s' \<and> later s s' \<and>
      (B = A \<union> due_of ts \<or> \<not> all_succeeded v' \<or> (\<exists>k. moment s \<le> k \<and> k < moment s' \<and> transfer_state (os_answer s) k \<noteq> RUNNING))"
proof (induction ts arbitrary: no v s A)
  case Nil
  then show ?case by (auto simp: ret_def due_of_def)
next
  case (Cons t ts)
  have load: "load_state s = (Inr (transfer_state (os_answer s) (moment s)),
      s\<lparr>local_files := meddling (os_answer s) (moment s) (local_files s), moment := moment s + 1\<rparr>)"
    by (simp add: load_state_def andthen_def get_def next_call_apply ret_def)
  let ?s1 = "s\<lparr>local_files := meddling (os_answer s) (moment s) (local_files s), moment := moment s + 1\<rparr>"
  have l1: "later s ?s1" by (simp add: later_def)
  show ?case
  proof (cases "transfer_state (os_answer s) (moment s) = RUNNING")
    case False
    then have "r = Inr v" "s' = ?s1" using Cons.prems(1) load by (auto simp: andthen_def ret_def)
    then show ?thesis using due_later [OF Cons.prems(2) l1] l1 False by auto
  next
    case True
    obtain r2 s2 where 2: "pool_progress net M p v ?s1 = (r2, s2)" by fastforce
    then obtain v2 where v2: "r2 = Inr v2" "due A v2 s2" "later ?s1 s2"
      using progress [OF assms(1)] due_later [OF Cons.prems(2) l1] by blast
    have run: "(if \<not> all_succeeded (drain_ready v2) then ret (drain_ready v2)
        else andthen (acquire_permit net M p (drain_ready v2)) (\<lambda>v. andthen (sl_ReadChunk S (fst t) chunk_size) (\<lambda>payload.
          upload_loop net S M p chunk_size (no + 1) ts (v\<lparr>futures := futures v @ new_tasks no t payload\<rparr>)))) s2 = (r, s')"
      using Cons.prems(1) load True 2 v2(1) by (simp add: andthen_def Let_def)
    have l2: "later s s2" using later_trans [OF l1 v2(3)] .
    show ?thesis
    proof (cases "all_succeeded (drain_ready v2)")
      case False
      then have "r = Inr (drain_ready v2)" "s' = s2" using run by (simp_all add: ret_def)
      then show ?thesis using due_drain [OF v2(2)] l2 False by blast
    next
      case good: True
      obtain r3 s3 where 3: "acquire_permit net M p (drain_ready v2) s2 = (r3, s3)" by fastforce
      then obtain v3 where v3: "r3 = Inr v3" "due A v3 s3" "later s2 s3" using acquired [OF assms(1)] due_drain [OF v2(2)] by blast
      obtain d s4 where 4: "sl_ReadChunk S (fst t) chunk_size s3 = (Inr d, s4)" using assms(3) by blast
      then have l4: "later s3 s4" by (rule later_local [OF assms(2)])
      let ?v = "v3\<lparr>futures := futures v3 @ new_tasks no t d\<rparr>"
      have rest: "upload_loop net S M p chunk_size (no + 1) ts ?v s4 = (r, s')"
        using run good 3 v3(1) 4 by (simp add: andthen_def)
      have "due (A \<union> due_of [t]) ?v s4" using due_enqueue [OF due_later [OF v3(2) l4]] Cons.prems(3) by simp
      from Cons.IH [OF rest this] Cons.prems(3) obtain v' B where v': "r = Inr v'" "due B v' s'" "later s4 s'"
        "B = A \<union> due_of [t] \<union> due_of ts \<or> \<not> all_succeeded v' \<or> (\<exists>k. moment s4 \<le> k \<and> k < moment s' \<and> transfer_state (os_answer s4) k \<noteq> RUNNING)"
        by auto
      have l: "later s s4" using later_trans [OF later_trans [OF l2 v3(3)] l4] .
      have "due_of [t] \<union> due_of ts = due_of (t # ts)" by (auto simp: due_of_def)
      then show ?thesis using v' later_trans [OF l v'(3)] l by (metis later_def order_trans sup_assoc)
    qed
  qed
qed

lemma await_run:
  assumes "stays_local M" and "await_all net M p v s = (r, s')" and "due A v s"
  shows "\<exists>v'. r = Inr v' \<and> due A v' s' \<and> later s s' \<and> futures v' = [] \<and> (all_succeeded v' \<longrightarrow> all_succeeded v)"
proof -
  obtain r1 s1 where 1: "pool_progress net M p v s = (r1, s1)" by fastforce
  then obtain v1 where v1: "r1 = Inr v1" "due A v1 s1" "later s s1" "all_succeeded v1 = all_succeeded v"
    using progress [OF assms(1)] assms(3) by blast
  obtain r2 s2 where 2: "run_tasks (run_task net M p) [0..<length (futures v1)] v1 s1 = (r2, s2)" by fastforce
  then obtain v2 where v2: "r2 = Inr v2" "due A v2 s2" "later s1 s2" "length (futures v2) = length (futures v1)"
    "all_succeeded v2 = all_succeeded v1" "\<forall>j<length (futures v1). finished j v2"
    using all_run [OF assms(1) _ v1(2), of p 0 "length (futures v1)"] by blast
  have "r = Inr (drain_ready v2)" "s' = s2" using assms(2) 1 v1(1) 2 v2(1) by (auto simp: await_all_def andthen_def ret_def)
  moreover have "\<forall>t\<in>set (futures v2). task_result t \<noteq> None" using v2(4,6) by (auto simp: finished_def in_set_conv_nth)
  then have "futures (drain_ready v2) = []" by (simp add: drain_ready_def)
  moreover have "all_succeeded (drain_ready v2) \<longrightarrow> all_succeeded v" using v1(4) v2(5) by (simp add: drain_ready_def)
  ultimately show ?thesis using due_drain [OF v2(2)] later_trans [OF v1(3) v2(3)] by blast
qed

text \<open>What an upload that returned true has done.\<close>

lemma upload_effect:
  assumes "stays_local M" and "\<And>i. local_only (sl_ReadChunk S i n)" and "\<And>i s. \<exists>d s'. sl_ReadChunk S i n s = (Inr d, s')"
    and "local_only (sl_OpenStream S p n)" and "local_only (sl_CloseStream S)" and "stop_is_final s" and "well (remote s)"
    and "\<forall>t\<in>set ts. addressable (plan_hash (snd t))" and "Upload net S M p n ts s = (Inr True, s')"
  shows "later s s' \<and> (\<forall>(u, h)\<in>due_of ts. holds (remote s') u h)"
proof -
  let ?v = "\<lparr>futures = [], pending_disk_writes = [], all_succeeded = True\<rparr>"
  obtain v s3 where v: "with_pool (andthen (sl_OpenStream S p n) (\<lambda>_. andthen (upload_loop net S M p n 0 ts ?v) (await_all net M p))) s = (Inr v, s3)"
    and after: "andthen (if pending_disk_writes v \<noteq> [] then sm_AppendCompletedIndices M p (pending_disk_writes v) else ret ()) (\<lambda>_.
      andthen (if all_succeeded v then andthen load_state (\<lambda>st. ret (st = RUNNING)) else ret False) (\<lambda>result.
      andthen (sl_CloseStream S) (\<lambda>_. ret result))) s3 = (Inr True, s')"
    using assms(9) unfolding Upload_def andthen_eq_Inr by metis
  then obtain u s1 where 1: "sl_OpenStream S p n s = (Inr u, s1)" and "andthen (upload_loop net S M p n 0 ts ?v) (await_all net M p) s1 = (Inr v, s3)"
    by (auto simp: with_pool_def andthen_eq_Inr split: prod.splits sum.splits)
  then obtain v2 s2 where 2: "upload_loop net S M p n 0 ts ?v s1 = (Inr v2, s2)" and 3: "await_all net M p v2 s2 = (Inr v, s3)"
    by (auto simp: andthen_eq_Inr)
  have l1: "later s s1" by (rule later_local [OF assms(4) 1])
  have "due {} ?v s1" using later_well [OF l1 assms(7)] by (simp add: due_def)
  from loop_run [OF assms(1-3) 2 this assms(8)] obtain B where B: "due B v2 s2" "later s1 s2"
    "B = due_of ts \<or> \<not> all_succeeded v2 \<or> (\<exists>k. moment s1 \<le> k \<and> k < moment s2 \<and> transfer_state (os_answer s1) k \<noteq> RUNNING)"
    by auto
  from await_run [OF assms(1) 3 B(1)] have v: "due B v s3" "later s2 s3" "futures v = []" "all_succeeded v \<longrightarrow> all_succeeded v2"
    by auto
  obtain u s4 where 4: "(if pending_disk_writes v \<noteq> [] then sm_AppendCompletedIndices M p (pending_disk_writes v) else ret ()) s3 = (Inr u, s4)"
    and rest: "andthen (if all_succeeded v then andthen load_state (\<lambda>st. ret (st = RUNNING)) else ret False) (\<lambda>result.
      andthen (sl_CloseStream S) (\<lambda>_. ret result)) s4 = (Inr True, s')"
    using after unfolding andthen_eq_Inr by metis
  have "local_only (if pending_disk_writes v \<noteq> [] then sm_AppendCompletedIndices M p (pending_disk_writes v) else ret ())"
    using assms(1) by (auto simp: stays_local_def intro: local_intros)
  then have l4: "later s3 s4" using 4 by (rule later_local)
  obtain res s5 where 5: "(if all_succeeded v then andthen load_state (\<lambda>st. ret (st = RUNNING)) else ret False) s4 = (Inr res, s5)"
    and "andthen (sl_CloseStream S) (\<lambda>_. ret res) s5 = (Inr True, s')"
    using rest unfolding andthen_eq_Inr by metis
  then have 6: "res" "\<exists>u. sl_CloseStream S s5 = (Inr u, s')" by (auto simp: andthen_eq_Inr ret_eq_Inr)
  then have good: "all_succeeded v" "transfer_state (os_answer s4) (moment s4) = RUNNING" "later s4 s5"
    using 5 by (auto simp: load_state_def andthen_def get_def next_call_apply ret_def later_def split: if_splits)
  have l6: "later s5 s'" using 6(2) later_local [OF assms(5)] by blast
  have chain: "later s s4" using later_trans [OF later_trans [OF later_trans [OF l1 B(2)] v(2)] l4] .
  have "\<not> (\<exists>k. moment s1 \<le> k \<and> k < moment s2 \<and> transfer_state (os_answer s1) k \<noteq> RUNNING)"
  proof
    assume "\<exists>k. moment s1 \<le> k \<and> k < moment s2 \<and> transfer_state (os_answer s1) k \<noteq> RUNNING"
    then obtain k where k: "k < moment s2" "transfer_state (os_answer s) k \<noteq> RUNNING" using l1 by (auto simp: later_def)
    have "moment s2 \<le> moment s4" using v(2) l4 by (auto simp: later_def)
    then have "transfer_state (os_answer s) (moment s4) \<noteq> RUNNING" using assms(6) k unfolding stop_is_final_def by (meson less_or_eq_imp_le order_trans)
    then show False using good(2) chain by (simp add: later_def)
  qed
  then have "B = due_of ts" using B(3) v(4) good(1) by blast
  then have "\<forall>(u, h)\<in>due_of ts. holds (remote s3) u h" "well (remote s3)" using v(1,3) good(1) by (auto simp: due_def)
  moreover have "later s3 s'" using later_trans [OF later_trans [OF l4 good(3)] l6] .
  moreover have "later s s'" using later_trans [OF later_trans [OF chain good(3)] l6] .
  ultimately show ?thesis using later_holds by blast
qed

lemma upload_complete:
  assumes "stays_local M" and "\<And>i. local_only (sl_ReadChunk S i n)" and "\<And>i s. \<exists>d s'. sl_ReadChunk S i n s = (Inr d, s')"
    and "local_only (sl_OpenStream S p n)" and "local_only (sl_CloseStream S)" and "stop_is_final s" and "well (remote s)"
    and "\<forall>t\<in>set ts. addressable (plan_hash (snd t))" and "Upload net S M p n ts s = (Inr True, s')"
    and "(i, plan) \<in> set ts" and "node \<in> set (assigned_nodes plan)"
  shows "well (remote s') \<and> holds (remote s') (worker_url node) (plan_hash plan)"
proof -
  have "(worker_url node, plan_hash plan) \<in> due_of ts" using assms(10,11) by (auto simp: due_of_def)
  then show ?thesis using upload_effect [OF assms(1-9)] later_well assms(7) by blast
qed

end

end
