(* ===== verification/Download_Manager.thy ===== *)
theory Download_Manager
  imports Transfer_Manager
begin

text \<open>
  The download half of \<^verbatim>\<open>client/network/ParallelTransferManager.cpp\<close>: chunks are fetched from
  their replicas by the pool, checked against their hashes, and written to their places in one file
  that was allocated in its full size; a file of that size that is already there is checked and completed.
\<close>

section \<open>One chunk from its replicas\<close>

text \<open>
  A replica serves the chunk when it answers 200 with a body of exactly the expected size that has the
  hash; the receiver refuses a longer body, and anything that throws is a failed replica.
\<close>

definition serves_chunk :: "ICryptoEngine \<Rightarrow> string \<Rightarrow> nat \<Rightarrow> Response option \<Rightarrow> string option" where
  "serves_chunk crypto hash expected_size res =
     (case res of
        None \<Rightarrow> None
      | Some r \<Rightarrow>
          if res_status r = 200 \<and> length (res_body r) = expected_size then
            (case ComputeHash crypto (res_body r) of Inl _ \<Rightarrow> None | Inr h \<Rightarrow> if h = hash then Some (res_body r) else None)
          else None)"

fun DownloadChunkFromReplica :: "'w network \<Rightarrow> ICryptoEngine \<Rightarrow> NodeInfo list \<Rightarrow> string \<Rightarrow> nat \<Rightarrow> ('w client, string) action" where
  "DownloadChunkFromReplica net crypto [] hash expected_size =
     throw (RuntimeError (''All replicas failed or returned corrupted data for chunk: '' @ hash))"
| "DownloadChunkFromReplica net crypto (node # replicas) hash expected_size =
     andthen (http_call net (worker_url node) ''GET'' (''/chunk?hash='' @ hash) [] []) (\<lambda>res.
     case serves_chunk crypto hash expected_size res of
       Some buffer \<Rightarrow> ret buffer
     | None \<Rightarrow> DownloadChunkFromReplica net crypto replicas hash expected_size)"

section \<open>The shared file\<close>

text \<open>The file stream that the tasks share: once an operation on it has failed, the later ones do nothing.\<close>

definition bytes_of :: "'w client \<Rightarrow> string \<Rightarrow> string" where
  "bytes_of s p = (case local_files s p of None \<Rightarrow> [] | Some f \<Rightarrow> contents f)"

definition shared_read :: "string \<Rightarrow> nat \<Rightarrow> nat \<Rightarrow> bool \<Rightarrow> ('w client, string \<times> bool) action" where
  "shared_read p offset n failed =
     andthen next_call (\<lambda>works. get (\<lambda>s.
       let data = (if failed \<or> \<not> works then [] else take n (drop offset (bytes_of s p)))
       in (data @ replicate (n - length data) (CHR 0x00), failed \<or> \<not> works \<or> length data < n)))"

text \<open>A write past the end fills the gap with zeros.\<close>

definition write_at :: "nat \<Rightarrow> string \<Rightarrow> string \<Rightarrow> string" where
  "write_at offset data content =
     take offset (content @ replicate (offset - length content) (CHR 0x00)) @ data @ drop (offset + length data) content"

definition shared_write :: "string \<Rightarrow> nat \<Rightarrow> string \<Rightarrow> bool \<Rightarrow> ('w client, bool) action" where
  "shared_write p offset data failed =
     andthen next_call (\<lambda>works s.
       if failed \<or> \<not> works then (Inr True, s)
       else (Inr False, set_file p (write_at offset data (bytes_of s p)) s))"

section \<open>The download\<close>

text \<open>\<^verbatim>\<open>routing_map[plan.hash] = plan.assigned_nodes\<close>: the last plan of a hash counts.\<close>

definition routing_map :: "ChunkRoutingPlan list \<Rightarrow> string \<Rightarrow> NodeInfo list option" where
  "routing_map ps = foldl (\<lambda>m plan. m(plan_hash plan \<mapsto> assigned_nodes plan)) (\<lambda>_. None) ps"

record fetch =
  fetch_chunk :: DownloadChunkMeta
  fetch_nodes :: "NodeInfo list"
  fetch_offset :: nat

text \<open>The file that is there is verified chunk by chunk; what is not reached counts as missing.\<close>

fun verify_chunks ::
    "ICryptoEngine \<Rightarrow> string \<Rightarrow> nat \<Rightarrow> bool \<Rightarrow> DownloadChunkMeta list \<Rightarrow> ('w client, bool list \<times> bool) action" where
  "verify_chunks crypto p offset failed [] = ret ([], failed)"
| "verify_chunks crypto p offset failed (c # cs) =
     andthen load_state (\<lambda>st.
     if st \<noteq> RUNNING then ret (replicate (length (c # cs)) False, failed)
     else andthen (shared_read p offset (meta_size c) failed) (\<lambda>(buffer, failed).
       andthen (of_outcome (ComputeHash crypto buffer)) (\<lambda>h.
       andthen (verify_chunks crypto p (offset + meta_size c) failed cs) (\<lambda>(bits, failed).
       ret ((h = meta_hash c) # bits, failed)))))"

text \<open>The tasks handed to the pool, in order; a chunk without a route throws.\<close>

fun plan_fetches ::
    "(string \<Rightarrow> NodeInfo list option) \<Rightarrow> nat \<Rightarrow> (DownloadChunkMeta \<times> bool) list \<Rightarrow> ('w client, fetch list) action" where
  "plan_fetches routes offset [] = ret []"
| "plan_fetches routes offset ((c, completed) # cs) =
     andthen load_state (\<lambda>st.
     if st \<noteq> RUNNING then ret []
     else if completed then plan_fetches routes (offset + meta_size c) cs
     else case routes (meta_hash c) of
         None \<Rightarrow> throw (RuntimeError (''Missing network route for hash: '' @ meta_hash c))
       | Some replicas \<Rightarrow>
           andthen (plan_fetches routes (offset + meta_size c) cs) (\<lambda>fs.
           ret (\<lparr>fetch_chunk = c, fetch_nodes = replicas, fetch_offset = offset\<rparr> # fs)))"

definition run_fetch :: "'w network \<Rightarrow> ICryptoEngine \<Rightarrow> string \<Rightarrow> fetch \<Rightarrow> bool \<Rightarrow> ('w client, bool) action" where
  "run_fetch net crypto p f failed =
     andthen (DownloadChunkFromReplica net crypto (fetch_nodes f) (meta_hash (fetch_chunk f)) (meta_size (fetch_chunk f))) (\<lambda>buffer.
     shared_write p (fetch_offset f) buffer failed)"

fun run_fetches :: "'w network \<Rightarrow> ICryptoEngine \<Rightarrow> string \<Rightarrow> fetch list \<Rightarrow> bool \<Rightarrow> ('w client, unit) action" where
  "run_fetches net crypto p [] failed = ret ()"
| "run_fetches net crypto p (f # fs) failed =
     andthen (run_fetch net crypto p f failed) (run_fetches net crypto p fs)"

text \<open>The order in which the pool runs the tasks: those of the schedule first, then the others.\<close>

definition scheduled :: "nat list \<Rightarrow> 'a list \<Rightarrow> 'a list" where
  "scheduled ks xs =
     (let order = remdups (filter (\<lambda>k. k < length xs) ks) in map ((!) xs) (order @ filter (\<lambda>k. k \<notin> set order) [0..<length xs]))"

definition allocate :: "string \<Rightarrow> nat \<Rightarrow> ('w client, unit) action" where
  "allocate p nbytes =
     andthen (fs_write p (replicate nbytes (CHR 0x00))) (\<lambda>opened.
     if \<not> opened then throw (RuntimeError ''Failed to allocate file.'') else ret ())"

text \<open>
  The file that is there is taken up when it has the full size; otherwise it is allocated anew.
\<close>

definition open_output :: "DownloadChunkMeta list \<Rightarrow> string \<Rightarrow> ('w client, bool) action" where
  "open_output ordered_chunks output_path =
     (let total_size = sum_list (map meta_size ordered_chunks)
      in andthen (fs_exists output_path) (\<lambda>there.
         andthen (if there then fs_file_size output_path else ret None) (\<lambda>bytes.
         let is_resume = (there \<and> bytes = Some (int total_size))
         in andthen (if is_resume then ret () else allocate output_path total_size) (\<lambda>_.
            andthen (fs_read output_path) (\<lambda>opened.
            if opened = None then throw (RuntimeError ''Failed to open file stream.'') else ret is_resume)))))"

text \<open>
  A task that fails leaves its exception in its future; \<^verbatim>\<open>get\<close> throws it while the pool is still
  running, which ends the process.
\<close>

definition fetch_missing ::
    "'w network \<Rightarrow> ICryptoEngine \<Rightarrow> DownloadChunkMeta list \<Rightarrow> ChunkRoutingPlan list \<Rightarrow> string \<Rightarrow> bool list \<Rightarrow> bool \<Rightarrow>
     ('w client, bool) action" where
  "fetch_missing net crypto ordered_chunks upload_plans output_path chunk_completed failed =
     andthen (with_pool
       (andthen (plan_fetches (routing_map upload_plans) 0 (zip ordered_chunks chunk_completed)) (\<lambda>fs.
        andthen (get (\<lambda>s. thread_schedule (os_answer s) (moment s))) (\<lambda>ks.
        run_fetches net crypto output_path (scheduled ks fs) failed)))) (\<lambda>_.
     andthen load_state (\<lambda>st. ret (st = RUNNING)))"

definition DownloadToFile ::
    "'w network \<Rightarrow> ICryptoEngine \<Rightarrow> DownloadChunkMeta list \<Rightarrow> ChunkRoutingPlan list \<Rightarrow> string \<Rightarrow> ('w client, bool) action" where
  "DownloadToFile net crypto ordered_chunks upload_plans output_path =
     andthen (open_output ordered_chunks output_path) (\<lambda>is_resume.
     andthen (if is_resume then verify_chunks crypto output_path 0 False ordered_chunks
              else ret (replicate (length ordered_chunks) False, False)) (\<lambda>(chunk_completed, failed).
     fetch_missing net crypto ordered_chunks upload_plans output_path chunk_completed failed))"

definition ParallelTransferManager :: "'w network \<Rightarrow> ICryptoEngine \<Rightarrow> 'w client ITransferManager" where
  "ParallelTransferManager net crypto =
     \<lparr>tm_Upload = Upload net, tm_DownloadToFile = DownloadToFile net crypto\<rparr>"

section \<open>Replicas\<close>

text \<open>What is returned has the expected size and hash.\<close>

lemma replica_result:
  "DownloadChunkFromReplica net crypto replicas h n s = (r, s') \<Longrightarrow>
     local_files s' = local_files s \<and> os_answer s' = os_answer s \<and> moment s' = moment s \<and>
     (case r of Inl e \<Rightarrow> e = RuntimeError (''All replicas failed or returned corrupted data for chunk: '' @ h)
      | Inr d \<Rightarrow> length d = n \<and> ComputeHash crypto d = Inr h)"
proof (induction replicas arbitrary: s)
  case (Cons node replicas)
  obtain res w where call: "net (worker_url node) ''GET'' (''/chunk?hash='' @ h) [] [] (remote s) = (res, w)" by fastforce
  have step: "DownloadChunkFromReplica net crypto (node # replicas) h n s =
      (case serves_chunk crypto h n res of Some buffer \<Rightarrow> ret buffer | None \<Rightarrow> DownloadChunkFromReplica net crypto replicas h n) (s\<lparr>remote := w\<rparr>)"
    using call by (simp add: andthen_def http_call_def)
  show ?case
  proof (cases "serves_chunk crypto h n res")
    case None
    then show ?thesis using Cons.IH [of "s\<lparr>remote := w\<rparr>"] Cons.prems step by simp
  next
    case (Some d)
    then have "length d = n \<and> ComputeHash crypto d = Inr h"
      by (auto simp: serves_chunk_def split: option.splits if_splits sum.splits)
    then show ?thesis using Cons.prems step Some by (auto simp: ret_def)
  qed
qed (auto simp: throw_def)

section \<open>Places in the file\<close>

fun places :: "nat \<Rightarrow> DownloadChunkMeta list \<Rightarrow> (DownloadChunkMeta \<times> nat) list" where
  "places off [] = []"
| "places off (c # cs) = (c, off) # places (off + meta_size c) cs"

definition piece :: "string \<Rightarrow> DownloadChunkMeta \<times> nat \<Rightarrow> string" where
  "piece c pl = take (meta_size (fst pl)) (drop (snd pl) c)"

definition place_ok :: "ICryptoEngine \<Rightarrow> string \<Rightarrow> DownloadChunkMeta \<times> nat \<Rightarrow> bool" where
  "place_ok crypto c pl \<longleftrightarrow> ComputeHash crypto (piece c pl) = Inr (meta_hash (fst pl))"

definition fits :: "string \<Rightarrow> DownloadChunkMeta \<times> nat \<Rightarrow> bool" where
  "fits c pl \<longleftrightarrow> snd pl + meta_size (fst pl) \<le> length c"

definition compatible :: "DownloadChunkMeta \<times> nat \<Rightarrow> DownloadChunkMeta \<times> nat \<Rightarrow> bool" where
  "compatible p q \<longleftrightarrow> p = q \<or> snd p + meta_size (fst p) \<le> snd q \<or> snd q + meta_size (fst q) \<le> snd p"

lemma places_above: "(c, off') \<in> set (places off cs) \<Longrightarrow> off \<le> off'"
  by (induction cs arbitrary: off) fastforce+

lemma places_compatible: "p \<in> set (places off cs) \<Longrightarrow> q \<in> set (places off cs) \<Longrightarrow> compatible p q"
proof (induction cs arbitrary: off)
  case (Cons c cs)
  have above: "off + meta_size c \<le> snd x" if "x \<in> set (places (off + meta_size c) cs)" for x
    using places_above [of "fst x" "snd x"] that by (cases x) auto
  show ?case using Cons.prems Cons.IH [of "off + meta_size c"] above [of p] above [of q] by (auto simp: compatible_def)
qed simp

lemma places_fit: "p \<in> set (places off cs) \<Longrightarrow> off + sum_list (map meta_size cs) \<le> length c \<Longrightarrow> fits c p"
proof (induction cs arbitrary: off)
  case (Cons x cs)
  then show ?case using Cons.IH [of "off + meta_size x"] by (auto simp: fits_def)
qed simp

lemma length_places [simp]: "length (places off cs) = length cs"
  by (induction cs arbitrary: off) simp_all

lemma nth_places: "i < length cs \<Longrightarrow> fst (places off cs ! i) = cs ! i"
  by (induction cs arbitrary: off i) (simp_all add: nth_Cons split: nat.split)

lemma concat_pieces: "concat (map (piece c) (places off cs)) = take (sum_list (map meta_size cs)) (drop off c)"
proof (induction cs arbitrary: off)
  case (Cons x cs)
  show ?case using Cons.IH [of "off + meta_size x"] by (simp add: piece_def take_add add.commute)
qed simp

text \<open>A write changes its own place and none that is apart from it.\<close>

lemma write_at_fit: "off + length d \<le> length c \<Longrightarrow> write_at off d c = take off c @ d @ drop (off + length d) c"
  by (simp add: write_at_def)

lemma length_write_at: "off + length d \<le> length c \<Longrightarrow> length (write_at off d c) = length c"
  by (simp add: write_at_fit)

lemma piece_written:
  assumes "fits c (m, off)" and "length d = meta_size m"
  shows "piece (write_at off d c) (m, off) = d"
  using assms by (simp add: fits_def piece_def write_at_fit)

lemma piece_kept:
  assumes "fits c (m, off)" and "length d = meta_size m" and "fits c q" and "snd q + meta_size (fst q) \<le> off \<or> off + meta_size m \<le> snd q"
  shows "piece (write_at off d c) q = piece c q"
proof -
  let ?n = "meta_size (fst q)" and ?o = "snd q"
  have len: "length (write_at off d c) = length c" using assms(1,2) by (intro length_write_at) (simp add: fits_def)
  have "write_at off d c ! (?o + k) = c ! (?o + k)" if "k < ?n" for k
    using that assms by (auto simp: write_at_fit fits_def nth_append min_def)
  then show ?thesis
    using assms(3) len by (intro nth_equalityI) (auto simp: piece_def fits_def)
qed


section \<open>A download that returns true\<close>

abbreviation place_of :: "fetch \<Rightarrow> DownloadChunkMeta \<times> nat" where
  "place_of f \<equiv> (fetch_chunk f, fetch_offset f)"

text \<open>The state of a run: the machine is at rest and the file has its full size.\<close>

definition full_file :: "string \<Rightarrow> nat \<Rightarrow> 'w client \<Rightarrow> bool" where
  "full_file p n s \<longleftrightarrow> quiet s \<and> (\<exists>c. content_at s p = Some c \<and> length c = n)"

definition good_places :: "ICryptoEngine \<Rightarrow> string \<Rightarrow> 'w client \<Rightarrow> (DownloadChunkMeta \<times> nat) set" where
  "good_places crypto p s = {pl. place_ok crypto (bytes_of s p) pl}"

lemma bytes_of_Some: "content_at s p = Some c \<Longrightarrow> bytes_of s p = c"
  by (auto simp: content_at_def bytes_of_def)

lemma file_untouched:
  "local_files s' = local_files s \<Longrightarrow> os_answer s' = os_answer s \<Longrightarrow> moment s \<le> moment s' \<Longrightarrow>
     (full_file p n s \<longrightarrow> full_file p n s') \<and> good_places crypto p s' = good_places crypto p s"
  by (auto simp: full_file_def good_places_def bytes_of_def content_at_def quiet_def)

lemma fetch_run:
  assumes "run_fetch net crypto p f False s = (Inr failed, s')"
    and "full_file p (sum_list (map meta_size cs)) s" and "place_of f \<in> set (places 0 cs)"
  shows "\<not> failed \<and> full_file p (sum_list (map meta_size cs)) s' \<and> os_answer s' = os_answer s \<and> moment s \<le> moment s' \<and>
    insert (place_of f) (good_places crypto p s \<inter> set (places 0 cs)) \<subseteq> good_places crypto p s'"
proof -
  let ?m = "fetch_chunk f" and ?o = "fetch_offset f"
  obtain d t where get: "DownloadChunkFromReplica net crypto (fetch_nodes f) (meta_hash ?m) (meta_size ?m) s = (Inr d, t)"
      and put: "shared_write p ?o d False t = (Inr failed, s')"
    using assms(1) by (auto simp: run_fetch_def andthen_eq_Inr)
  have d: "length d = meta_size ?m" "ComputeHash crypto d = Inr (meta_hash ?m)" and t: "local_files t = local_files s" "os_answer t = os_answer s" "moment t = moment s"
    using replica_result [OF get] by simp_all
  have full: "full_file p (sum_list (map meta_size cs)) t" "good_places crypto p t = good_places crypto p s"
    using file_untouched [of t s p "sum_list (map meta_size cs)" crypto] t assms(2) by simp_all
  then obtain c where c: "quiet t" "content_at t p = Some c" "length c = sum_list (map meta_size cs)" by (auto simp: full_file_def)
  have eq: "failed = False" "s' = set_file p (write_at ?o d c) (passed t)"
    using put c(1) bytes_of_Some [OF c(2)] by (simp_all add: shared_write_def andthen_Inr quiet_call bytes_of_def)
  have fit: "fits c pl" if "pl \<in> set (places 0 cs)" for pl using places_fit [OF that] c(3) by simp
  have len: "length (write_at ?o d c) = length c" using fit [OF assms(3)] d(1) by (intro length_write_at) (simp add: fits_def)
  have here: "content_at s' p = Some (write_at ?o d c)" using eq(2) by (simp add: quiet_simps)
  have "quiet s'" using eq(2) c(1) by (simp add: quiet_simps)
  moreover have "place_ok crypto (write_at ?o d c) (place_of f)"
    using piece_written [OF fit [OF assms(3)] d(1)] d(2) by (simp add: place_ok_def)
  moreover have "place_ok crypto (write_at ?o d c) q" if q: "q \<in> set (places 0 cs)" "place_ok crypto c q" for q
  proof (cases "q = place_of f")
    case False
    then have "snd q + meta_size (fst q) \<le> ?o \<or> ?o + meta_size ?m \<le> snd q"
      using places_compatible [OF q(1) assms(3)] by (auto simp: compatible_def)
    then show ?thesis using piece_kept [OF fit [OF assms(3)] d(1) fit [OF q(1)]] q(2) by (simp add: place_ok_def)
  qed (use \<open>place_ok crypto (write_at ?o d c) (place_of f)\<close> in simp)
  moreover have "good_places crypto p s = {pl. place_ok crypto c pl}" using full(2) bytes_of_Some [OF c(2)] by (simp add: good_places_def)
  ultimately show ?thesis
    using eq len c(3) here t bytes_of_Some [OF here] by (auto simp: full_file_def good_places_def)
qed

lemma fetches_run:
  "run_fetches net crypto p fs False s = (Inr (), s') \<Longrightarrow> full_file p (sum_list (map meta_size cs)) s \<Longrightarrow>
     place_of ` set fs \<subseteq> set (places 0 cs) \<Longrightarrow> A \<subseteq> good_places crypto p s \<Longrightarrow> A \<subseteq> set (places 0 cs) \<Longrightarrow>
     full_file p (sum_list (map meta_size cs)) s' \<and> os_answer s' = os_answer s \<and> moment s \<le> moment s' \<and> A \<union> place_of ` set fs \<subseteq> good_places crypto p s'"
proof (induction fs arbitrary: s A)
  case (Cons f fs)
  obtain failed t where t: "run_fetch net crypto p f False s = (Inr failed, t)" "run_fetches net crypto p fs failed t = (Inr (), s')"
    using Cons.prems(1) by (auto simp: andthen_eq_Inr)
  have step: "\<not> failed" "full_file p (sum_list (map meta_size cs)) t" "os_answer t = os_answer s" "moment s \<le> moment t"
      "insert (place_of f) A \<subseteq> good_places crypto p t"
    using fetch_run [OF t(1) Cons.prems(2)] Cons.prems(3-5) by auto
  have "run_fetches net crypto p fs False t = (Inr (), s')" using t(2) step(1) by simp
  from Cons.IH [OF this step(2) _ step(5)] show ?case using Cons.prems(3,5) step(3,4) by auto
qed (auto simp: ret_def)

lemma set_scheduled: "set (scheduled ks xs) = set xs"
proof -
  let ?order = "remdups (filter (\<lambda>k. k < length xs) ks)"
  have "set (?order @ filter (\<lambda>k. k \<notin> set ?order) [0..<length xs]) = {..<length xs}" by auto
  then have "set (scheduled ks xs) = (!) xs ` {..<length xs}"
    unfolding scheduled_def Let_def set_map by (rule arg_cong)
  then show ?thesis by (auto simp: in_set_conv_nth)
qed

lemma load_state_quiet: "quiet s \<Longrightarrow> load_state s = (Inr (transfer_state (os_answer s) (moment s)), passed s)"
  by (simp add: load_state_def andthen_get andthen_Inr quiet_call ret_def)

text \<open>What is verified is in place.\<close>

lemma verify_run:
  "full_file p n s \<Longrightarrow> off + sum_list (map meta_size cs) \<le> n \<Longrightarrow> verify_chunks crypto p off False cs s = (Inr (bits, failed), s') \<Longrightarrow>
     \<not> failed \<and> length bits = length cs \<and> full_file p n s' \<and> os_answer s' = os_answer s \<and> moment s \<le> moment s' \<and>
     good_places crypto p s' = good_places crypto p s \<and>
     (\<forall>i<length cs. bits ! i \<longrightarrow> places off cs ! i \<in> good_places crypto p s)"
proof (induction cs arbitrary: off s bits)
  case (Cons c cs)
  obtain b where b: "quiet s" "content_at s p = Some b" "length b = n" using Cons.prems(1) by (auto simp: full_file_def)
  have moved: "full_file p n (s\<lparr>moment := k\<rparr>) \<and> good_places crypto p (s\<lparr>moment := k\<rparr>) = good_places crypto p s" if "moment s \<le> k" for k
    using file_untouched [of "s\<lparr>moment := k\<rparr>" s p n crypto] that Cons.prems(1) by simp
  show ?case
  proof (cases "transfer_state (os_answer s) (moment s) = RUNNING")
    case False
    then have "bits = replicate (length (c # cs)) False \<and> \<not> failed \<and> s' = passed s"
      using Cons.prems(3) b(1) by (simp add: andthen_Inr load_state_quiet ret_def)
    then show ?thesis using moved [of "Suc (moment s)"] nth_replicate [of _ "length (c # cs)" False] by (simp del: replicate.simps)
  next
    case True
    let ?t = "passed (passed s)" and ?d = "piece b (c, off)"
    have q: "quiet (passed s)" using b(1) by (simp add: quiet_simps)
    have len: "length ?d = meta_size c" using Cons.prems(2) b(3) by (simp add: piece_def)
    have bytes: "bytes_of s p = b" "bytes_of ?t p = b" using bytes_of_Some [OF b(2)] by (simp_all add: bytes_of_def)
    have rd: "shared_read p off (meta_size c) False (passed s) = (Inr (?d, False), ?t)"
      using q len bytes(2) by (simp add: shared_read_def andthen_Inr quiet_call get_def Let_def piece_def)
    obtain h bs where h: "ComputeHash crypto ?d = Inr h" and rest: "verify_chunks crypto p (off + meta_size c) False cs ?t = (Inr (bs, failed), s')"
        and bits: "bits = (h = meta_hash c) # bs"
      using Cons.prems(3) b(1) True rd by (auto simp: andthen_Inr load_state_quiet andthen_eq_Inr of_outcome_def ret_def)
    have full: "full_file p n ?t" "good_places crypto p ?t = good_places crypto p s" using moved [of "Suc (Suc (moment s))"] by simp_all
    have IH: "\<not> failed \<and> length bs = length cs \<and> full_file p n s' \<and> os_answer s' = os_answer ?t \<and> moment ?t \<le> moment s' \<and>
        good_places crypto p s' = good_places crypto p s \<and> (\<forall>i<length cs. bs ! i \<longrightarrow> places (off + meta_size c) cs ! i \<in> good_places crypto p s)"
      using Cons.IH [OF full(1) _ rest] Cons.prems(2) full(2) by simp
    moreover have "h = meta_hash c \<longrightarrow> (c, off) \<in> good_places crypto p s" using h bytes(1) by (simp add: good_places_def place_ok_def)
    ultimately show ?thesis by (auto simp: bits nth_Cons split: nat.split)
  qed
qed (auto simp: ret_def)

text \<open>What is not in place yet is planned, unless the transfer stopped.\<close>

lemma plan_run:
  "plan_fetches routes off (zip cs bits) s = (Inr fs, s') \<Longrightarrow> full_file p n s \<Longrightarrow> length bits = length cs \<Longrightarrow> stop_is_final s \<Longrightarrow>
     (\<And>i. i < length cs \<Longrightarrow> bits ! i \<Longrightarrow> places off cs ! i \<in> G) \<Longrightarrow>
     full_file p n s' \<and> os_answer s' = os_answer s \<and> moment s \<le> moment s' \<and> good_places crypto p s' = good_places crypto p s \<and>
     place_of ` set fs \<subseteq> set (places off cs) \<and>
     ((\<exists>k\<ge>moment s'. transfer_state (os_answer s) k = RUNNING) \<longrightarrow> set (places off cs) \<subseteq> G \<union> place_of ` set fs)"
proof (induction cs arbitrary: off s bits fs)
  case (Cons c cs)
  obtain bit bs where bits: "bits = bit # bs" "length bs = length cs" using Cons.prems(3) by (cases bits) auto
  let ?t = "passed s"
  have q: "quiet s" using Cons.prems(2) by (simp add: full_file_def)
  have t: "full_file p n ?t" "good_places crypto p ?t = good_places crypto p s" "stop_is_final ?t"
    using file_untouched [of ?t s p n crypto] Cons.prems(2,4) by (simp_all add: stop_is_final_def)
  have rest: "i < length cs \<Longrightarrow> bs ! i \<Longrightarrow> places (off + meta_size c) cs ! i \<in> G" for i
    using Cons.prems(5) [of "Suc i"] bits by simp
  have head: "bit \<Longrightarrow> (c, off) \<in> G" using Cons.prems(5) [of 0] bits by simp
  have IH: "full_file p n s' \<and> os_answer s' = os_answer s \<and> moment s \<le> moment s' \<and> good_places crypto p s' = good_places crypto p s \<and>
      place_of ` set gs \<subseteq> set (places (off + meta_size c) cs) \<and>
      ((\<exists>k\<ge>moment s'. transfer_state (os_answer s) k = RUNNING) \<longrightarrow> set (places (off + meta_size c) cs) \<subseteq> G \<union> place_of ` set gs)"
    if "plan_fetches routes (off + meta_size c) (zip cs bs) ?t = (Inr gs, s')" for gs
    using Cons.IH [OF that t(1) bits(2) t(3) rest] t(2) by simp
  show ?case
  proof (cases "transfer_state (os_answer s) (moment s) = RUNNING")
    case False
    then have "s' = ?t" "fs = []" using Cons.prems(1) q by (simp_all add: bits andthen_Inr load_state_quiet ret_def)
    moreover have "transfer_state (os_answer s) k \<noteq> RUNNING" if "moment s \<le> k" for k
      using Cons.prems(4) False that unfolding stop_is_final_def by blast
    ultimately show ?thesis using t by auto
  next
    case run: True
    show ?thesis
    proof (cases bit)
      case True
      then have "plan_fetches routes (off + meta_size c) (zip cs bs) ?t = (Inr fs, s')"
        using Cons.prems(1) q run by (simp add: bits andthen_Inr load_state_quiet)
      from IH [OF this] show ?thesis using head True by auto
    next
      case False
      then obtain replicas gs where "plan_fetches routes (off + meta_size c) (zip cs bs) ?t = (Inr gs, s')"
          and fs: "fs = \<lparr>fetch_chunk = c, fetch_nodes = replicas, fetch_offset = off\<rparr> # gs"
        using Cons.prems(1) q run by (auto simp: bits andthen_Inr load_state_quiet andthen_eq_Inr ret_def throw_def split: option.splits)
      from IH [OF this(1)] show ?thesis using fs by auto
    qed
  qed
qed (auto simp: ret_def)

lemma fetch_missing_run:
  assumes "fetch_missing net crypto cs ps p bits False s = (Inr True, s')" and "full_file p (sum_list (map meta_size cs)) s"
    and "length bits = length cs" and "stop_is_final s"
    and bits: "\<And>i. i < length cs \<Longrightarrow> bits ! i \<Longrightarrow> places 0 cs ! i \<in> good_places crypto p s"
  shows "full_file p (sum_list (map meta_size cs)) s' \<and> set (places 0 cs) \<subseteq> good_places crypto p s' \<and> os_answer s' = os_answer s \<and> moment s \<le> moment s'"
proof -
  let ?n = "sum_list (map meta_size cs)"
  let ?G = "good_places crypto p s \<inter> set (places 0 cs)"
  obtain fs t u where plan: "plan_fetches (routing_map ps) 0 (zip cs bits) s = (Inr fs, t)"
      and run: "run_fetches net crypto p (scheduled (thread_schedule (os_answer t) (moment t)) fs) False t = (Inr (), u)"
      and last: "andthen load_state (\<lambda>st. ret (st = RUNNING)) u = (Inr True, s')"
    using assms(1) unfolding fetch_missing_def
    by (auto simp: andthen_eq_Inr with_pool_def get_def split: prod.splits sum.splits)
  have "places 0 cs ! i \<in> ?G" if "i < length cs" "bits ! i" for i
    using bits [OF that] that(1) nth_mem [of i "places 0 cs"] by simp
  then have planned: "full_file p ?n t" "os_answer t = os_answer s" "moment s \<le> moment t" "good_places crypto p t = good_places crypto p s"
      "place_of ` set fs \<subseteq> set (places 0 cs)"
      "(\<exists>k\<ge>moment t. transfer_state (os_answer s) k = RUNNING) \<longrightarrow> set (places 0 cs) \<subseteq> ?G \<union> place_of ` set fs"
    using plan_run [OF plan assms(2-4), of ?G] by simp_all
  have ran: "full_file p ?n u" "os_answer u = os_answer t" "moment t \<le> moment u" "?G \<union> place_of ` set fs \<subseteq> good_places crypto p u"
    using fetches_run [OF run planned(1), of ?G] planned(4,5) by (simp_all add: set_scheduled)
  have "quiet u" using ran(1) by (simp add: full_file_def)
  then have ended: "s' = passed u" "transfer_state (os_answer u) (moment u) = RUNNING"
    using last by (simp_all add: andthen_Inr load_state_quiet ret_def)
  have "\<exists>k\<ge>moment t. transfer_state (os_answer s) k = RUNNING"
    using ended(2) ran(2,3) planned(2) by (intro exI [of _ "moment u"]) simp
  then have "set (places 0 cs) \<subseteq> ?G \<union> place_of ` set fs" using planned(6) by (rule mp [rotated])
  also have "\<dots> \<subseteq> good_places crypto p u" by (rule ran(4))
  finally have "set (places 0 cs) \<subseteq> good_places crypto p u" .
  moreover have "full_file p ?n s' \<and> good_places crypto p s' = good_places crypto p u"
    using file_untouched [of s' u p ?n crypto] ended(1) ran(1) by simp
  ultimately show ?thesis using planned(2,3) ran(2,3) ended(1) by simp
qed

text \<open>A machine at rest opens the output in its full size.\<close>

lemma open_output_run:
  assumes "open_output cs p s = (Inr resume, s')" and "quiet s"
  shows "full_file p (sum_list (map meta_size cs)) s' \<and> os_answer s' = os_answer s \<and> moment s \<le> moment s'"
proof -
  let ?n = "sum_list (map meta_size cs)"
  have there: "fs_exists p s = (Inr (content_at s p \<noteq> None), passed s)"
    using assms(2) by (simp add: fs_exists_def andthen_Inr quiet_call get_def content_at_def)
  have sized: "fs_file_size p (passed s) = (Inr (map_option (int \<circ> length) (content_at s p)), passed (passed s))"
    using assms(2) by (simp add: fs_file_size_def andthen_Inr quiet_call quiet_simps get_def content_at_def option.map_comp comp_def)
  show ?thesis
  proof (cases "map_option (int \<circ> length) (content_at s p) = Some (int ?n)")
    case True
    then have "s' = passed (passed (passed s))"
      using assms there sized unfolding open_output_def
      by (auto simp: andthen_Inr quiet_simps Let_def ret_def throw_def split: option.splits if_splits)
    then show ?thesis using assms(2) True by (auto simp: full_file_def quiet_simps)
  next
    case False
    obtain k where "s' = passed (set_file p (replicate ?n (CHR 0x00)) (s\<lparr>moment := k\<rparr>))" "moment s \<le> k"
      using assms there sized False unfolding open_output_def
      by (cases "content_at s p") (auto simp: andthen_Inr quiet_simps Let_def ret_def throw_def allocate_def split: option.splits if_splits)
    then show ?thesis using assms(2) by (simp add: full_file_def quiet_simps)
  qed
qed

text \<open>The file of a download that returns true is the concatenation of the chunks.\<close>

lemma all_in_place:
  assumes "full_file p (sum_list (map meta_size cs)) s" and "set (places 0 cs) \<subseteq> good_places crypto p s"
  shows "\<exists>ds. content_at s p = Some (concat ds) \<and> list_all2 (\<lambda>d m. length d = meta_size m \<and> ComputeHash crypto d = Inr (meta_hash m)) ds cs"
proof -
  obtain c where c: "content_at s p = Some c" "length c = sum_list (map meta_size cs)" using assms(1) by (auto simp: full_file_def)
  let ?ds = "map (piece c) (places 0 cs)"
  have "concat ?ds = c" using concat_pieces [of c 0 cs] c(2) by simp
  moreover have "length (?ds ! i) = meta_size (cs ! i) \<and> ComputeHash crypto (?ds ! i) = Inr (meta_hash (cs ! i))" if "i < length cs" for i
  proof -
    have mem: "places 0 cs ! i \<in> set (places 0 cs)" using that by simp
    then have "place_ok crypto c (places 0 cs ! i)" using assms(2) bytes_of_Some [OF c(1)] by (auto simp: good_places_def)
    moreover have "fits c (places 0 cs ! i)" using places_fit [OF mem] c(2) by simp
    ultimately show ?thesis using that by (simp add: place_ok_def fits_def piece_def nth_places)
  qed
  ultimately show ?thesis using c(1) by (intro exI [of _ ?ds]) (simp add: list_all2_conv_all_nth)
qed

lemma download_content:
  assumes "quiet s" and "stop_is_final s"
    and "DownloadToFile net crypto cs ps p s = (Inr True, s')"
  shows "quiet s' \<and> (\<exists>ds. content_at s' p = Some (concat ds) \<and> list_all2 (\<lambda>d m. length d = meta_size m \<and> ComputeHash crypto d = Inr (meta_hash m)) ds cs)"
proof -
  let ?n = "sum_list (map meta_size cs)"
  obtain resume t bits failed u where opened: "open_output cs p s = (Inr resume, t)"
      and verified: "(if resume then verify_chunks crypto p 0 False cs else ret (replicate (length cs) False, False)) t = (Inr (bits, failed), u)"
      and fetched: "fetch_missing net crypto cs ps p bits failed u = (Inr True, s')"
    using assms(3) unfolding DownloadToFile_def by (auto simp: andthen_eq_Inr split: prod.splits)
  have t: "full_file p ?n t" "os_answer t = os_answer s" using open_output_run [OF opened assms(1)] by simp_all
  have u: "\<not> failed \<and> length bits = length cs \<and> full_file p ?n u \<and> os_answer u = os_answer t \<and> (\<forall>i<length cs. bits ! i \<longrightarrow> places 0 cs ! i \<in> good_places crypto p u)"
  proof (cases resume)
    case True
    then show ?thesis
      using verify_run [OF t(1), of 0 cs crypto bits failed u] verified by simp
  next
    case False
    then show ?thesis
      using t(1) verified by (auto simp: ret_def)
  qed
  have "stop_is_final u" using assms(2) t(2) u by (simp add: stop_is_final_def)
  with fetched u have full: "full_file p ?n s'" "set (places 0 cs) \<subseteq> good_places crypto p s'"
    using fetch_missing_run [of net crypto cs ps p bits u s'] by simp_all
  then have "quiet s'" by (simp add: full_file_def)
  then show ?thesis using all_in_place [OF full] by simp
qed

text \<open>C3: On a machine where no call on a file fails and no other program changes the files, a download that reports success has put
  the file together as planned: its content is the concatenation of pieces that have, in order, the sizes and the hashes of the
  chunks. This holds whatever the replicas answered, in whatever order the pool ran its tasks, and also when a file of that size
  was already there. A transfer once stopped stays stopped. The condition on the machine is needed: the code does not
  look at the result of its writes, so that a full disk is reported as a completed download.\<close>

theorem download_sound:
  assumes "quiet s" and "stop_is_final s"
    and "DownloadToFile net crypto cs ps p s = (Inr True, s')"
  shows "\<exists>ds. content_at s' p = Some (concat ds) \<and> list_all2 (\<lambda>d m. length d = meta_size m \<and> ComputeHash crypto d = Inr (meta_hash m)) ds cs"
  by (rule conjunct2 [OF download_content [OF assms]])

text \<open>Two workers, of which one has lost a byte of its chunk; the file that is there has its second chunk wrong.\<close>

definition two_workers :: "unit network" where
  "two_workers url m target headers body w =
     (Some \<lparr>res_status = 200, res_body = (if url = ''a:1'' then ''de'' else if target = ''/chunk?hash=#abc'' then ''abc'' else ''def''), res_type = []\<rparr>, w)"

definition both_nodes :: "NodeInfo list" where
  "both_nodes = [\<lparr>advertised_host = ''a'', advertised_port = 1\<rparr>, \<lparr>advertised_host = ''b'', advertised_port = 1\<rparr>]"

definition partial_disk :: "unit client" where
  "partial_disk = sample_disk\<lparr>local_files := [''/d/f'' \<mapsto> \<lparr>contents = ''abcxef'', write_time = 3\<rparr>]\<rparr>"

lemma download_sound_witness:
  "\<exists>s'. DownloadToFile two_workers sample_crypto [\<lparr>meta_hash = ''#abc'', meta_size = 3\<rparr>, \<lparr>meta_hash = ''#def'', meta_size = 3\<rparr>]
       [\<lparr>plan_hash = ''#abc'', assigned_nodes = both_nodes\<rparr>, \<lparr>plan_hash = ''#def'', assigned_nodes = both_nodes\<rparr>] ''/d/f'' partial_disk = (Inr True, s') \<and>
     content_at s' ''/d/f'' = Some ''abcdef''"
proof -
  let ?run = "DownloadToFile two_workers sample_crypto [\<lparr>meta_hash = ''#abc'', meta_size = 3\<rparr>, \<lparr>meta_hash = ''#def'', meta_size = 3\<rparr>]
       [\<lparr>plan_hash = ''#abc'', assigned_nodes = both_nodes\<rparr>, \<lparr>plan_hash = ''#def'', assigned_nodes = both_nodes\<rparr>] ''/d/f'' partial_disk"
  have "fst ?run = Inr True" by code_simp
  then obtain s' where run: "?run = (Inr True, s')" by (metis prod.collapse)
  have "quiet partial_disk" "stop_is_final partial_disk"
    by (simp_all add: quiet_def stop_is_final_def partial_disk_def sample_disk_def)
  from download_sound [OF this run] obtain ds where ds: "content_at s' ''/d/f'' = Some (concat ds)"
    "list_all2 (\<lambda>d m. length d = meta_size m \<and> ComputeHash sample_crypto d = Inr (meta_hash m)) ds
       [\<lparr>meta_hash = ''#abc'', meta_size = 3\<rparr>, \<lparr>meta_hash = ''#def'', meta_size = 3\<rparr>]" by blast
  then have "ds = [''abc'', ''def'']" by (auto simp: list_all2_Cons2 sample_crypto_def)
  then show ?thesis using run ds(1) by simp
qed

end
