(* ===== verification/Url_Transport.thy ===== *)
theory Url_Transport
  imports Http Json_Text "HOL-Library.List_Lexorder" "HOL-Library.Char_ord"
begin

text \<open>
  How \<^verbatim>\<open>common/httplib.h\<close> carries a request from a client to a handler: the target that the
  client normalizes and writes into the request line, the request line that the server takes apart,
  and the parameters it finds in the query.
\<close>

section \<open>Percent encoding\<close>

definition from_hex_to_i :: "nat \<Rightarrow> string \<Rightarrow> nat option" where
  "from_hex_to_i cnt s =
     (if cnt \<le> length s \<and> list_all (is_digit 16) (take cnt s) then Some (nat (digits_value 16 (take cnt s))) else None)"

definition upper_hex :: "nat \<Rightarrow> char" where
  "upper_hex d = char_of (if d < 10 then 48 + d else 55 + d)"

definition percent :: "char \<Rightarrow> string" where
  "percent c = [CHR ''%'', upper_hex (code c div 16), upper_hex (code c mod 16)]"

definition is_alnum :: "char \<Rightarrow> bool" where
  "is_alnum c \<longleftrightarrow> 48 \<le> code c \<and> code c \<le> 57 \<or> 65 \<le> code c \<and> code c \<le> 90 \<or> 97 \<le> code c \<and> code c \<le> 122"

text \<open>The characters that \<^verbatim>\<open>encode_query_component\<close> leaves alone: the unreserved ones, the
  sub-delimiters but for the ampersand, the plus and the equals sign, and colon, at, slash, question mark.\<close>

definition query_safe :: string where
  "query_safe = ''-._~!$()*,;:@/?'' @ [CHR 39]"

definition encode_query_char :: "char \<Rightarrow> string" where
  "encode_query_char c =
     (if is_alnum c \<or> c \<in> set query_safe then [c]
      else if c = CHR '' '' then ''+''
      else percent c)"

definition encode_query_component :: "string \<Rightarrow> string" where
  "encode_query_component s = concat (map encode_query_char s)"

fun decode_query_component :: "string \<Rightarrow> string" where
  "decode_query_component [] = []"
| "decode_query_component (c # s) =
     (if c = CHR ''%'' \<and> 2 \<le> length s then
        (case from_hex_to_i 2 s of
           Some v \<Rightarrow> char_of v # decode_query_component (drop 2 s)
         | None \<Rightarrow> c # decode_query_component s)
      else (if c = CHR ''+'' then CHR '' '' else c) # decode_query_component s)"

text \<open>The path of a target; the text ends at a null character.\<close>

definition encode_path_char :: "char \<Rightarrow> string" where
  "encode_path_char c =
     (if c \<in> set ('' +,;'' @ [CHR 13, CHR 10, CHR 39]) \<or> 128 \<le> code c then percent c else [c])"

definition encode_path :: "string \<Rightarrow> string" where
  "encode_path s = concat (map encode_path_char (takeWhile (\<lambda>c. code c \<noteq> 0) s))"

definition to_utf8 :: "nat \<Rightarrow> string" where
  "to_utf8 cp = (if 55296 \<le> cp \<and> cp < 57344 then [] else utf8_of cp)"

fun decode_path_component :: "string \<Rightarrow> string" where
  "decode_path_component [] = []"
| "decode_path_component (c # s) =
     (if c = CHR ''%'' \<and> s \<noteq> [] then
        (if hd s = CHR ''u'' then
           (case from_hex_to_i 4 (tl s) of
              Some v \<Rightarrow> to_utf8 v @ decode_path_component (drop 5 s)
            | None \<Rightarrow> c # decode_path_component s)
         else (case from_hex_to_i 2 s of
                 Some v \<Rightarrow> char_of v # decode_path_component (drop 2 s)
               | None \<Rightarrow> c # decode_path_component s))
      else c # decode_path_component s)"

section \<open>Pieces of a text\<close>

definition is_space_or_tab :: "char \<Rightarrow> bool" where
  "is_space_or_tab c \<longleftrightarrow> c = CHR '' '' \<or> c = CHR 9"

definition rtrim :: "string \<Rightarrow> string" where
  "rtrim s = rev (dropWhile is_space_or_tab (rev s))"

definition trim :: "string \<Rightarrow> string" where
  "trim s = rtrim (dropWhile is_space_or_tab s)"

function pieces :: "char \<Rightarrow> string \<Rightarrow> string list" where
  "pieces d s =
     (if d \<in> set s then takeWhile (\<lambda>c. c \<noteq> d) s # pieces d (tl (dropWhile (\<lambda>c. c \<noteq> d) s)) else [s])"
  by pat_completeness auto
termination
proof (relation "measure (\<lambda>(d, s). length s)")
  fix d :: char and s
  assume "d \<in> set s"
  then have "dropWhile (\<lambda>c. c \<noteq> d) s \<noteq> []" by auto
  then have "length (tl (dropWhile (\<lambda>c. c \<noteq> d) s)) < length (dropWhile (\<lambda>c. c \<noteq> d) s)" by simp
  also have "\<dots> \<le> length s" by (rule length_dropWhile_le)
  finally show "((d, tl (dropWhile (\<lambda>c. c \<noteq> d) s)), d, s) \<in> measure (\<lambda>(d, s). length s)" by simp
qed simp

declare pieces.simps [simp del]

text \<open>\<^verbatim>\<open>split\<close>: the trimmed pieces that are not empty; \<^verbatim>\<open>divide\<close>: what is before and after
  the first occurrence.\<close>

definition split_trimmed :: "char \<Rightarrow> string \<Rightarrow> string list" where
  "split_trimmed d s = filter (\<lambda>p. p \<noteq> []) (map trim (pieces d s))"

definition divide_at :: "char \<Rightarrow> string \<Rightarrow> string \<times> string" where
  "divide_at d s = (takeWhile (\<lambda>c. c \<noteq> d) s, tl (dropWhile (\<lambda>c. c \<noteq> d) s))"

section \<open>Queries\<close>

text \<open>The parameters are a multimap: in the order of their keys, equal keys in the order they came.\<close>

fun multimap_emplace :: "string \<Rightarrow> string \<Rightarrow> (string \<times> string) list \<Rightarrow> (string \<times> string) list" where
  "multimap_emplace k v [] = [(k, v)]"
| "multimap_emplace k v ((k', v') # m) =
     (if k < k' then (k, v) # (k', v') # m else (k', v') # multimap_emplace k v m)"

fun parse_pieces :: "string list \<Rightarrow> string set \<Rightarrow> (string \<times> string) list \<Rightarrow> (string \<times> string) list" where
  "parse_pieces [] cache params = params"
| "parse_pieces (kv # kvs) cache params =
     (if kv \<in> cache then parse_pieces kvs cache params
      else let (key, val) = divide_at (CHR ''='') kv
        in parse_pieces kvs (insert kv cache)
             (if key = [] then params
              else multimap_emplace (decode_query_component key) (decode_query_component val) params))"

definition parse_query_text :: "string \<Rightarrow> (string \<times> string) list" where
  "parse_query_text s = parse_pieces (split_trimmed (CHR ''&'') s) {} []"

fun normalize_pieces :: "string list \<Rightarrow> string \<Rightarrow> string" where
  "normalize_pieces [] result = result"
| "normalize_pieces (kv # kvs) result =
     (let (key, val) = divide_at (CHR ''='') kv
      in normalize_pieces kvs
           (if key = [] then result
            else (if result = [] then [] else result @ ''&'') @
                 encode_query_component (decode_query_component key) @
                 (if val \<noteq> [] \<or> CHR ''='' \<in> set kv
                  then ''='' @ encode_query_component (decode_query_component val) else [])))"

definition normalize_query_string :: "string \<Rightarrow> string" where
  "normalize_query_string s = normalize_pieces (split_trimmed (CHR ''&'') s) []"

section \<open>The request line\<close>

text \<open>The client splits its target at the first question mark, encodes the path and normalizes the query.\<close>

definition sent_target :: "string \<Rightarrow> string" where
  "sent_target t =
     (let (path_part, query_part) = divide_at (CHR ''?'') t;
          normalized = normalize_query_string query_part
      in encode_path path_part @ (if query_part \<noteq> [] \<and> normalized \<noteq> [] then ''?'' @ normalized else []))"

definition write_request_line :: "string \<Rightarrow> string \<Rightarrow> string" where
  "write_request_line m target = m @ '' '' @ target @ '' HTTP/1.1'' @ [CHR 13, CHR 10]"

definition parse_target :: "string \<Rightarrow> string \<times> (string \<times> string) list" where
  "parse_target target =
     (let (lhs, rhs) = divide_at (CHR ''?'') target in (decode_path_component lhs, parse_query_text rhs))"

definition parse_request_line :: "string \<Rightarrow> (string \<times> string) option" where
  "parse_request_line s =
     (let line = takeWhile (\<lambda>c. code c \<noteq> 0) s; len = length line
      in if len < 2 \<or> drop (len - 2) line \<noteq> [CHR 13, CHR 10] then None
         else case split_trimmed (CHR '' '') (take (len - 2) line) of
             [m, target, version] \<Rightarrow>
               if m \<notin> {''GET'', ''HEAD'', ''POST'', ''PUT'', ''DELETE'', ''CONNECT'', ''OPTIONS'', ''TRACE'', ''PATCH'', ''PRI''}
               then None
               else if version \<noteq> ''HTTP/1.1'' \<and> version \<noteq> ''HTTP/1.0'' then None
               else Some (m, takeWhile (\<lambda>c. c \<noteq> CHR ''#'') target)
           | _ \<Rightarrow> None)"

section \<open>An exchange\<close>

definition is_token_char :: "char \<Rightarrow> bool" where
  "is_token_char c \<longleftrightarrow> is_alnum c \<or> c \<in> set (''!#$%&*+-.^_|~'' @ [CHR 39, CHR 96])"

definition is_field_name :: "string \<Rightarrow> bool" where
  "is_field_name s \<longleftrightarrow> s \<noteq> [] \<and> list_all is_token_char s"

definition is_field_vchar :: "char \<Rightarrow> bool" where
  "is_field_vchar c \<longleftrightarrow> 33 \<le> code c \<and> code c \<le> 126 \<or> 128 \<le> code c"

definition is_field_value :: "string \<Rightarrow> bool" where
  "is_field_value s \<longleftrightarrow>
     s = [] \<or> is_field_vchar (hd s) \<and> is_field_vchar (last s) \<and>
       list_all (\<lambda>c. is_space_or_tab c \<or> is_field_vchar c) s"

definition max_line :: int where
  "max_line = 32768"

definition max_uri :: int where
  "max_uri = 8192"

text \<open>
  A request that the network delivers. The headers are those the caller gives; the ones the library
  adds are of no concern to the handlers. A header the library refuses to send, and a line longer
  than the server reads, leave the client without a response.
\<close>

definition exchange ::
    "(Request \<Rightarrow> 's \<Rightarrow> Response option \<times> 's) \<Rightarrow> string \<Rightarrow> string \<Rightarrow> (string \<times> string) list \<Rightarrow> string \<Rightarrow> 's \<Rightarrow> Response option \<times> 's" where
  "exchange server m target headers body s =
     (let line = write_request_line m (sent_target target)
      in if \<not> list_all (\<lambda>(k, v). is_field_name k \<and> is_field_value v) headers \<or> max_line < int (length line) then (None, s)
         else case parse_request_line line of
             None \<Rightarrow> (Some (with_status 400), s)
           | Some (m', t) \<Rightarrow>
               if max_uri < int (length t) then (Some (with_status 414), s)
               else server \<lparr>req_method = m', req_path = fst (parse_target t), req_params = snd (parse_target t),
                       req_headers = headers, req_body = body\<rparr> s)"


section \<open>Decoding what was encoded\<close>

lemma upper_hex_digit: "d < 16 \<Longrightarrow> digit_of (upper_hex d) = Some d"
  by (auto simp: digit_of_def upper_hex_def code_def)

lemma from_hex_percent: "from_hex_to_i 2 (tl (percent c) @ t) = Some (code c)"
proof -
  have "code c div 16 < 16" "code c mod 16 < 16" using code_less [of c] by simp_all
  moreover have "code c div 16 * 16 + code c mod 16 = code c" by simp
  ultimately show ?thesis
    by (simp add: from_hex_to_i_def percent_def is_digit_def upper_hex_digit digits_value_def numeral_2_eq_2 nat_add_distrib
        nat_mult_distrib)
qed

lemma decode_encoded_char: "decode_query_component (encode_query_char c @ t) = c # decode_query_component t"
proof (cases "is_alnum c \<or> c \<in> set query_safe")
  case True
  then have "c \<noteq> CHR ''%''" "c \<noteq> CHR ''+''" by (auto simp: query_safe_def is_alnum_def code_def)
  then show ?thesis using True by (simp add: encode_query_char_def)
next
  case False
  have "char_of (code c) = c" by (simp add: code_def)
  then show ?thesis using False from_hex_percent [of c t] by (simp add: encode_query_char_def percent_def)
qed

lemma decode_encode_query: "decode_query_component (encode_query_component s) = s"
  by (induction s) (simp_all add: encode_query_component_def decode_encoded_char)

lemma decode_length: "length (decode_query_component s) \<le> length s"
proof (induction s rule: decode_query_component.induct)
  case (2 c s)
  then show ?case by (auto split: option.splits)
qed simp

lemma decode_Nil: "decode_query_component s = [] \<longleftrightarrow> s = []"
  by (cases s) (auto split: option.splits)

text \<open>The characters of a query on the wire.\<close>

definition wire_char :: "char \<Rightarrow> bool" where
  "wire_char c \<longleftrightarrow> is_alnum c \<or> c \<in> set (query_safe @ ''+%'')"

lemma wire_char_not:
  "wire_char c \<Longrightarrow> c \<notin> {CHR '' '', CHR 9, CHR ''&'', CHR ''='', CHR ''#''} \<and> code c \<noteq> 0"
  by (auto simp: wire_char_def is_alnum_def query_safe_def code_def)

lemma upper_hex_wire: "d < 16 \<Longrightarrow> wire_char (upper_hex d)"
  by (auto simp: wire_char_def is_alnum_def upper_hex_def code_def)

lemma encode_char_wire: "list_all wire_char (encode_query_char c)"
proof -
  have "code c div 16 < 16" "code c mod 16 < 16" using code_less [of c] by simp_all
  then have "list_all wire_char (percent c)" by (simp add: percent_def upper_hex_wire) (simp add: wire_char_def)
  moreover have "list_all wire_char ''+''" by (simp add: wire_char_def)
  ultimately show ?thesis by (auto simp: encode_query_char_def) (auto simp: wire_char_def)
qed

lemma encode_query_wire: "list_all wire_char (encode_query_component s)"
  by (induction s) (simp_all add: encode_query_component_def encode_char_wire)

section \<open>Pieces\<close>

lemma pieces_single: "d \<notin> set s \<Longrightarrow> pieces d s = [s]"
  by (subst pieces.simps) simp

lemma pieces_step: "d \<notin> set a \<Longrightarrow> pieces d (a @ d # b) = a # pieces d b"
proof -
  assume d: "d \<notin> set a"
  then have "takeWhile (\<lambda>c. c \<noteq> d) (a @ d # b) = a" "dropWhile (\<lambda>c. c \<noteq> d) (a @ d # b) = d # b"
    by (induction a) auto
  then show ?thesis by (subst pieces.simps) simp
qed

lemma pieces_first: "pieces d s = takeWhile (\<lambda>c. c \<noteq> d) s # tl (pieces d s)"
proof (cases "d \<in> set s")
  case False
  then have "takeWhile (\<lambda>c. c \<noteq> d) s = s" by (intro iffD2 [OF takeWhile_eq_all_conv]) auto
  then show ?thesis by (simp only: pieces_single [OF False] list.sel)
qed (subst (1 2) pieces.simps, simp)

lemma rtrim_snoc: "\<not> is_space_or_tab c \<Longrightarrow> rtrim (s @ [c]) = s @ [c]"
  by (simp add: rtrim_def)

lemma rtrim_append: "\<exists>c\<in>set b. \<not> is_space_or_tab c \<Longrightarrow> rtrim (a @ b) = a @ rtrim b"
  by (auto simp: rtrim_def dropWhile_append1)

lemma rtrim_blank: "\<forall>c\<in>set b. is_space_or_tab c \<Longrightarrow> rtrim b = []"
  by (simp add: rtrim_def)

lemma rtrim_after: "a \<noteq> [] \<Longrightarrow> \<not> is_space_or_tab (last a) \<Longrightarrow> rtrim (a @ b) = a @ rtrim b"
proof (cases "\<forall>c\<in>set b. is_space_or_tab c")
  case True
  assume a: "a \<noteq> []" "\<not> is_space_or_tab (last a)"
  have "dropWhile is_space_or_tab (rev b @ rev a) = dropWhile is_space_or_tab (rev a)"
    using True by (subst dropWhile_append) simp_all
  also have "\<dots> = rev a" using a by (simp add: dropWhile_head hd_rev)
  finally show ?thesis using rtrim_blank [OF True] by (simp add: rtrim_def)
next
  case False
  then show ?thesis by (simp add: rtrim_append)
qed

lemma rtrim_plain: "list_all (\<lambda>c. \<not> is_space_or_tab c) s \<Longrightarrow> rtrim s = s"
proof (cases "s = []")
  case False
  assume "list_all (\<lambda>c. \<not> is_space_or_tab c) s"
  then have "\<not> is_space_or_tab (hd (rev s))" using False last_in_set [of s] by (simp add: list_all_iff hd_rev)
  then show ?thesis using dropWhile_head [of "rev s" is_space_or_tab] False by (simp add: rtrim_def)
qed (simp add: rtrim_def)

lemma trim_plain: "list_all (\<lambda>c. \<not> is_space_or_tab c) s \<Longrightarrow> trim s = s"
proof (cases "s = []")
  case False
  assume plain: "list_all (\<lambda>c. \<not> is_space_or_tab c) s"
  then have "dropWhile is_space_or_tab s = s" using False by (intro dropWhile_head) (auto simp: list_all_iff)
  then show ?thesis using rtrim_plain [OF plain] by (simp add: trim_def)
qed (simp add: trim_def rtrim_def)

lemma divide_at_step: "d \<notin> set a \<Longrightarrow> divide_at d (a @ d # b) = (a, b)"
  by (induction a) (auto simp: divide_at_def)

lemma rtrim_length: "length (rtrim s) \<le> length s"
  using length_dropWhile_le [of is_space_or_tab "rev s"] by (simp add: rtrim_def)

section \<open>One parameter\<close>

definition plain_key :: "string \<Rightarrow> bool" where
  "plain_key k \<longleftrightarrow> k \<noteq> [] \<and> list_all is_alnum k"

lemma alnum_not: "is_alnum c \<Longrightarrow> c \<notin> {CHR '' '', CHR 9, CHR ''&'', CHR ''='', CHR ''+'', CHR ''%'', CHR ''#'', CHR ''?''} \<and> code c \<noteq> 0"
  by (auto simp: is_alnum_def code_def)

lemma alnum_encoded: "list_all is_alnum k \<Longrightarrow> encode_query_component k = k"
  by (induction k) (simp_all add: encode_query_component_def encode_query_char_def)

lemma alnum_decoded: "list_all is_alnum k \<Longrightarrow> decode_query_component k = k"
  using decode_encode_query [of k] by (simp add: alnum_encoded)

text \<open>The first piece of \<open>k=v\<close>: the value up to an ampersand, without trailing blanks.\<close>

definition first_value :: "string \<Rightarrow> string" where
  "first_value v = rtrim (takeWhile (\<lambda>c. c \<noteq> CHR ''&'') v)"

lemma takeWhile_plain_prefix: "list_all P a \<Longrightarrow> takeWhile P (a @ b) = a @ takeWhile P b"
  by (induction a) auto

lemma split_first:
  assumes "plain_key k"
  shows "\<exists>kvs. split_trimmed (CHR ''&'') (k @ ''='' @ v) = (k @ ''='' @ first_value v) # kvs"
proof -
  have k: "list_all (\<lambda>c. c \<noteq> CHR ''&'') (k @ ''='')" "hd (k @ ''='' @ b) = hd k" "\<not> is_space_or_tab (hd k)" for b
    using assms alnum_not by (auto simp: plain_key_def list_all_iff is_space_or_tab_def dest: hd_in_set)
  have "takeWhile (\<lambda>c. c \<noteq> CHR ''&'') (k @ ''='' @ v) = k @ ''='' @ takeWhile (\<lambda>c. c \<noteq> CHR ''&'') v" (is "_ = k @ ''='' @ ?w")
    using takeWhile_plain_prefix [OF k(1), of v] by simp
  moreover have "trim (k @ ''='' @ ?w) = k @ ''='' @ rtrim ?w"
    using dropWhile_head [of "k @ ''='' @ ?w" is_space_or_tab] k(2,3) rtrim_after [of "k @ ''=''" ?w]
    by (simp add: trim_def is_space_or_tab_def)
  ultimately have "\<exists>ps. pieces (CHR ''&'') (k @ ''='' @ v) = (k @ ''='' @ ?w) # ps \<and> trim (k @ ''='' @ ?w) = k @ ''='' @ first_value v"
    using pieces_first [of "CHR ''&''" "k @ ''='' @ v"] by (simp only: first_value_def) blast
  then show ?thesis by (auto simp: split_trimmed_def)
qed

lemma divide_key: "plain_key k \<Longrightarrow> divide_at (CHR ''='') (k @ ''='' @ v) = (k, v)"
  using divide_at_step [of "CHR ''=''" k v] alnum_not by (auto simp: plain_key_def list_all_iff)

text \<open>What the client sends for \<open>k=v\<close> and perhaps more parameters.\<close>

definition query_char :: "char \<Rightarrow> bool" where
  "query_char c \<longleftrightarrow> wire_char c \<or> c = CHR ''&'' \<or> c = CHR ''=''"

lemma wire_query: "list_all wire_char s \<Longrightarrow> list_all query_char s"
  by (auto simp: list_all_iff query_char_def)

lemma normalize_more:
  "result \<noteq> [] \<Longrightarrow> \<exists>rest. normalize_pieces kvs result = result @ rest \<and> list_all query_char rest \<and> (rest = [] \<or> hd rest = CHR ''&'')"
proof (induction kvs arbitrary: result)
  case (Cons kv kvs)
  obtain key val where kv: "divide_at (CHR ''='') kv = (key, val)" by fastforce
  show ?case
  proof (cases "key = []")
    case True
    then show ?thesis using Cons kv by simp
  next
    case False
    let ?part = "''&'' @ encode_query_component (decode_query_component key) @
      (if val \<noteq> [] \<or> CHR ''='' \<in> set kv then ''='' @ encode_query_component (decode_query_component val) else [])"
    have step: "normalize_pieces (kv # kvs) result = normalize_pieces kvs (result @ ?part)"
      using kv False Cons.prems by simp
    have "list_all query_char ?part"
      using wire_query [OF encode_query_wire] by (auto simp: query_char_def)
    moreover obtain rest where "normalize_pieces kvs (result @ ?part) = (result @ ?part) @ rest" "list_all query_char rest"
      using Cons.IH [of "result @ ?part"] Cons.prems by blast
    ultimately show ?thesis unfolding step by (intro exI [of _ "?part @ rest"]) simp
  qed
qed simp

lemma normalize_first:
  assumes "plain_key k"
  shows "\<exists>rest. normalize_query_string (k @ ''='' @ v) =
      k @ ''='' @ encode_query_component (decode_query_component (first_value v)) @ rest \<and>
      list_all query_char rest \<and> (rest = [] \<or> hd rest = CHR ''&'')"
proof -
  obtain kvs where "split_trimmed (CHR ''&'') (k @ ''='' @ v) = (k @ ''='' @ first_value v) # kvs"
    using split_first [OF assms] by blast
  then have "normalize_query_string (k @ ''='' @ v) =
      normalize_pieces kvs (k @ ''='' @ encode_query_component (decode_query_component (first_value v)))"
    using assms divide_key [OF assms, of "first_value v"]
    by (simp add: normalize_query_string_def plain_key_def alnum_decoded alnum_encoded)
  then show ?thesis
    using normalize_more [of "k @ ''='' @ encode_query_component (decode_query_component (first_value v))" kvs] by auto
qed

lemma params_keys: "fst ` set (multimap_emplace key val m) = insert key (fst ` set m)"
proof (induction m)
  case (Cons p m)
  then show ?case by (cases p) (auto split: if_splits simp: insert_commute)
qed simp

lemma emplace_keys_subset: "set (map fst (multimap_emplace key val m)) = insert key (set (map fst m))"
  by (simp add: params_keys)

lemma sorted_multimap_emplace: "sorted_wrt (\<le>) (map fst m) \<Longrightarrow> sorted_wrt (\<le>) (map fst (multimap_emplace key val m))"
proof (induction m)
  case (Cons p m)
  obtain k' v' where p: "p = (k', v')" by (cases p)
  show ?case
  proof (cases "key < k'")
    case True
    then have "\<forall>x\<in>set (map fst m). key \<le> x" using Cons.prems p by (auto intro: order.trans [OF less_imp_le])
    then show ?thesis using True Cons.prems p by simp
  next
    case False
    then have "\<forall>x\<in>set (map fst (multimap_emplace key val m)). k' \<le> x"
      unfolding emplace_keys_subset using Cons.prems p by auto
    then show ?thesis using False Cons p by simp
  qed
qed simp

lemma find_emplace:
  "sorted_wrt (\<le>) (map fst m) \<Longrightarrow> List.find (\<lambda>(k', v). k' = k) m = Some p \<Longrightarrow>
     List.find (\<lambda>(k', v). k' = k) (multimap_emplace key val m) = Some p"
proof (induction m)
  case (Cons q m)
  have "k \<in> set (map fst (q # m))" using find_Some_in [OF Cons.prems(2)] by (auto simp: case_prod_unfold)
  then have "fst q \<le> k" using Cons.prems(1) by auto
  then show ?case using Cons by (auto split: if_splits)
qed simp

lemma find_parse:
  "sorted_wrt (\<le>) (map fst m) \<Longrightarrow> List.find (\<lambda>(k', v). k' = k) m = Some p \<Longrightarrow>
     List.find (\<lambda>(k', v). k' = k) (parse_pieces kvs cache m) = Some p"
  by (induction kvs arbitrary: cache m) (auto simp: find_emplace sorted_multimap_emplace split: prod.split)

lemma parse_first:
  assumes "plain_key k" and "list_all wire_char e" and "rest = [] \<or> hd rest = CHR ''&''"
  shows "List.find (\<lambda>(k', v). k' = k) (parse_query_text (k @ ''='' @ e @ rest)) = Some (k, decode_query_component e)"
proof -
  have "list_all (\<lambda>c. c \<noteq> CHR ''&'') e" using assms(2) wire_char_not by (auto simp: list_all_iff)
  from takeWhile_plain_prefix [OF this, of rest] have "takeWhile (\<lambda>c. c \<noteq> CHR ''&'') (e @ rest) = e"
    using assms(3) by (cases rest) auto
  moreover have "rtrim e = e"
    using assms(2) wire_char_not by (intro rtrim_plain) (auto simp: list_all_iff is_space_or_tab_def)
  ultimately have "first_value (e @ rest) = e" by (simp add: first_value_def)
  then obtain kvs where "split_trimmed (CHR ''&'') (k @ ''='' @ e @ rest) = (k @ ''='' @ e) # kvs"
    using split_first [OF assms(1), of "e @ rest"] by auto
  then have "parse_query_text (k @ ''='' @ e @ rest) = parse_pieces kvs {k @ ''='' @ e} [(k, decode_query_component e)]"
    using assms(1) divide_key [OF assms(1), of e] by (simp add: parse_query_text_def plain_key_def alnum_decoded)
  then show ?thesis by (simp add: find_parse)
qed

section \<open>One parameter over the wire\<close>

definition plain_path :: "string \<Rightarrow> bool" where
  "plain_path p \<longleftrightarrow> p \<noteq> [] \<and> list_all (\<lambda>c. is_alnum c \<or> c = CHR ''/'' \<or> c = CHR ''-'') p"

lemma path_char_not:
  "is_alnum c \<or> c = CHR ''/'' \<or> c = CHR ''-'' \<Longrightarrow>
     c \<notin> {CHR '' '', CHR 9, CHR ''?'', CHR ''#'', CHR ''%'', CHR ''+'', CHR '','', CHR '';'', CHR 13, CHR 10, CHR 39} \<and> code c \<noteq> 0 \<and> code c < 128"
  by (auto simp: is_alnum_def code_def)

lemma encode_plain_path: "plain_path p \<Longrightarrow> encode_path p = p"
proof -
  have char: "encode_path_char c = [c]" "code c \<noteq> 0" if "is_alnum c \<or> c = CHR ''/'' \<or> c = CHR ''-''" for c
    using path_char_not [OF that] by (auto simp: encode_path_char_def)
  assume "plain_path p"
  then have "list_all (\<lambda>c. encode_path_char c = [c] \<and> code c \<noteq> 0) p"
    using char by (auto simp: plain_path_def list_all_iff)
  moreover have "encode_path q = q" if "list_all (\<lambda>c. encode_path_char c = [c] \<and> code c \<noteq> 0) q" for q
    using that by (induction q) (simp_all add: encode_path_def)
  ultimately show ?thesis by blast
qed

lemma decode_plain_path: "plain_path p \<Longrightarrow> decode_path_component p = p"
proof -
  have "list_all (\<lambda>c. c \<noteq> CHR ''%'') q \<Longrightarrow> decode_path_component q = q" for q by (induction q) auto
  moreover assume "plain_path p"
  ultimately show ?thesis using path_char_not by (auto simp: plain_path_def list_all_iff)
qed

text \<open>Texts that a request line carries as they are.\<close>

definition line_char :: "char \<Rightarrow> bool" where
  "line_char c \<longleftrightarrow> \<not> is_space_or_tab c \<and> code c \<noteq> 0 \<and> c \<noteq> CHR ''#''"

lemma line_chars:
  "list_all query_char s \<Longrightarrow> list_all line_char s" "plain_path p \<Longrightarrow> list_all line_char p" "plain_key k \<Longrightarrow> list_all line_char k"
proof -
  have "query_char c \<Longrightarrow> line_char c" for c
    using wire_char_not [of c] by (auto simp: query_char_def line_char_def is_space_or_tab_def code_def)
  then show "list_all query_char s \<Longrightarrow> list_all line_char s" by (auto simp: list_all_iff)
  show "plain_path p \<Longrightarrow> list_all line_char p"
    using path_char_not by (auto simp: plain_path_def list_all_iff line_char_def is_space_or_tab_def)
  show "plain_key k \<Longrightarrow> list_all line_char k"
    using alnum_not by (auto simp: plain_key_def list_all_iff line_char_def is_space_or_tab_def)
qed

definition client_method :: "string \<Rightarrow> bool" where
  "client_method m \<longleftrightarrow> m \<in> {''GET'', ''POST'', ''DELETE''}"

lemma take_but_2: "take (length (a @ [x, y]) - 2) (a @ [x, y]) = a"
  by simp

lemma drop_but_2: "drop (length (a @ [x, y]) - 2) (a @ [x, y]) = [x, y]"
  by simp

lemma parse_written_line:
  assumes "client_method m" and "list_all line_char t" and "t \<noteq> []"
  shows "parse_request_line (write_request_line m t) = Some (m, t)"
proof -
  have m: "list_all line_char m" "m \<noteq> []"
    using assms(1) by (auto simp: client_method_def line_char_def is_space_or_tab_def code_def)
  have plain: "list_all (\<lambda>c. \<not> is_space_or_tab c) s" "CHR '' '' \<notin> set s" if "list_all line_char s" for s
    using that by (auto simp: list_all_iff line_char_def is_space_or_tab_def)
  let ?line = "m @ CHR '' '' # t @ CHR '' '' # ''HTTP/1.1''"
  have line: "write_request_line m t = ?line @ [CHR 13, CHR 10]" by (simp add: write_request_line_def)
  have "list_all (\<lambda>c. code c \<noteq> 0) (?line @ [CHR 13, CHR 10])"
    using m(1) assms(2) by (auto simp: list_all_iff line_char_def code_def)
  then have whole: "takeWhile (\<lambda>c. code c \<noteq> 0) (?line @ [CHR 13, CHR 10]) = ?line @ [CHR 13, CHR 10]"
    by (intro iffD2 [OF takeWhile_eq_all_conv]) (auto simp: list_all_iff)
  have "pieces (CHR '' '') ?line = [m, t, ''HTTP/1.1'']"
    using plain(2) [OF m(1)] plain(2) [OF assms(2)] by (simp add: pieces_step pieces_single)
  moreover have "trim ''HTTP/1.1'' = ''HTTP/1.1''" by (rule trim_plain) (simp add: is_space_or_tab_def)
  ultimately have split: "split_trimmed (CHR '' '') ?line = [m, t, ''HTTP/1.1'']"
    using m(2) assms(3) trim_plain [OF plain(1) [OF m(1)]] trim_plain [OF plain(1) [OF assms(2)]] by (simp add: split_trimmed_def)
  have frag: "takeWhile (\<lambda>c. c \<noteq> CHR ''#'') t = t"
    using assms(2) by (intro iffD2 [OF takeWhile_eq_all_conv]) (auto simp: list_all_iff line_char_def)
  have verb: "m \<in> {''GET'', ''HEAD'', ''POST'', ''PUT'', ''DELETE'', ''CONNECT'', ''OPTIONS'', ''TRACE'', ''PATCH'', ''PRI''}"
    using assms(1) by (auto simp: client_method_def)
  have ends: "take (length (?line @ [CHR 13, CHR 10]) - 2) (?line @ [CHR 13, CHR 10]) = ?line"
    "drop (length (?line @ [CHR 13, CHR 10]) - 2) (?line @ [CHR 13, CHR 10]) = [CHR 13, CHR 10]"
    "\<not> length (?line @ [CHR 13, CHR 10]) < 2" by (rule take_but_2, rule drop_but_2, simp)
  show ?thesis using verb unfolding parse_request_line_def Let_def line whole ends split by (simp add: frag)
qed

text \<open>The request as the server sees it, when its line arrives.\<close>

definition received :: "string \<Rightarrow> string \<Rightarrow> (string \<times> string) list \<Rightarrow> string \<Rightarrow> Request" where
  "received m target headers body =
     (let t = sent_target target
      in \<lparr>req_method = m, req_path = fst (parse_target t), req_params = snd (parse_target t), req_headers = headers, req_body = body\<rparr>)"

definition sendable :: "(string \<times> string) list \<Rightarrow> string \<Rightarrow> bool" where
  "sendable headers target \<longleftrightarrow>
     list_all (\<lambda>(k, v). is_field_name k \<and> is_field_value v) headers \<and> int (length (sent_target target)) \<le> max_uri"

lemma sendable_short:
  "list_all (\<lambda>(k, v). is_field_name k \<and> is_field_value v) headers \<and> length (sent_target target) \<le> 60 \<Longrightarrow> sendable headers target"
  by (simp add: sendable_def max_uri_def)

lemma exchange_received:
  assumes "client_method m" and "sendable headers target" and "list_all line_char (sent_target target)" and "sent_target target \<noteq> []"
  shows "exchange server m target headers body s = server (received m target headers body) s"
proof -
  have "length m \<le> 6" using assms(1) by (auto simp: client_method_def)
  then have "\<not> max_line < int (length (write_request_line m (sent_target target)))"
    using assms(2) by (simp add: write_request_line_def sendable_def max_line_def max_uri_def)
  then show ?thesis using assms(2) parse_written_line [OF assms(1,3,4)]
    by (auto simp: exchange_def received_def sendable_def Let_def)
qed

lemma divide_plain_path: "plain_path p \<Longrightarrow> divide_at (CHR ''?'') (p @ CHR ''?'' # q) = (p, q)" "plain_path p \<Longrightarrow> divide_at (CHR ''?'') p = (p, [])"
proof -
  assume p: "plain_path p"
  have "\<not> (is_alnum (CHR ''?'') \<or> CHR ''?'' = CHR ''/'' \<or> CHR ''?'' = CHR ''-'')" by (simp add: is_alnum_def code_def)
  then have no: "CHR ''?'' \<notin> set p" using p unfolding plain_path_def list_all_iff by blast
  then show "divide_at (CHR ''?'') (p @ CHR ''?'' # q) = (p, q)" by (rule divide_at_step)
  have "takeWhile (\<lambda>c. c \<noteq> CHR ''?'') p = p" "dropWhile (\<lambda>c. c \<noteq> CHR ''?'') p = []"
    using no by (auto simp: takeWhile_eq_all_conv dropWhile_eq_Nil_conv)
  then show "divide_at (CHR ''?'') p = (p, [])" unfolding divide_at_def by (simp only: list.sel)
qed

lemma parse_query_empty: "parse_query_text [] = []"
  by (simp add: parse_query_text_def split_trimmed_def pieces_single trim_def rtrim_def)

lemma sent_plain_path: "plain_path p \<Longrightarrow> sent_target p = p"
  by (simp add: sent_target_def divide_plain_path encode_plain_path)

lemma received_plain_path:
  "plain_path p \<Longrightarrow> received m p headers body = \<lparr>req_method = m, req_path = p, req_params = [], req_headers = headers, req_body = body\<rparr>"
  by (simp add: received_def sent_plain_path parse_target_def divide_plain_path decode_plain_path parse_query_empty)

lemma exchange_plain_path:
  "client_method m \<Longrightarrow> plain_path p \<Longrightarrow> sendable headers p \<Longrightarrow>
     exchange server m p headers body s = server \<lparr>req_method = m, req_path = p, req_params = [], req_headers = headers, req_body = body\<rparr> s"
  using exchange_received [of m headers p] line_chars(2) [of p]
  by (simp add: sent_plain_path received_plain_path plain_path_def)

definition with_param :: "string \<Rightarrow> string \<Rightarrow> string \<Rightarrow> string" where
  "with_param p k v = p @ ''?'' @ k @ ''='' @ v"

lemma sent_with_param:
  assumes "plain_path p" and "plain_key k"
  shows "\<exists>rest. sent_target (with_param p k v) =
      p @ ''?'' @ k @ ''='' @ encode_query_component (decode_query_component (first_value v)) @ rest \<and>
      list_all query_char rest \<and> (rest = [] \<or> hd rest = CHR ''&'')"
  using normalize_first [OF assms(2), of v] assms
  by (auto simp: sent_target_def with_param_def divide_plain_path encode_plain_path plain_key_def)

lemma received_with_param:
  assumes "plain_path p" and "plain_key k"
  shows "req_method (received m (with_param p k v) headers body) = m"
    and "req_path (received m (with_param p k v) headers body) = p"
    and "req_headers (received m (with_param p k v) headers body) = headers"
    and "req_body (received m (with_param p k v) headers body) = body"
    and "has_param k (received m (with_param p k v) headers body)"
    and "get_param_value k (received m (with_param p k v) headers body) = decode_query_component (first_value v)"
proof -
  obtain rest where rest: "sent_target (with_param p k v) =
      p @ ''?'' @ k @ ''='' @ encode_query_component (decode_query_component (first_value v)) @ rest"
    "rest = [] \<or> hd rest = CHR ''&''"
    using sent_with_param [OF assms] by blast
  then have target: "parse_target (sent_target (with_param p k v)) =
      (p, parse_query_text (k @ ''='' @ encode_query_component (decode_query_component (first_value v)) @ rest))"
    using assms(1) by (simp add: parse_target_def divide_plain_path decode_plain_path)
  show "req_method (received m (with_param p k v) headers body) = m" "req_path (received m (with_param p k v) headers body) = p"
    "req_headers (received m (with_param p k v) headers body) = headers" "req_body (received m (with_param p k v) headers body) = body"
    by (simp_all add: received_def target Let_def)
  have "List.find (\<lambda>(k', v). k' = k) (req_params (received m (with_param p k v) headers body)) =
      Some (k, decode_query_component (first_value v))"
    using parse_first [OF assms(2) encode_query_wire rest(2)] by (simp add: received_def target Let_def decode_encode_query)
  then show "has_param k (received m (with_param p k v) headers body)"
    "get_param_value k (received m (with_param p k v) headers body) = decode_query_component (first_value v)"
    by (simp_all add: has_param_def get_param_value_def)
qed

lemma exchange_with_param:
  assumes "client_method m" and "plain_path p" and "plain_key k" and "sendable headers (with_param p k v)"
  shows "exchange server m (with_param p k v) headers body s = server (received m (with_param p k v) headers body) s"
proof (rule exchange_received [OF assms(1,4)])
  obtain rest where "sent_target (with_param p k v) =
      p @ ''?'' @ k @ ''='' @ encode_query_component (decode_query_component (first_value v)) @ rest" "list_all query_char rest"
    using sent_with_param [OF assms(2,3)] by blast
  moreover have "list_all line_char ''?''" "list_all line_char ''=''" by (simp_all add: line_char_def is_space_or_tab_def code_def)
  ultimately show "list_all line_char (sent_target (with_param p k v))" "sent_target (with_param p k v) \<noteq> []"
    using line_chars(1) [OF wire_query [OF encode_query_wire]] line_chars(1) [of rest] line_chars(2,3) assms(2,3) by auto
qed

section \<open>Which values arrive\<close>

text \<open>No plus sign, no ampersand, no percent sign before two hexadecimal digits, no blank at the end.\<close>

fun escape_free :: "string \<Rightarrow> bool" where
  "escape_free [] = True"
| "escape_free (c # s) \<longleftrightarrow> c \<noteq> CHR ''+'' \<and> \<not> (c = CHR ''%'' \<and> from_hex_to_i 2 s \<noteq> None) \<and> escape_free s"

definition query_plain :: "string \<Rightarrow> bool" where
  "query_plain v \<longleftrightarrow> CHR ''&'' \<notin> set v \<and> (v = [] \<or> \<not> is_space_or_tab (last v)) \<and> escape_free v"

lemma from_hex_short: "length s < n \<Longrightarrow> from_hex_to_i n s = None"
  by (simp add: from_hex_to_i_def)

lemma decode_same: "decode_query_component s = s \<longleftrightarrow> escape_free s"
proof (induction s rule: decode_query_component.induct)
  case (2 c s)
  show ?case
  proof (cases "c = CHR ''%'' \<and> 2 \<le> length s")
    case True
    have "decode_query_component (c # s) \<noteq> c # s" if "from_hex_to_i 2 s = Some v" for v
    proof
      assume "decode_query_component (c # s) = c # s"
      then have "length (decode_query_component (drop 2 s)) = length s" using True that by (auto dest: arg_cong [of _ _ length])
      then show False using decode_length [of "drop 2 s"] True by simp
    qed
    then show ?thesis using 2 True by (auto split: option.split)
  next
    case False
    then have "\<not> (c = CHR ''%'' \<and> from_hex_to_i 2 s \<noteq> None)" using from_hex_short [of s 2] by auto
    then show ?thesis using 2(3) [OF False] False by auto
  qed
qed simp

lemma rtrim_same: "rtrim s = s \<longleftrightarrow> s = [] \<or> \<not> is_space_or_tab (last s)"
proof (cases "s = []")
  case False
  then obtain a c where s: "s = a @ [c]" by (metis rev_exhaust)
  have "rtrim (a @ [c]) = rtrim a" if "is_space_or_tab c" using that by (simp add: rtrim_def)
  then show ?thesis using rtrim_snoc [of c a] rtrim_length [of a] s by (metis last_snoc length_append_singleton not_less_eq_eq order_refl snoc_eq_iff_butlast)
qed (simp add: rtrim_def)

lemma first_value_same: "decode_query_component (first_value v) = v \<longleftrightarrow> query_plain v"
proof
  assume same: "decode_query_component (first_value v) = v"
  let ?w = "takeWhile (\<lambda>c. c \<noteq> CHR ''&'') v"
  have "length v \<le> length (rtrim ?w)" using decode_length [of "first_value v"] same by (simp add: first_value_def)
  moreover have "length (rtrim ?w) \<le> length ?w" "length ?w \<le> length v" by (rule rtrim_length, rule length_takeWhile_le)
  ultimately have len: "length ?w = length v" "length (rtrim ?w) = length ?w" by simp_all
  have w: "?w = v" using len(1) takeWhile_eq_take [of "\<lambda>c. c \<noteq> CHR ''&''" v] by simp
  have "\<exists>r. ?w = rtrim ?w @ r"
    unfolding rtrim_def by (metis takeWhile_dropWhile_id rev_append rev_rev_ident)
  then have r: "rtrim v = v" using len(2) w by (metis append_Nil2 append_eq_append_conv)
  have "CHR ''&'' \<notin> set v" using w by (metis (mono_tags, lifting) set_takeWhileD)
  then show "query_plain v"
    using same decode_same [of v] rtrim_same [of v] r w by (simp add: query_plain_def first_value_def)
next
  assume plain: "query_plain v"
  then have "takeWhile (\<lambda>c. c \<noteq> CHR ''&'') v = v"
    by (intro iffD2 [OF takeWhile_eq_all_conv]) (auto simp: query_plain_def)
  moreover have "rtrim v = v" "decode_query_component v = v"
    using plain rtrim_same [of v] decode_same [of v] by (simp_all add: query_plain_def)
  ultimately show "decode_query_component (first_value v) = v" by (simp only: first_value_def)
qed


text \<open>C24: A name in a query reaches the handler as it is exactly if it has no plus sign, no ampersand, no
  percent sign before two hexadecimal digits and no blank at its end; otherwise the server is asked for another
  name. A hash sign and a blank at the start do arrive. The client never encodes the names it puts into its targets.\<close>

theorem name_over_wire:
  assumes "client_method m" and "plain_path p" and "plain_key k" and "sendable headers (with_param p k name)"
  shows "\<exists>req. exchange server m (with_param p k name) headers body s = server req s \<and>
     req_method req = m \<and> req_path req = p \<and> req_headers req = headers \<and> req_body req = body \<and>
     (get_param_value k req = name \<longleftrightarrow> query_plain name)"
  using exchange_with_param [OF assms] received_with_param [OF assms(2,3)] first_value_same by metis

lemma name_over_wire_witness:
  "(\<exists>req. exchange (\<lambda>req s. (Some (with_status 200), get_param_value ''filename'' req # s)) ''GET''
      (with_param ''/files/exists'' ''filename'' ''a b~.txt'') [(''Authorization'', ''Bearer x'')] [] [] =
      (Some (with_status 200), [''a b~.txt''])) \<and>
   (\<exists>n. exchange (\<lambda>req s. (Some (with_status 200), get_param_value ''filename'' req # s)) ''GET''
      (with_param ''/files/exists'' ''filename'' ''c++'') [(''Authorization'', ''Bearer x'')] [] [] =
      (Some (with_status 200), [n]) \<and> n \<noteq> ''c++'')"
proof -
  have fixed: "client_method ''GET''" "plain_path ''/files/exists''" "plain_key ''filename''" by code_simp+
  have short: "sendable [(''Authorization'', ''Bearer x'')] (with_param ''/files/exists'' ''filename'' ''a b~.txt'')"
    "sendable [(''Authorization'', ''Bearer x'')] (with_param ''/files/exists'' ''filename'' ''c++'')"
    by (rule sendable_short, code_simp)+
  have names: "query_plain ''a b~.txt''" "\<not> query_plain ''c++''" by code_simp+
  let ?server = "\<lambda>req s. (Some (with_status 200), get_param_value ''filename'' req # s)"
  show ?thesis
    using name_over_wire [OF fixed short(1), where server = ?server and body = "[]" and s = "[]"]
      name_over_wire [OF fixed short(2), where server = ?server and body = "[]" and s = "[]"] names by auto
qed

end
