(* ===== verification/Metadata_Client.thy ===== *)
theory Metadata_Client
  imports Client_World Url_Transport
begin

text \<open>
  \<^verbatim>\<open>client/network/IMetaDataClient.hpp\<close> and \<^verbatim>\<open>client/network/MasterHttpClient.cpp\<close>: the
  client's side of the master's routes.
\<close>

section \<open>The interface\<close>

record 's IMetadataClient =
  mc_SetAuthToken :: "string \<Rightarrow> ('s, unit) action"
  mc_CreateUser :: "string \<Rightarrow> string \<Rightarrow> ('s, bool) action"
  mc_Login :: "string \<Rightarrow> string \<Rightarrow> ('s, string) action"
  mc_InitializeUpload :: "string list \<Rightarrow> ('s, ChunkRoutingPlan list) action"
  mc_CommitFile :: "string \<Rightarrow> int \<Rightarrow> string list \<Rightarrow> ('s, bool) action"
  mc_GetDownloadPlan :: "string \<Rightarrow> ('s, FileDownloadManifest) action"
  mc_FileExists :: "string \<Rightarrow> ('s, bool) action"
  mc_RemoveFile :: "string \<Rightarrow> ('s, bool) action"

section \<open>Reading the answers\<close>

text \<open>\<^verbatim>\<open>operator[]\<close> of a constant value: a key that is missing fails an assertion of the library,
  which ends the process.\<close>

definition const_subscript :: "json \<Rightarrow> string \<Rightarrow> json outcome" where
  "const_subscript j k =
     (case j of JObject m \<Rightarrow> (case map_of m k of None \<Rightarrow> Inl Trap | Some v \<Rightarrow> Inr v) | _ \<Rightarrow> Inl JsonError)"

definition read_node :: "json \<Rightarrow> NodeInfo outcome" where
  "read_node nj =
     bind_outcome (bind_outcome (const_subscript nj ''advertised_host'') get_string) (\<lambda>host.
     bind_outcome (bind_outcome (const_subscript nj ''advertised_port'') get_int) (\<lambda>port.
     Inr \<lparr>advertised_host = host, advertised_port = port\<rparr>))"

definition read_plan :: "json \<Rightarrow> ChunkRoutingPlan outcome" where
  "read_plan item =
     bind_outcome (bind_outcome (const_subscript item ''hash'') get_string) (\<lambda>h.
     bind_outcome (const_subscript item ''assigned_nodes'') (\<lambda>nodes_json.
     bind_outcome (convert_all read_node (elements nodes_json)) (\<lambda>nodes.
     Inr \<lparr>plan_hash = h, assigned_nodes = nodes\<rparr>)))"

definition read_upload_plans :: "string \<Rightarrow> ChunkRoutingPlan list outcome" where
  "read_upload_plans body =
     bind_outcome (parse body) (\<lambda>res_json.
     bind_outcome (subscript res_json ''missing_hashes'') (\<lambda>(items, _).
     convert_all read_plan (elements items)))"

definition read_manifest :: "string \<Rightarrow> FileDownloadManifest outcome" where
  "read_manifest body =
     bind_outcome (parse body) (\<lambda>res_json.
     bind_outcome (subscript res_json ''file_size'') (\<lambda>(size_json, res_json).
     bind_outcome (get_long_long size_json) (\<lambda>bytes.
     bind_outcome (subscript res_json ''chunks'') (\<lambda>(items, _).
     bind_outcome (convert_all read_plan (elements items)) (\<lambda>ps.
     Inr \<lparr>file_size = bytes, plans = ps\<rparr>)))))"

section \<open>The operations\<close>

definition bearer :: "'w client \<Rightarrow> (string \<times> string) list" where
  "bearer s = [(''Authorization'', ''Bearer '' @ auth_token s)]"

definition call_master :: "client_env \<Rightarrow> 'w network \<Rightarrow> string \<Rightarrow> string \<Rightarrow> string \<Rightarrow> ('w client, Response option) action" where
  "call_master env net m target body =
     andthen (get bearer) (\<lambda>headers. http_call net (master_url env) m target headers body)"

definition credentials_json :: "string \<Rightarrow> string \<Rightarrow> json" where
  "credentials_json e p = object [(''email'', JString e), (''password'', JString p)]"

definition SetAuthToken :: "string \<Rightarrow> ('w client, unit) action" where
  "SetAuthToken token = modify (\<lambda>s. s\<lparr>auth_token := token\<rparr>)"

definition CreateUser_call :: "client_env \<Rightarrow> 'w network \<Rightarrow> string \<Rightarrow> string \<Rightarrow> ('w client, bool) action" where
  "CreateUser_call env net e p =
     andthen (of_outcome (dump (c_float env) (credentials_json e p))) (\<lambda>payload.
     andthen (http_call net (master_url env) ''POST'' ''/auth/signup'' [] payload) (\<lambda>res.
     ret (case res of None \<Rightarrow> False | Some r \<Rightarrow> res_status r = 201)))"

definition Login_call :: "client_env \<Rightarrow> 'w network \<Rightarrow> string \<Rightarrow> string \<Rightarrow> ('w client, string) action" where
  "Login_call env net e p =
     andthen (of_outcome (dump (c_float env) (credentials_json e p))) (\<lambda>payload.
     andthen (http_call net (master_url env) ''POST'' ''/auth/login'' [] payload) (\<lambda>res.
     case res of None \<Rightarrow> ret []
     | Some r \<Rightarrow>
         if res_status r = 200 then
           try_catch (of_outcome
             (bind_outcome (parse (res_body r)) (\<lambda>res_json.
              bind_outcome (subscript res_json ''token'') (\<lambda>(token, _). get_string token)))) (\<lambda>_. ret [])
         else ret []))"

definition InitializeUpload :: "client_env \<Rightarrow> 'w network \<Rightarrow> string list \<Rightarrow> ('w client, ChunkRoutingPlan list) action" where
  "InitializeUpload env net hashes =
     andthen (of_outcome (dump (c_float env) (object [(''hashes'', JArray (map JString hashes))]))) (\<lambda>payload.
     andthen (call_master env net ''POST'' ''/upload-init'' payload) (\<lambda>res.
     case res of
       None \<Rightarrow> throw (RuntimeError ''Master Node unreachable.'')
     | Some r \<Rightarrow>
         if res_status r \<noteq> 200
         then throw (RuntimeError (''Upload-Init failed. HTTP '' @ to_string (res_status r) @ '': '' @ res_body r))
         else of_outcome (read_upload_plans (res_body r))))"

definition commit_json :: "string \<Rightarrow> int \<Rightarrow> string list \<Rightarrow> json" where
  "commit_json name bytes hashes =
     object [(''filename'', JString name), (''file_size'', JInteger bytes), (''chunk_hashes'', JArray (map JString hashes))]"

definition CommitFile_call :: "client_env \<Rightarrow> 'w network \<Rightarrow> string \<Rightarrow> int \<Rightarrow> string list \<Rightarrow> ('w client, bool) action" where
  "CommitFile_call env net name bytes hashes =
     andthen (of_outcome (dump (c_float env) (commit_json name bytes hashes))) (\<lambda>payload.
     andthen (call_master env net ''POST'' ''/files/commit'' payload) (\<lambda>res.
     ret (case res of None \<Rightarrow> False | Some r \<Rightarrow> res_status r = 200)))"

definition GetDownloadPlan_call :: "client_env \<Rightarrow> 'w network \<Rightarrow> string \<Rightarrow> ('w client, FileDownloadManifest) action" where
  "GetDownloadPlan_call env net name =
     andthen (call_master env net ''GET'' (''/files/download-plan?filename='' @ name) []) (\<lambda>res.
     case res of
       None \<Rightarrow> throw (RuntimeError ''Master Node unreachable.'')
     | Some r \<Rightarrow>
         if res_status r \<noteq> 200
         then throw (RuntimeError (''Download-Plan failed. HTTP '' @ to_string (res_status r) @ '': '' @ res_body r))
         else of_outcome (read_manifest (res_body r)))"

definition FileExists_call :: "client_env \<Rightarrow> 'w network \<Rightarrow> string \<Rightarrow> ('w client, bool) action" where
  "FileExists_call env net name =
     andthen (call_master env net ''GET'' (''/files/exists?filename='' @ name) []) (\<lambda>res.
     case res of
       None \<Rightarrow> ret False
     | Some r \<Rightarrow>
         if res_status r \<noteq> 200 then ret False
         else of_outcome (bind_outcome (parse (res_body r)) (\<lambda>res_json.
              bind_outcome (subscript res_json ''exists'') (\<lambda>(v, _). get_bool v))))"

definition RemoveFile_call :: "client_env \<Rightarrow> 'w network \<Rightarrow> string \<Rightarrow> ('w client, bool) action" where
  "RemoveFile_call env net name =
     andthen (call_master env net ''DELETE'' (''/files?filename='' @ name) []) (\<lambda>res.
     ret (case res of None \<Rightarrow> False | Some r \<Rightarrow> res_status r = 200))"

definition MasterHttpClient :: "client_env \<Rightarrow> 'w network \<Rightarrow> 'w client IMetadataClient" where
  "MasterHttpClient env net =
     \<lparr>mc_SetAuthToken = SetAuthToken, mc_CreateUser = CreateUser_call env net, mc_Login = Login_call env net,
      mc_InitializeUpload = InitializeUpload env net, mc_CommitFile = CommitFile_call env net,
      mc_GetDownloadPlan = GetDownloadPlan_call env net, mc_FileExists = FileExists_call env net,
      mc_RemoveFile = RemoveFile_call env net\<rparr>"

section \<open>The network that delivers\<close>

definition reliable :: "(Request \<Rightarrow> 'w \<Rightarrow> Response option \<times> 'w) \<Rightarrow> 'w network" where
  "reliable serves url = exchange serves"


section \<open>What comes back from the master\<close>

lemma const_subscript_object:
  "map_of kvs k = Some v \<Longrightarrow> const_subscript (as_read (object kvs)) k = Inr (as_read v)"
  using object_at [of kvs k] object_is_object [of kvs]
  by (auto simp: const_subscript_def json_at_def split: option.splits)

lemma subscript_object:
  "map_of kvs k = Some v \<Longrightarrow> subscript (as_read (object kvs)) k = Inr (as_read v, as_read (object kvs))"
  using object_at [of kvs k] object_is_object [of kvs]
  by (auto simp: subscript_def json_at_def emplace_def split: option.splits)

definition node_sendable :: "NodeInfo \<Rightarrow> bool" where
  "node_sendable n \<longleftrightarrow> utf8 (advertised_host n) \<and> int_range (advertised_port n)"

definition plan_sendable :: "ChunkRoutingPlan \<Rightarrow> bool" where
  "plan_sendable p \<longleftrightarrow> utf8 (plan_hash p) \<and> list_all node_sendable (assigned_nodes p)"

lemma ascii_words: "utf8 ''advertised_host''" "utf8 ''advertised_port''" "utf8 ''hash''" "utf8 ''assigned_nodes''" "utf8 ''status''"
  "utf8 ''success''" "utf8 ''missing_hashes''" "utf8 ''file_size''" "utf8 ''chunks''" "utf8 ''exists''" "utf8 ''hashes''"
  "utf8 ''filename''" "utf8 ''chunk_hashes''" "utf8 ''email''" "utf8 ''password''" "utf8 ''token''"
  by (rule ascii_utf8, simp add: ascii_def code_def)+

lemma int_range_llong: "int_range n \<Longrightarrow> llong_range n"
  by (simp add: int_range_def llong_range_def)

lemma node_json_sent:
  assumes "node_sendable n"
  shows "dumpable (node_json n)" "readable (node_json n)" "read_node (as_read (node_json n)) = Inr n"
proof -
  show "dumpable (node_json n)"
    unfolding node_json_def using assms by (intro object_dumpable) (simp_all add: node_sendable_def ascii_words)
  show "readable (node_json n)"
    unfolding node_json_def using assms by (intro object_readable) (simp add: node_sendable_def int_range_llong)
  show "read_node (as_read (node_json n)) = Inr n"
    using assms by (simp add: read_node_def node_json_def const_subscript_object node_sendable_def get_int_as_read del: as_read.simps)
qed

lemma elements_array: "elements (as_read (JArray xs)) = map as_read xs"
  by (simp add: elements_def)

lemma plan_json_sent:
  assumes "plan_sendable p"
  shows "dumpable (plan_json p)" "readable (plan_json p)" "read_plan (as_read (plan_json p)) = Inr p"
proof -
  have nodes: "\<forall>n\<in>set (assigned_nodes p). node_sendable n" using assms by (simp add: plan_sendable_def list_all_iff)
  show "dumpable (plan_json p)"
    unfolding plan_json_def using assms nodes node_json_sent(1)
    by (intro object_dumpable) (auto simp: plan_sendable_def ascii_words dumpable_array list_all_iff simp del: dumpable.simps(7))
  show "readable (plan_json p)"
    unfolding plan_json_def using nodes node_json_sent(2)
    by (intro object_readable) (auto simp: readable_array list_all_iff simp del: readable.simps(7))
  have "convert_all read_node (map (as_read \<circ> node_json) (assigned_nodes p)) = Inr (map id (assigned_nodes p))"
    using nodes node_json_sent(3) by (intro convert_all_map) simp
  then show "read_plan (as_read (plan_json p)) = Inr p"
    by (simp add: read_plan_def plan_json_def const_subscript_object elements_array del: as_read.simps)
qed

lemma plans_sent:
  assumes "list_all plan_sendable ps"
  shows "dumpable (JArray (map plan_json ps))" "readable (JArray (map plan_json ps))"
    "convert_all read_plan (elements (as_read (JArray (map plan_json ps)))) = Inr ps"
proof -
  show "dumpable (JArray (map plan_json ps))" "readable (JArray (map plan_json ps))"
    unfolding dumpable_array readable_array using assms plan_json_sent(1,2) by (auto simp: list_all_iff)
  have "convert_all read_plan (map (as_read \<circ> plan_json) ps) = Inr (map id ps)"
    using assms plan_json_sent(3) by (intro convert_all_map) (simp add: list_all_iff)
  then show "convert_all read_plan (elements (as_read (JArray (map plan_json ps)))) = Inr ps"
    by (simp add: elements_array del: as_read.simps)
qed

definition plans_answer :: "ChunkRoutingPlan list \<Rightarrow> json" where
  "plans_answer ps = object [(''status'', JString ''success''), (''missing_hashes'', JArray (map plan_json ps))]"

definition manifest_answer :: "FileDownloadManifest \<Rightarrow> json" where
  "manifest_answer m = object [(''status'', JString ''success''), (''file_size'', JInteger (file_size m)),
     (''chunks'', JArray (map plan_json (plans m)))]"

lemma plans_answer_read:
  assumes "list_all plan_sendable ps"
  shows "\<exists>body. dump fl (plans_answer ps) = Inr body \<and> read_upload_plans body = Inr ps"
proof -
  have "dumpable (plans_answer ps)" "readable (plans_answer ps)"
    unfolding plans_answer_def using plans_sent(1,2) [OF assms]
    by (intro object_dumpable object_readable; simp add: ascii_words del: dumpable.simps(7) readable.simps(7))+
  then obtain body where "dump fl (plans_answer ps) = Inr body" "parse body = Inr (as_read (plans_answer ps))"
    using sent_and_parsed by blast
  then show ?thesis using plans_sent(3) [OF assms]
    by (simp add: read_upload_plans_def plans_answer_def subscript_object del: as_read.simps)
qed

lemma manifest_answer_read:
  assumes "list_all plan_sendable (plans m)" and "llong_range (file_size m)"
  shows "\<exists>body. dump fl (manifest_answer m) = Inr body \<and> read_manifest body = Inr m"
proof -
  have "dumpable (manifest_answer m)" "readable (manifest_answer m)"
    unfolding manifest_answer_def using plans_sent(1,2) [OF assms(1)] assms(2)
    by (intro object_dumpable object_readable; simp add: ascii_words del: dumpable.simps(7) readable.simps(7))+
  then obtain body where "dump fl (manifest_answer m) = Inr body" "parse body = Inr (as_read (manifest_answer m))"
    using sent_and_parsed by blast
  then show ?thesis using plans_sent(3) [OF assms(1)] assms(2)
    by (simp add: read_manifest_def manifest_answer_def subscript_object get_long_long_as_read del: as_read.simps)
qed

section \<open>The master behind the client\<close>

text \<open>A session: the token the client holds is one the master accepts for the user.\<close>

definition in_session :: "master_env \<Rightarrow> 'w client \<Rightarrow> int \<Rightarrow> bool" where
  "in_session menv s u \<longleftrightarrow> VerifySessionToken (m_ossl menv) (m_time menv) (auth_token s) (session_secret menv) = Some u \<and>
     is_field_value (''Bearer '' @ auth_token s)"

lemma authenticated_bearer:
  assumes "in_session menv s u" and "req_headers req = bearer s"
  shows "authenticated menv req handle = handle u"
proof -
  have "case_ignore_equal ''Authorization'' ''Authorization''" by (simp add: case_ignore_equal_def)
  then have "AuthenticateUser menv req = Inr u"
    using assms by (simp add: AuthenticateUser_def bearer_def in_session_def has_header_def get_header_value_def)
  then show ?thesis by (simp add: authenticated_def)
qed

lemma bearer_field:
  "in_session menv s u \<Longrightarrow> list_all (\<lambda>(k, v). is_field_name k \<and> is_field_value v) (bearer s)"
  by (simp add: bearer_def in_session_def is_field_name_def is_token_char_def is_alnum_def code_def)

text \<open>A body the master reads at all.\<close>

definition body_fits :: "client_env \<Rightarrow> json \<Rightarrow> bool" where
  "body_fits env j \<longleftrightarrow> (\<forall>b. dump (c_float env) j = Inr b \<longrightarrow> int (length b) \<le> master_payload_max)"

lemma answer_200: "run_handler (\<lambda>s. (Inr (answer st body), s')) s = (Some (answer (if st = -1 then 200 else st) body), s')"
  by (simp add: run_handler_def answer_def set_content_def with_status_def)

lemma answer_simps [simp]: "res_status (answer st body) = st" "res_body (answer st body) = body"
  "res_status (with_status st) = st"
  by (simp_all add: answer_def set_content_def with_status_def)

lemma post_master:
  assumes "in_session menv s u" and "plain_path p" and "length p \<le> 60"
  shows "call_master env (reliable serves) ''POST'' p body s =
     (case serves \<lparr>req_method = ''POST'', req_path = p, req_params = [], req_headers = bearer s, req_body = body\<rparr> (remote s) of
        (r, w) \<Rightarrow> (Inr r, s\<lparr>remote := w\<rparr>))"
proof -
  have "sendable (bearer s) p"
    using bearer_field [OF assms(1)] assms(2,3) by (intro sendable_short) (simp add: sent_plain_path)
  then have "exchange serves ''POST'' p (bearer s) body w =
      serves \<lparr>req_method = ''POST'', req_path = p, req_params = [], req_headers = bearer s, req_body = body\<rparr> w" for w
    using assms(2) by (intro exchange_plain_path) (simp_all add: client_method_def)
  then show ?thesis by (simp add: call_master_def http_call_def reliable_def andthen_get)
qed

text \<open>A target with the name of a file, short enough for the server.\<close>

definition name_fits :: "string \<Rightarrow> bool" where
  "name_fits name \<longleftrightarrow> query_plain name \<and>
     (\<forall>p\<in>{''/files/download-plan'', ''/files/exists'', ''/files''}. int (length (sent_target (with_param p ''filename'' name))) \<le> max_uri)"

lemma query_master:
  assumes "in_session menv s u" and "p \<in> {''/files/download-plan'', ''/files/exists'', ''/files''}" and "m \<in> {''GET'', ''DELETE''}"
    and "name_fits name"
  obtains req where
    "call_master env (reliable serves) m (p @ ''?filename='' @ name) [] s = (case serves req (remote s) of (r, w) \<Rightarrow> (Inr r, s\<lparr>remote := w\<rparr>))"
    "req_method req = m" "req_path req = p" "req_headers req = bearer s" "int (length (req_body req)) \<le> master_payload_max"
    "has_param ''filename'' req" "get_param_value ''filename'' req = name"
proof -
  let ?req = "received m (with_param p ''filename'' name) (bearer s) []"
  have fixed: "client_method m" "plain_path p" "plain_key ''filename''"
    using assms(2,3) by (auto simp: client_method_def plain_path_def plain_key_def is_alnum_def code_def)
  have "sendable (bearer s) (with_param p ''filename'' name)"
    using assms(2,4) bearer_field [OF assms(1)] by (auto simp: sendable_def name_fits_def)
  then have "exchange serves m (with_param p ''filename'' name) (bearer s) [] w = serves ?req w" for w
    by (rule exchange_with_param [OF fixed])
  then have "call_master env (reliable serves) m (p @ ''?filename='' @ name) [] s =
      (case serves ?req (remote s) of (r, w) \<Rightarrow> (Inr r, s\<lparr>remote := w\<rparr>))"
    by (simp add: call_master_def http_call_def reliable_def andthen_get with_param_def)
  moreover have "get_param_value ''filename'' ?req = name"
    using received_with_param(6) [OF fixed(2,3)] first_value_same [of name] assms(4) by (simp add: name_fits_def)
  ultimately show thesis using that [of ?req] received_with_param(1-5) [OF fixed(2,3)] by simp
qed

text \<open>What a handler of a user's route does for the session's user.\<close>

definition answered_200 :: "Response option \<Rightarrow> bool" where
  "answered_200 r \<longleftrightarrow> (\<exists>res. r = Some res \<and> res_status res = 200)"

lemma HandleUploadInit_served:
  assumes "in_session menv s u" and "req_headers req = bearer s"
    and "parse (req_body req) = Inr j" and "json_at j ''hashes'' = Inr v" and "get_vector get_string v = Inr hashes"
  shows "op_FilterMissingChunks R hashes w = (Inr ps, w') \<Longrightarrow> list_all plan_sendable ps \<Longrightarrow>
      \<exists>body. run_handler (HandleUploadInit menv R req) w = (Some (answer 200 body), w') \<and> read_upload_plans body = Inr ps"
    and "op_FilterMissingChunks R hashes w = (Inl e, w') \<Longrightarrow>
      \<exists>r. run_handler (HandleUploadInit menv R req) w = (r, w') \<and> \<not> answered_200 r"
proof -
  assume step: "op_FilterMissingChunks R hashes w = (Inr ps, w')" and "list_all plan_sendable ps"
  then obtain body where body: "dump (m_float menv) (plans_answer ps) = Inr body" "read_upload_plans body = Inr ps"
    using plans_answer_read by blast
  have "HandleUploadInit menv R req w = (Inr (answer unset_status body), w')"
    using assms(3-5) body(1)
    by (simp add: HandleUploadInit_def authenticated_bearer [OF assms(1,2)] catching_def andthen_of_outcome andthen_Inr step
        send_json_def plans_answer_def ret_apply)
  then have "run_handler (HandleUploadInit menv R req) w = (Some (answer 200 body), w')"
    by (simp add: run_handler_def answer_def set_content_def with_status_def unset_status_def)
  then show "\<exists>body. run_handler (HandleUploadInit menv R req) w = (Some (answer 200 body), w') \<and> read_upload_plans body = Inr ps"
    using body(2) by blast
next
  assume step: "op_FilterMissingChunks R hashes w = (Inl e, w')"
  then show "\<exists>r. run_handler (HandleUploadInit menv R req) w = (r, w') \<and> \<not> answered_200 r"
    using assms(3-5)
    by (auto simp: answered_200_def HandleUploadInit_def authenticated_bearer [OF assms(1,2)] catching_def andthen_of_outcome andthen_Inl step
        run_handler_def refuse_def)
qed

lemma HandleCommit_served:
  assumes "in_session menv s u" and "req_headers req = bearer s" and "parse (req_body req) = Inr j"
    and "json_at j ''filename'' = Inr (JString name)" and "json_at j ''file_size'' = Inr v" and "get_long_long v = Inr bytes"
    and "json_at j ''chunk_hashes'' = Inr v'" and "get_vector get_string v' = Inr hashes"
    and "op_CommitFile R u name bytes hashes w = (x, w')"
  shows "\<exists>r. run_handler (HandleCommit menv R req) w = (r, w') \<and> (answered_200 r \<longleftrightarrow> x = Inr ())"
proof (cases x)
  case (Inl e)
  then show ?thesis using assms(3-9)
    by (simp add: answered_200_def HandleCommit_def authenticated_bearer [OF assms(1,2)] catching_def andthen_of_outcome andthen_Inl get_string_def
        run_handler_def)
next
  case (Inr _)
  then show ?thesis using assms(3-9)
    by (simp add: answered_200_def HandleCommit_def authenticated_bearer [OF assms(1,2)] catching_def andthen_of_outcome andthen_Inr get_string_def
        run_handler_def ret_apply)
qed

lemma HandleDownloadPlan_served:
  assumes "in_session menv s u" and "req_headers req = bearer s" and "has_param ''filename'' req" and "get_param_value ''filename'' req = name"
  shows "op_GetDownloadPlan R u name w = (Inr m, w') \<Longrightarrow> list_all plan_sendable (plans m) \<Longrightarrow> llong_range (file_size m) \<Longrightarrow>
      \<exists>body. run_handler (HandleDownloadPlan menv R req) w = (Some (answer 200 body), w') \<and> read_manifest body = Inr m"
    and "op_GetDownloadPlan R u name w = (Inl e, w') \<Longrightarrow>
      \<exists>r. run_handler (HandleDownloadPlan menv R req) w = (r, w') \<and> \<not> answered_200 r"
proof -
  assume step: "op_GetDownloadPlan R u name w = (Inr m, w')" and "list_all plan_sendable (plans m)" "llong_range (file_size m)"
  then obtain body where body: "dump (m_float menv) (manifest_answer m) = Inr body" "read_manifest body = Inr m"
    using manifest_answer_read by blast
  have "HandleDownloadPlan menv R req w = (Inr (answer 200 body), w')"
    using assms(3,4) body(1)
    by (simp add: HandleDownloadPlan_def authenticated_bearer [OF assms(1,2)] catching_def andthen_of_outcome andthen_Inr step
        send_json_def manifest_answer_def ret_apply)
  then show "\<exists>body. run_handler (HandleDownloadPlan menv R req) w = (Some (answer 200 body), w') \<and> read_manifest body = Inr m"
    using body(2) by (intro exI [of _ body]) (simp add: run_handler_def)
next
  assume step: "op_GetDownloadPlan R u name w = (Inl e, w')"
  then show "\<exists>r. run_handler (HandleDownloadPlan menv R req) w = (r, w') \<and> \<not> answered_200 r"
    using assms(3,4)
    by (auto simp: answered_200_def HandleDownloadPlan_def authenticated_bearer [OF assms(1,2)] catching_def andthen_Inl step run_handler_def refuse_def)
qed

lemma exists_answer_read:
  "\<exists>body j. dump fl (object [(''exists'', JBool b)]) = Inr body \<and> parse body = Inr j \<and> (\<exists>j'. subscript j ''exists'' = Inr (JBool b, j'))"
proof -
  have "dumpable (object [(''exists'', JBool b)])" "readable (object [(''exists'', JBool b)])"
    by (intro object_dumpable object_readable; simp add: ascii_words)+
  then obtain body where "dump fl (object [(''exists'', JBool b)]) = Inr body"
    "parse body = Inr (as_read (object [(''exists'', JBool b)]))" using sent_and_parsed by blast
  then show ?thesis by (simp add: subscript_object)
qed

lemma HandleFileExists_served:
  assumes "in_session menv s u" and "req_headers req = bearer s" and "has_param ''filename'' req" and "get_param_value ''filename'' req = name"
    and "op_FileExists R u name w = (Inr b, w')"
  shows "\<exists>body j j'. run_handler (HandleFileExists menv R req) w = (Some (answer 200 body), w') \<and> parse body = Inr j \<and>
      subscript j ''exists'' = Inr (JBool b, j')"
proof -
  obtain body j j' where body: "dump (m_float menv) (object [(''exists'', JBool b)]) = Inr body" "parse body = Inr j"
    "subscript j ''exists'' = Inr (JBool b, j')" using exists_answer_read by blast
  have "HandleFileExists menv R req w = (Inr (answer 200 body), w')"
    using assms(3-5) body(1)
    by (simp add: HandleFileExists_def authenticated_bearer [OF assms(1,2)] andthen_of_outcome andthen_Inr send_json_def ret_apply)
  then show ?thesis using body(2,3) by (intro exI [of _ body]) (simp add: run_handler_def)
qed

lemma HandleDeleteFile_served:
  assumes "in_session menv s u" and "req_headers req = bearer s" and "has_param ''filename'' req" and "get_param_value ''filename'' req = name"
    and "op_DeleteFile R u name w = (Inr b, w')"
  shows "\<exists>r. run_handler (HandleDeleteFile menv R req) w = (Some r, w') \<and> (res_status r = 200 \<longleftrightarrow> b)"
  using assms(3-5)
  by (simp add: HandleDeleteFile_def authenticated_bearer [OF assms(1,2)] andthen_Inr run_handler_def ret_apply refuse_def)

section \<open>The client's operations are the repository's\<close>

definition hashes_json :: "string list \<Rightarrow> json" where
  "hashes_json hashes = object [(''hashes'', JArray (map JString hashes))]"

lemma hashes_sent:
  assumes "list_all utf8 hashes"
  shows "\<exists>body j v. dump fl (hashes_json hashes) = Inr body \<and> parse body = Inr j \<and> json_at j ''hashes'' = Inr v \<and>
    get_vector get_string v = Inr hashes"
proof -
  have "dumpable (hashes_json hashes)" "readable (hashes_json hashes)"
    unfolding hashes_json_def using assms by (intro object_dumpable object_readable; simp add: ascii_words list_all_iff)+
  then obtain body where "dump fl (hashes_json hashes) = Inr body" "parse body = Inr (as_read (hashes_json hashes))"
    using sent_and_parsed by blast
  then show ?thesis by (simp add: hashes_json_def object_at get_vector_strings del: as_read.simps)
qed

lemma commit_sent:
  assumes "utf8 name" and "llong_range bytes" and "list_all utf8 hashes"
  shows "\<exists>body j v v'. dump fl (commit_json name bytes hashes) = Inr body \<and> parse body = Inr j \<and>
    json_at j ''filename'' = Inr (JString name) \<and> json_at j ''file_size'' = Inr v \<and> get_long_long v = Inr bytes \<and>
    json_at j ''chunk_hashes'' = Inr v' \<and> get_vector get_string v' = Inr hashes"
proof -
  have "dumpable (commit_json name bytes hashes)" "readable (commit_json name bytes hashes)"
    unfolding commit_json_def using assms by (intro object_dumpable object_readable; simp add: ascii_words list_all_iff)+
  then obtain body where "dump fl (commit_json name bytes hashes) = Inr body"
    "parse body = Inr (as_read (commit_json name bytes hashes))" using sent_and_parsed by blast
  moreover have "json_at (as_read (commit_json name bytes hashes)) ''filename'' = Inr (JString name)"
    by (simp add: commit_json_def object_at)
  moreover have "json_at (as_read (commit_json name bytes hashes)) ''file_size'' = Inr (as_read (JInteger bytes))"
    "json_at (as_read (commit_json name bytes hashes)) ''chunk_hashes'' = Inr (as_read (JArray (map JString hashes)))"
    by (simp_all add: commit_json_def object_at del: as_read.simps)
  ultimately show ?thesis using get_long_long_as_read [OF assms(2)] get_vector_strings [of hashes] by blast
qed

abbreviation with_master :: "master_env \<Rightarrow> 'w IMetadataRepository \<Rightarrow> 'w network" where
  "with_master menv R \<equiv> reliable (MasterServer menv R)"

lemma InitializeUpload_remote:
  assumes "in_session menv s u" and "list_all utf8 hashes" and "body_fits env (hashes_json hashes)"
  shows "op_FilterMissingChunks R hashes (remote s) = (Inr ps, w') \<Longrightarrow> list_all plan_sendable ps \<Longrightarrow>
      InitializeUpload env (with_master menv R) hashes s = (Inr ps, s\<lparr>remote := w'\<rparr>)"
    and "op_FilterMissingChunks R hashes (remote s) = (Inl e, w') \<Longrightarrow>
      \<exists>msg. InitializeUpload env (with_master menv R) hashes s = (Inl (RuntimeError msg), s\<lparr>remote := w'\<rparr>)"
proof -
  obtain body j v where sent: "dump (c_float env) (hashes_json hashes) = Inr body" "parse body = Inr j"
    "json_at j ''hashes'' = Inr v" "get_vector get_string v = Inr hashes" using hashes_sent [OF assms(2)] by blast
  let ?req = "\<lparr>req_method = ''POST'', req_path = ''/upload-init'', req_params = [], req_headers = bearer s, req_body = body\<rparr>"
  have "int (length body) \<le> master_payload_max" using assms(3) sent(1) by (simp add: body_fits_def)
  then have handler: "MasterServer menv R ?req (remote s) = run_handler (HandleUploadInit menv R ?req) (remote s)"
    by (intro master_handler(3)) simp_all
  have "plain_path ''/upload-init''" by (simp add: plain_path_def is_alnum_def code_def)
  then have call: "call_master env (with_master menv R) ''POST'' ''/upload-init'' body s =
      (case run_handler (HandleUploadInit menv R ?req) (remote s) of (r, w) \<Rightarrow> (Inr r, s\<lparr>remote := w\<rparr>))"
    using post_master [OF assms(1)] by (simp add: handler)
  note served = HandleUploadInit_served [of menv s u ?req j v hashes R "remote s" _ w', OF assms(1), simplified, OF sent(2-4)]
  {
    assume "op_FilterMissingChunks R hashes (remote s) = (Inr ps, w')" "list_all plan_sendable ps"
    from served(1) [OF this] obtain body' where
      "run_handler (HandleUploadInit menv R ?req) (remote s) = (Some (answer 200 body'), w')" "read_upload_plans body' = Inr ps" by blast
    then show "InitializeUpload env (with_master menv R) hashes s = (Inr ps, s\<lparr>remote := w'\<rparr>)"
      using sent(1) by (simp add: InitializeUpload_def hashes_json_def [symmetric] andthen_of_outcome andthen_Inr call of_outcome_apply)
  next
    assume "op_FilterMissingChunks R hashes (remote s) = (Inl e, w')"
    from served(2) [OF this] obtain r where
      "run_handler (HandleUploadInit menv R ?req) (remote s) = (r, w')" "\<not> answered_200 r" by blast
    then show "\<exists>msg. InitializeUpload env (with_master menv R) hashes s = (Inl (RuntimeError msg), s\<lparr>remote := w'\<rparr>)"
      using sent(1)
      by (cases r) (simp_all add: InitializeUpload_def hashes_json_def [symmetric] andthen_of_outcome andthen_Inr call throw_apply answered_200_def)
  }
qed

lemma CommitFile_remote:
  assumes "in_session menv s u" and "utf8 name" and "llong_range bytes" and "list_all utf8 hashes"
    and "body_fits env (commit_json name bytes hashes)"
    and "op_CommitFile R u name bytes hashes (remote s) = (x, w')"
  shows "CommitFile_call env (with_master menv R) name bytes hashes s = (Inr (x = Inr ()), s\<lparr>remote := w'\<rparr>)"
proof -
  obtain body j v v' where sent: "dump (c_float env) (commit_json name bytes hashes) = Inr body" "parse body = Inr j"
    "json_at j ''filename'' = Inr (JString name)" "json_at j ''file_size'' = Inr v" "get_long_long v = Inr bytes"
    "json_at j ''chunk_hashes'' = Inr v'" "get_vector get_string v' = Inr hashes" using commit_sent [OF assms(2-4)] by blast
  let ?req = "\<lparr>req_method = ''POST'', req_path = ''/files/commit'', req_params = [], req_headers = bearer s, req_body = body\<rparr>"
  have "int (length body) \<le> master_payload_max" using assms(5) sent(1) by (simp add: body_fits_def)
  then have handler: "MasterServer menv R ?req (remote s) = run_handler (HandleCommit menv R ?req) (remote s)"
    by (intro master_handler(4)) simp_all
  obtain r where "run_handler (HandleCommit menv R ?req) (remote s) = (r, w')" "answered_200 r \<longleftrightarrow> x = Inr ()"
    using HandleCommit_served [of menv s u ?req j name v bytes v' hashes R "remote s" x w', OF assms(1), simplified, OF sent(2-7) assms(6)] by blast
  moreover have "plain_path ''/files/commit''" by (simp add: plain_path_def is_alnum_def code_def)
  ultimately have "call_master env (with_master menv R) ''POST'' ''/files/commit'' body s = (Inr r, s\<lparr>remote := w'\<rparr>)"
    using post_master [OF assms(1)] by (simp add: handler)
  then show ?thesis using sent(1) \<open>answered_200 r \<longleftrightarrow> x = Inr ()\<close>
    by (cases r) (simp_all add: CommitFile_call_def andthen_of_outcome andthen_Inr ret_apply answered_200_def)
qed

lemma GetDownloadPlan_remote:
  assumes "in_session menv s u" and "name_fits name"
  shows "op_GetDownloadPlan R u name (remote s) = (Inr m, w') \<Longrightarrow> list_all plan_sendable (plans m) \<Longrightarrow> llong_range (file_size m) \<Longrightarrow>
      GetDownloadPlan_call env (with_master menv R) name s = (Inr m, s\<lparr>remote := w'\<rparr>)"
    and "op_GetDownloadPlan R u name (remote s) = (Inl e, w') \<Longrightarrow>
      \<exists>msg. GetDownloadPlan_call env (with_master menv R) name s = (Inl (RuntimeError msg), s\<lparr>remote := w'\<rparr>)"
proof -
  obtain req where req:
    "call_master env (with_master menv R) ''GET'' (''/files/download-plan'' @ ''?filename='' @ name) [] s =
      (case MasterServer menv R req (remote s) of (r, w) \<Rightarrow> (Inr r, s\<lparr>remote := w\<rparr>))"
    "req_method req = ''GET''" "req_path req = ''/files/download-plan''" "req_headers req = bearer s"
    "int (length (req_body req)) \<le> master_payload_max" "has_param ''filename'' req" "get_param_value ''filename'' req = name"
    using query_master [OF assms(1) _ _ assms(2), of "''/files/download-plan''" "''GET''"] by blast
  have call: "call_master env (with_master menv R) ''GET'' (''/files/download-plan?filename='' @ name) [] s =
      (case run_handler (HandleDownloadPlan menv R req) (remote s) of (r, w) \<Rightarrow> (Inr r, s\<lparr>remote := w\<rparr>))"
    using req(1) by (simp add: master_handler(5) [OF req(5,2,3)])
  note served = HandleDownloadPlan_served [OF assms(1) req(4,6,7)]
  {
    assume "op_GetDownloadPlan R u name (remote s) = (Inr m, w')" "list_all plan_sendable (plans m)" "llong_range (file_size m)"
    from served(1) [OF this] obtain body where
      "run_handler (HandleDownloadPlan menv R req) (remote s) = (Some (answer 200 body), w')" "read_manifest body = Inr m" by blast
    then show "GetDownloadPlan_call env (with_master menv R) name s = (Inr m, s\<lparr>remote := w'\<rparr>)"
      unfolding GetDownloadPlan_call_def by (subst andthen_Inr [where x = "Some (answer 200 body)"]) (simp_all add: call of_outcome_apply del: append.simps)
  next
    assume "op_GetDownloadPlan R u name (remote s) = (Inl e, w')"
    from served(2) [OF this] obtain r where
      "run_handler (HandleDownloadPlan menv R req) (remote s) = (r, w')" "\<not> answered_200 r" by blast
    then show "\<exists>msg. GetDownloadPlan_call env (with_master menv R) name s = (Inl (RuntimeError msg), s\<lparr>remote := w'\<rparr>)"
      unfolding GetDownloadPlan_call_def by (subst andthen_Inr [where x = r], simp add: call del: append.simps, cases r)
        (simp_all add: throw_apply answered_200_def)
  }
qed

lemma FileExists_remote:
  assumes "in_session menv s u" and "name_fits name" and "op_FileExists R u name (remote s) = (Inr b, w')"
  shows "FileExists_call env (with_master menv R) name s = (Inr b, s\<lparr>remote := w'\<rparr>)"
proof -
  obtain req where req:
    "call_master env (with_master menv R) ''GET'' (''/files/exists'' @ ''?filename='' @ name) [] s =
      (case MasterServer menv R req (remote s) of (r, w) \<Rightarrow> (Inr r, s\<lparr>remote := w\<rparr>))"
    "req_method req = ''GET''" "req_path req = ''/files/exists''" "req_headers req = bearer s"
    "int (length (req_body req)) \<le> master_payload_max" "has_param ''filename'' req" "get_param_value ''filename'' req = name"
    using query_master [OF assms(1) _ _ assms(2), of "''/files/exists''" "''GET''"] by blast
  obtain body j j' where "run_handler (HandleFileExists menv R req) (remote s) = (Some (answer 200 body), w')" "parse body = Inr j"
    "subscript j ''exists'' = Inr (JBool b, j')" using HandleFileExists_served [OF assms(1) req(4,6,7) assms(3)] by blast
  moreover have "call_master env (with_master menv R) ''GET'' (''/files/exists?filename='' @ name) [] s = (Inr (Some (answer 200 body)), s\<lparr>remote := w'\<rparr>)"
    using req(1) calculation(1) by (simp add: master_handler(9) [OF req(5,2,3)])
  ultimately show ?thesis
    unfolding FileExists_call_def by (subst andthen_Inr [where x = "Some (answer 200 body)"]) (simp_all add: of_outcome_apply get_bool_def)
qed

lemma RemoveFile_remote:
  assumes "in_session menv s u" and "name_fits name" and "op_DeleteFile R u name (remote s) = (Inr b, w')"
  shows "RemoveFile_call env (with_master menv R) name s = (Inr b, s\<lparr>remote := w'\<rparr>)"
proof -
  obtain req where req:
    "call_master env (with_master menv R) ''DELETE'' (''/files'' @ ''?filename='' @ name) [] s =
      (case MasterServer menv R req (remote s) of (r, w) \<Rightarrow> (Inr r, s\<lparr>remote := w\<rparr>))"
    "req_method req = ''DELETE''" "req_path req = ''/files''" "req_headers req = bearer s"
    "int (length (req_body req)) \<le> master_payload_max" "has_param ''filename'' req" "get_param_value ''filename'' req = name"
    using query_master [OF assms(1) _ _ assms(2), of "''/files''" "''DELETE''"] by blast
  obtain r where r: "run_handler (HandleDeleteFile menv R req) (remote s) = (Some r, w')" "res_status r = 200 \<longleftrightarrow> b"
    using HandleDeleteFile_served [OF assms(1) req(4,6,7) assms(3)] by blast
  then have "call_master env (with_master menv R) ''DELETE'' (''/files?filename='' @ name) [] s = (Inr (Some r), s\<lparr>remote := w'\<rparr>)"
    using req(1) by (simp add: master_handler(10) [OF req(5,2,3)])
  then show ?thesis
    unfolding RemoveFile_call_def by (subst andthen_Inr [where x = "Some r"]) (simp_all add: ret_apply r(2))
qed

lemma in_session_remote [simp]: "in_session menv (s\<lparr>remote := w\<rparr>) u \<longleftrightarrow> in_session menv s u"
  by (simp add: in_session_def)


text \<open>C4: Uploading through the client is uploading at the repository: over a network that delivers, a negotiation
  and the commit that follows it, made by the HTTP client with the token of a user, return what the master's
  repository returns for that user and leave the repository as its own operations would.\<close>

theorem upload_calls_reach_repository:
  assumes "in_session menv s u" and "list_all utf8 hashes" and "utf8 name" and "llong_range bytes"
    and "body_fits env (hashes_json hashes)" and "body_fits env (commit_json name bytes hashes)"
    and "op_FilterMissingChunks R hashes (remote s) = (Inr ps, wa)" and "list_all plan_sendable ps"
    and "op_CommitFile R u name bytes hashes wa = (x, wb)"
  shows "InitializeUpload env (with_master menv R) hashes s = (Inr ps, s\<lparr>remote := wa\<rparr>) \<and>
    CommitFile_call env (with_master menv R) name bytes hashes (s\<lparr>remote := wa\<rparr>) = (Inr (x = Inr ()), s\<lparr>remote := wb\<rparr>)"
  using InitializeUpload_remote(1) [OF assms(1,2,5,7,8)] CommitFile_remote [where s = "s\<lparr>remote := wa\<rparr>", OF _ assms(3,4,2,6), where R = R and x = x and w' = wb]
    assms(1,9) by simp

text \<open>C16: The calls that put a name into their target reach the repository under that name when it is one that
  survives the query: looking a file up, planning its download and deleting it return what the repository returns
  for the session's user.\<close>

theorem name_calls_reach_repository:
  assumes "in_session menv s u" and "name_fits name"
    and "op_FileExists R u name (remote s) = (Inr b, wa)"
    and "op_GetDownloadPlan R u name wa = (Inr m, wb)" and "list_all plan_sendable (plans m)" and "llong_range (file_size m)"
    and "op_DeleteFile R u name wb = (Inr d, wc)"
  shows "FileExists_call env (with_master menv R) name s = (Inr b, s\<lparr>remote := wa\<rparr>) \<and>
    GetDownloadPlan_call env (with_master menv R) name (s\<lparr>remote := wa\<rparr>) = (Inr m, s\<lparr>remote := wb\<rparr>) \<and>
    RemoveFile_call env (with_master menv R) name (s\<lparr>remote := wb\<rparr>) = (Inr d, s\<lparr>remote := wc\<rparr>)"
  using FileExists_remote [OF assms(1,2,3)]
    GetDownloadPlan_remote(1) [where s = "s\<lparr>remote := wa\<rparr>", OF _ assms(2), where R = R and m = m and w' = wb]
    RemoveFile_remote [where s = "s\<lparr>remote := wb\<rparr>", OF _ assms(2), where R = R and b = d and w' = wc]
    assms(1,4-7) by simp

section \<open>An example\<close>

definition sample_client_env :: client_env where
  "sample_client_env = \<lparr>c_ossl = sample_ossl, c_float = (\<lambda>_. []), master_url = ''http://localhost:80'', home_directory = ''/home/u''\<rparr>"

definition still_answers :: os_answers where
  "still_answers = \<lparr>meddling = (\<lambda>_ fs. fs), refused = (\<lambda>_. False), transfer_state = (\<lambda>_. RUNNING), system_clock = (\<lambda>_. 5000),
     write_clock = (\<lambda>_. 7), thread_schedule = (\<lambda>_. [])\<rparr>"

definition sample_client :: "'w \<Rightarrow> 'w client" where
  "sample_client w = \<lparr>local_files = (\<lambda>_. None), file_stream = None, auth_token = GenerateSessionToken sample_ossl 1000 1 ''s'',
     remote = w, os_answer = still_answers, moment = 0\<rparr>"

definition world_over :: "db \<Rightarrow> nat \<Rightarrow> pg_world" where
  "world_over d n = \<lparr>tables = d, server = (\<lambda>k. sample_pg (int k)), turn = n\<rparr>"

lemma sample_session: "in_session sample_env (sample_client w) 1"
proof -
  have "VerifySessionToken sample_ossl 1000 (GenerateSessionToken sample_ossl 1000 1 ''s'') ''s'' = Some 1"
    "is_field_value (''Bearer '' @ GenerateSessionToken sample_ossl 1000 1 ''s'')"
    by code_simp+
  then show ?thesis by (simp add: in_session_def sample_client_def sample_env_def)
qed

lemma sample_turn: "f (sample_pg (int n)) d = (r, d') \<Longrightarrow> in_turn f (world_over d n) = (r, world_over d' (Suc n))"
  by (simp add: in_turn_def world_over_def now_def after_turn_def)

lemma utf8_hashes: "list_all utf8 [hash_a, hash_b, hash_a]"
  using ascii_utf8 by (simp add: hash_a_def hash_b_def ascii_def code_def)

lemma body_fits_short:
  "(case dump (c_float env) j of Inl e \<Rightarrow> True | Inr b \<Rightarrow> length b \<le> 400) \<Longrightarrow> body_fits env j"
  by (auto simp: body_fits_def master_payload_max_def)

lemma upload_calls_reach_repository_witness:
  "InitializeUpload sample_client_env (with_master sample_env (PostgresRepository 2)) [hash_a, hash_b, hash_a]
     (sample_client (world_over run_user 4)) =
   (Inr (map (\<lambda>h. \<lparr>plan_hash = h, assigned_nodes = [\<lparr>advertised_host = ''127.0.0.1'', advertised_port = 9001\<rparr>]\<rparr>)
      [hash_a, hash_b, hash_a]), sample_client (world_over run_init 5))"
proof -
  have "op_FilterMissingChunks (PostgresRepository 2) [hash_a, hash_b, hash_a] (world_over run_user 4) =
    (Inr (map (\<lambda>h. \<lparr>plan_hash = h, assigned_nodes = [\<lparr>advertised_host = ''127.0.0.1'', advertised_port = 9001\<rparr>]\<rparr>)
      [hash_a, hash_b, hash_a]), world_over run_init 5)"
    using sample_turn [of "\<lambda>pg. FilterMissingChunks pg 2 [hash_a, hash_b, hash_a]" 4] run_negotiation
    by (simp add: PostgresRepository_def run_init_eq)
  moreover have "op_CommitFile (PostgresRepository 2) 1 ''f'' 3000000 [hash_a, hash_b, hash_a] (world_over run_init 5) =
    (Inr (), world_over run_commit 6)"
    using sample_turn [of "\<lambda>pg. CommitFile pg 1 ''f'' 3000000 [hash_a, hash_b, hash_a]" 5] run_commit_result
    by (simp add: PostgresRepository_def)
  moreover have "body_fits sample_client_env (hashes_json [hash_a, hash_b, hash_a])"
    "body_fits sample_client_env (commit_json ''f'' 3000000 [hash_a, hash_b, hash_a])"
    by (rule body_fits_short, code_simp)+
  moreover have "utf8 ''f''" "utf8 ''127.0.0.1''" by (rule ascii_utf8, simp add: ascii_def code_def)+
  moreover have "list_all plan_sendable (map (\<lambda>h. \<lparr>plan_hash = h, assigned_nodes = [\<lparr>advertised_host = ''127.0.0.1'', advertised_port = 9001\<rparr>]\<rparr>)
      [hash_a, hash_b, hash_a])"
    using utf8_hashes calculation(6) by (simp add: plan_sendable_def node_sendable_def int_range_def)
  moreover have "llong_range 3000000" by (simp add: llong_range_def)
  moreover have "remote (sample_client w) = w" "(sample_client w)\<lparr>remote := w'\<rparr> = sample_client w'" for w w' :: pg_world
    by (simp_all add: sample_client_def)
  ultimately show ?thesis
    using upload_calls_reach_repository [where s = "sample_client (world_over run_user 4)" and env = sample_client_env and
        R = "PostgresRepository 2" and name = "''f''" and bytes = 3000000 and wa = "world_over run_init 5" and x = "Inr ()" and
        wb = "world_over run_commit 6", OF sample_session utf8_hashes] by simp
qed

lemma name_fits_f: "name_fits ''f''"
proof -
  have "length (sent_target (with_param p ''filename'' ''f'')) \<le> 60" if "p \<in> {''/files/download-plan'', ''/files/exists'', ''/files''}" for p
    using that by (elim insertE emptyE) (simp only:, code_simp)+
  moreover have "query_plain ''f''" by code_simp
  ultimately show ?thesis by (fastforce simp: name_fits_def max_uri_def)
qed

lemma name_calls_reach_repository_witness:
  "FileExists_call sample_client_env (with_master sample_env (PostgresRepository 2)) ''f'' (sample_client (world_over run_commit 6)) =
     (Inr True, sample_client (world_over run_commit 7))"
proof -
  let ?R = "PostgresRepository 2"
  have "FileExists (sample_pg 6) 1 ''f'' run_commit = (Inr True, run_commit)" unfolding run_commit_eq by code_simp
  then have exists: "op_FileExists ?R 1 ''f'' (world_over run_commit 6) = (Inr True, world_over run_commit 7)"
    using sample_turn [of "\<lambda>pg. FileExists pg 1 ''f''" 6] by (simp add: PostgresRepository_def)
  define m where "m = fst (GetDownloadPlan (sample_pg 7) 1 ''f'' run_commit)"
  have "m = Inr \<lparr>file_size = 3000000, plans = map (\<lambda>h. \<lparr>plan_hash = h, assigned_nodes = [\<lparr>advertised_host = ''127.0.0.1'', advertised_port = 9001\<rparr>]\<rparr>)
      [hash_a, hash_b, hash_a]\<rparr>" (is "m = Inr ?m") unfolding m_def run_commit_eq by code_simp
  moreover have "snd (GetDownloadPlan (sample_pg 7) 1 ''f'' run_commit) = run_commit" unfolding run_commit_eq by code_simp
  ultimately have plan: "op_GetDownloadPlan ?R 1 ''f'' (world_over run_commit 7) = (Inr ?m, world_over run_commit 8)"
    using sample_turn [of "\<lambda>pg. GetDownloadPlan pg 1 ''f''" 7] by (simp add: PostgresRepository_def m_def prod_eq_iff)
  have "DeleteFile (sample_pg 8) 1 ''f'' run_commit = (Inr True, run_delete)"
    unfolding run_delete_eq run_commit_eq by code_simp
  then have del: "op_DeleteFile ?R 1 ''f'' (world_over run_commit 8) = (Inr True, world_over run_delete 9)"
    using sample_turn [of "\<lambda>pg. DeleteFile pg 1 ''f''" 8] by (simp add: PostgresRepository_def)
  note name_fits_f
  moreover have "utf8 ''127.0.0.1''" by (rule ascii_utf8, simp add: ascii_def code_def)
  then have "list_all plan_sendable (plans ?m)" "llong_range (file_size ?m)"
    using utf8_hashes by (simp_all add: plan_sendable_def node_sendable_def int_range_def llong_range_def)
  moreover have "remote (sample_client w) = w" "(sample_client w)\<lparr>remote := w'\<rparr> = sample_client w'" for w w' :: pg_world
    by (simp_all add: sample_client_def)
  ultimately show ?thesis
    using name_calls_reach_repository [where s = "sample_client (world_over run_commit 6)" and name = "''f''" and R = ?R and
        wa = "world_over run_commit 7" and b = True and m = ?m and wb = "world_over run_commit 8" and d = True and
        wc = "world_over run_delete 9", OF sample_session] exists plan del by simp
qed

end
