(* ===== verification/DSE_Client.thy ===== *)
theory DSE_Client
  imports Download_Manager Metadata_Client
begin

text \<open>
  \<^verbatim>\<open>client/DSEClient.cpp\<close>: the operations behind the commands, made of the slicer, the
  metadata client, the transfer manager and the state manager. The size of a chunk, one constant of
  1 MiB in both transfers, is an argument here; measuring and printing are left out.
\<close>

section \<open>The object\<close>

record 'w DSEClient =
  dse_slicer :: "'w client IFileSlicer"
  dse_metadata :: "'w client IMetadataClient"
  dse_transfer :: "'w client ITransferManager"
  dse_state :: "'w client ILocalStateManager"

definition subsystems :: "client_env \<Rightarrow> 'w network \<Rightarrow> 'w DSEClient" where
  "subsystems env net =
     (let crypto_engine = OpenSSLCryptoEngine (c_ossl env)
      in \<lparr>dse_slicer = LocalFileSlicer crypto_engine, dse_metadata = MasterHttpClient env net,
          dse_transfer = ParallelTransferManager net crypto_engine, dse_state = LocalStateManager env\<rparr>)"

lemma subsystem_ops [simp]:
  "sl_ComputeHashes (dse_slicer (subsystems env net)) = ComputeHashes (OpenSSLCryptoEngine (c_ossl env))"
  "dse_slicer (subsystems env net) = LocalFileSlicer (OpenSSLCryptoEngine (c_ossl env))"
  "dse_state (subsystems env net) = LocalStateManager env"
  "mc_FileExists (dse_metadata (subsystems env net)) = FileExists_call env net"
  "mc_InitializeUpload (dse_metadata (subsystems env net)) = InitializeUpload env net"
  "mc_CommitFile (dse_metadata (subsystems env net)) = CommitFile_call env net"
  "mc_GetDownloadPlan (dse_metadata (subsystems env net)) = GetDownloadPlan_call env net"
  "mc_RemoveFile (dse_metadata (subsystems env net)) = RemoveFile_call env net"
  "mc_Login (dse_metadata (subsystems env net)) = Login_call env net"
  "mc_CreateUser (dse_metadata (subsystems env net)) = CreateUser_call env net"
  "mc_SetAuthToken (dse_metadata (subsystems env net)) = SetAuthToken"
  "tm_Upload (dse_transfer (subsystems env net)) = Upload net"
  "tm_DownloadToFile (dse_transfer (subsystems env net)) = DownloadToFile net (OpenSSLCryptoEngine (c_ossl env))"
  by (simp_all add: subsystems_def MasterHttpClient_def ParallelTransferManager_def LocalFileSlicer_def Let_def)

lemma state_ops [simp]:
  "sm_HasActiveUpload (LocalStateManager env) = HasActiveUpload env" "sm_LoadUploadManifest (LocalStateManager env) = LoadUploadManifest env"
  "sm_SaveUploadManifest (LocalStateManager env) = SaveUploadManifest env" "sm_DeleteUploadManifest (LocalStateManager env) = DeleteUploadManifest env"
  "sm_SaveAuthToken (LocalStateManager env) = SaveAuthToken env" "sm_LoadAuthToken (LocalStateManager env) = LoadAuthToken env"
  by (simp_all add: LocalStateManager_def)

definition new_DSEClient :: "client_env \<Rightarrow> 'w network \<Rightarrow> ('w client, 'w DSEClient) action" where
  "new_DSEClient env net =
     (let c = subsystems env net
      in andthen (sm_LoadAuthToken (dse_state c)) (\<lambda>saved_token.
         andthen (if saved_token \<noteq> [] then mc_SetAuthToken (dse_metadata c) saved_token else ret ()) (\<lambda>_. ret c)))"

definition CHUNK_SIZE :: nat where
  "CHUNK_SIZE = 1024 * 1024"

text \<open>The value of a call, or \<open>None\<close> when it throws what a handler of standard exceptions catches.\<close>

definition attempt :: "('s, 'a) action \<Rightarrow> ('s, 'a option) action" where
  "attempt m = try_catch (andthen m (\<lambda>x. ret (Some x))) (\<lambda>_. ret None)"

text \<open>\<^verbatim>\<open>std::filesystem::rename\<close> throws what the command line catches as a standard exception.\<close>

definition fs_rename :: "string \<Rightarrow> string \<Rightarrow> ('w client, unit) action" where
  "fs_rename old new =
     andthen next_call (\<lambda>works s.
     case local_files s old of
       Some f \<Rightarrow> if works then (Inr (), s\<lparr>local_files := (local_files s)(old := None, new \<mapsto> f)\<rparr>)
                else (Inl (RuntimeError ''filesystem error: cannot rename''), s)
     | None \<Rightarrow> (Inl (RuntimeError ''filesystem error: cannot rename''), s))"

lemma quiet_size: "quiet s \<Longrightarrow> fs_file_size p s = (Inr (map_option (int \<circ> length) (content_at s p)), passed s)"
  by (simp add: fs_file_size_def andthen_Inr quiet_call get_def content_at_def option.map_comp comp_def)

lemma quiet_time: "quiet s \<Longrightarrow> fs_last_write_time p s = (Inr (map_option write_time (local_files s p)), passed s)"
  by (simp add: fs_last_write_time_def andthen_Inr quiet_call get_def)

section \<open>Accounts\<close>

definition Signup :: "'w DSEClient \<Rightarrow> string \<Rightarrow> string \<Rightarrow> ('w client, bool) action" where
  "Signup c e_mail password = mc_CreateUser (dse_metadata c) e_mail password"

definition Login :: "'w DSEClient \<Rightarrow> string \<Rightarrow> string \<Rightarrow> ('w client, bool) action" where
  "Login c e_mail password =
     andthen (mc_Login (dse_metadata c) e_mail password) (\<lambda>token.
     if token \<noteq> [] then
       andthen (mc_SetAuthToken (dse_metadata c) token) (\<lambda>_.
       andthen (sm_SaveAuthToken (dse_state c) token) (\<lambda>_. ret True))
     else ret False)"

section \<open>Upload\<close>

text \<open>The check before anything else; an exception during it ends the upload as a taken name does.\<close>

definition name_taken :: "'w DSEClient \<Rightarrow> string \<Rightarrow> ('w client, bool) action" where
  "name_taken c p =
     andthen (attempt (mc_FileExists (dse_metadata c) (path_filename p))) (\<lambda>r. ret (r \<noteq> Some False))"

definition session_lifetime :: int where
  "session_lifetime = 82800"

definition resume_or_restart :: "'w DSEClient \<Rightarrow> string \<Rightarrow> int \<Rightarrow> int \<Rightarrow> int \<Rightarrow> ('w client, UploadManifest) action" where
  "resume_or_restart c p initial_size actual_modified_time current_sys_time =
     andthen (sm_HasActiveUpload (dse_state c) p) (\<lambda>active.
     if \<not> active then ret new_UploadManifest
     else andthen (sm_LoadUploadManifest (dse_state c) p) (\<lambda>manifest.
       let file_modified = (total_size manifest \<noteq> to_llong initial_size \<or> temp_modified_timestamp manifest \<noteq> actual_modified_time);
           gc_expired = (current_sys_time - session_timestamp manifest > session_lifetime)
       in if file_modified \<or> gc_expired then andthen (sm_DeleteUploadManifest (dse_state c) p) (\<lambda>_. ret new_UploadManifest)
          else ret manifest))"

definition blueprint ::
    "nat \<Rightarrow> 'w DSEClient \<Rightarrow> string \<Rightarrow> int \<Rightarrow> int \<Rightarrow> int \<Rightarrow> UploadManifest \<Rightarrow> ('w client, UploadManifest option) action" where
  "blueprint chunk_size c p initial_size actual_modified_time current_sys_time manifest =
     (if chunk_hashes manifest \<noteq> [] then ret (Some manifest)
      else andthen (attempt (sl_ComputeHashes (dse_slicer c) p chunk_size)) (\<lambda>r.
        case r of
          None \<Rightarrow> ret None
        | Some hashes \<Rightarrow>
            let manifest = manifest\<lparr>filepath := p, total_size := to_llong initial_size, temp_modified_timestamp := actual_modified_time,
                  session_timestamp := current_sys_time, chunk_hashes := hashes, completed_chunks := replicate (length hashes) False\<rparr>
            in andthen (sm_SaveUploadManifest (dse_state c) manifest) (\<lambda>_. ret (Some manifest))))"

text \<open>The two pointers over the hashes of the file and the plans of the master.\<close>

fun correlate :: "bool list \<Rightarrow> nat \<Rightarrow> string list \<Rightarrow> ChunkRoutingPlan list \<Rightarrow> (int \<times> ChunkRoutingPlan) list" where
  "correlate completed i (h # hs) (plan # ps) =
     (if h = plan_hash plan then
        (if \<not> completed ! i then [(to_int32 (int i), plan)] else []) @ correlate completed (i + 1) hs ps
      else correlate completed (i + 1) hs (plan # ps))"
| "correlate completed i _ _ = []"

text \<open>
  The file is compared by size and time. The error code that counts is that of the second call; a size
  that cannot be had is the largest number of its type.
\<close>

definition unchanged :: "string \<Rightarrow> int \<Rightarrow> int \<Rightarrow> ('w client, bool) action" where
  "unchanged p initial_size actual_modified_time =
     andthen (fs_file_size p) (\<lambda>current_size.
     andthen (fs_last_write_time p) (\<lambda>current_write_time.
     ret (current_write_time = Some actual_modified_time \<and>
          (case current_size of None \<Rightarrow> 2 ^ 64 - 1 | Some n \<Rightarrow> n) = initial_size)))"

definition send_pending :: "nat \<Rightarrow> 'w DSEClient \<Rightarrow> string \<Rightarrow> (int \<times> ChunkRoutingPlan) list \<Rightarrow> ('w client, bool) action" where
  "send_pending chunk_size c p pending_tasks =
     (if pending_tasks \<noteq> []
      then tm_Upload (dse_transfer c) (dse_slicer c) (dse_state c) p chunk_size pending_tasks
      else ret True)"

definition transfer_and_commit ::
    "nat \<Rightarrow> 'w DSEClient \<Rightarrow> string \<Rightarrow> int \<Rightarrow> int \<Rightarrow> UploadManifest \<Rightarrow> ('w client, bool) action" where
  "transfer_and_commit chunk_size c p initial_size actual_modified_time manifest =
     andthen (attempt (mc_InitializeUpload (dse_metadata c) (chunk_hashes manifest))) (\<lambda>r.
     case r of
       None \<Rightarrow> ret False
     | Some upload_plans \<Rightarrow>
         let pending_tasks = correlate (completed_chunks manifest) 0 (chunk_hashes manifest) upload_plans
         in andthen (unchanged p initial_size actual_modified_time) (\<lambda>same.
            if \<not> same then ret False
            else andthen (send_pending chunk_size c p pending_tasks) (\<lambda>transfer_success.
              if \<not> transfer_success then ret False
              else andthen (unchanged p initial_size actual_modified_time) (\<lambda>same.
                if \<not> same then ret False
                else andthen (mc_CommitFile (dse_metadata c) (path_filename p) (to_llong initial_size) (chunk_hashes manifest)) (\<lambda>commit_success.
                  if commit_success then andthen (sm_DeleteUploadManifest (dse_state c) p) (\<lambda>_. ret True)
                  else ret False)))))"

definition UploadFile :: "nat \<Rightarrow> 'w DSEClient \<Rightarrow> string \<Rightarrow> ('w client, bool) action" where
  "UploadFile chunk_size c p =
     andthen (name_taken c p) (\<lambda>taken.
     if taken then ret False
     else andthen (fs_file_size p) (\<lambda>size_found.
       case size_found of
         None \<Rightarrow> ret False
       | Some initial_size \<Rightarrow>
           andthen (fs_last_write_time p) (\<lambda>time_found.
           case time_found of
             None \<Rightarrow> ret False
           | Some actual_modified_time \<Rightarrow>
               andthen now_seconds (\<lambda>current_sys_time.
               andthen (resume_or_restart c p initial_size actual_modified_time current_sys_time) (\<lambda>manifest.
               andthen (blueprint chunk_size c p initial_size actual_modified_time current_sys_time manifest) (\<lambda>r.
               case r of
                 None \<Rightarrow> ret False
               | Some manifest \<Rightarrow> transfer_and_commit chunk_size c p initial_size actual_modified_time manifest))))))"

section \<open>Download\<close>

fun chunk_metas :: "nat \<Rightarrow> int \<Rightarrow> ChunkRoutingPlan list \<Rightarrow> DownloadChunkMeta list" where
  "chunk_metas chunk_size bytes_remaining [] = []"
| "chunk_metas chunk_size bytes_remaining (plan # ps) =
     (if bytes_remaining \<ge> int chunk_size
      then \<lparr>meta_hash = plan_hash plan, meta_size = chunk_size\<rparr> # chunk_metas chunk_size (bytes_remaining - int chunk_size) ps
      else \<lparr>meta_hash = plan_hash plan, meta_size = to_size_t bytes_remaining\<rparr> # chunk_metas chunk_size 0 ps)"

definition temp_path :: "string \<Rightarrow> string" where
  "temp_path output_path = output_path @ ''.dse_download''"

text \<open>What is left of a download that did not complete.\<close>

definition leave_download :: "string \<Rightarrow> ('w client, bool) action" where
  "leave_download temp =
     andthen load_state (\<lambda>st.
     if st = CANCELED then andthen (fs_remove temp) (\<lambda>_. ret False)
     else andthen load_state (\<lambda>_. ret False))"

definition DownloadFile :: "nat \<Rightarrow> 'w DSEClient \<Rightarrow> string \<Rightarrow> string \<Rightarrow> ('w client, bool) action" where
  "DownloadFile chunk_size c name output_path =
     andthen (attempt (mc_GetDownloadPlan (dse_metadata c) name)) (\<lambda>r.
     case r of
       None \<Rightarrow> ret False
     | Some manifest \<Rightarrow>
         andthen (attempt (tm_DownloadToFile (dse_transfer c) (chunk_metas chunk_size (file_size manifest) (plans manifest))
                             (plans manifest) (temp_path output_path))) (\<lambda>r.
         case r of
           None \<Rightarrow> ret False
         | Some download_completed \<Rightarrow>
             if download_completed then andthen (fs_rename (temp_path output_path) output_path) (\<lambda>_. ret True)
             else leave_download (temp_path output_path)))"

section \<open>Removal\<close>

definition RemoveFile :: "'w DSEClient \<Rightarrow> string \<Rightarrow> ('w client, bool) action" where
  "RemoveFile c name = andthen (attempt (mc_RemoveFile (dse_metadata c) name)) (\<lambda>r. ret (r = Some True))"


section \<open>The tasks of an upload\<close>

text \<open>Reference: the indices whose hash is missing, paired with the plans in order, without those completed.\<close>

definition tasks_due :: "(string \<Rightarrow> bool) \<Rightarrow> bool list \<Rightarrow> nat \<Rightarrow> string list \<Rightarrow> ChunkRoutingPlan list \<Rightarrow> (int \<times> ChunkRoutingPlan) list" where
  "tasks_due needed completed i hashes ps =
     map (\<lambda>(k, plan). (int k, plan)) (filter (\<lambda>(k, plan). \<not> completed ! k)
       (zip (map fst (filter (\<lambda>(k, h). needed h) (enumerate i hashes))) ps))"

lemma correlate_Nil [simp]: "correlate completed i hs [] = []"
  by (cases hs) simp_all

lemma correlate_due:
  "map plan_hash ps = filter needed hs \<Longrightarrow> int i + int (length hs) \<le> 2 ^ 31 \<Longrightarrow>
     correlate completed i hs ps = tasks_due needed completed i hs ps"
proof (induction hs arbitrary: i ps)
  case Nil
  then show ?case by (simp add: tasks_due_def)
next
  case (Cons h hs)
  have wide: "int (Suc i) + int (length hs) \<le> 2 ^ 31" "to_int32 (int i) = int i"
    using Cons.prems(2) by (auto intro!: to_int32_id simp: int_range_def)
  show ?case
  proof (cases "needed h")
    case True
    then obtain plan qs where ps: "ps = plan # qs" "plan_hash plan = h" "map plan_hash qs = filter needed hs"
      using Cons.prems(1) by auto
    then show ?thesis using Cons.IH [OF ps(3) wide(1)] True wide(2) by (simp add: tasks_due_def)
  next
    case False
    then have rest: "map plan_hash ps = filter needed hs" using Cons.prems(1) by simp
    have "correlate completed i (h # hs) ps = correlate completed (Suc i) hs ps"
    proof (cases ps)
      case (Cons plan qs)
      then have "plan_hash plan \<in> set (filter needed hs)" using rest by (metis list.set_intros(1) list.simps(9))
      then have "h \<noteq> plan_hash plan" using False by auto
      then show ?thesis using Cons by simp
    qed simp
    then show ?thesis using Cons.IH [OF rest wide(1)] False by (simp add: tasks_due_def)
  qed
qed

lemma chunk_metas_hashes: "map meta_hash (chunk_metas n b ps) = map plan_hash ps"
  by (induction ps arbitrary: b) simp_all

text \<open>The sizes that the client computes are those of the chunks of a file of that size.\<close>

lemma chunk_metas_sizes:
  "0 < n \<Longrightarrow> length ps = length (read_chunks n content) \<Longrightarrow> int (length content) < 2 ^ 63 \<Longrightarrow>
     map meta_size (chunk_metas n (int (length content)) ps) = map length (read_chunks n content)"
proof (induction n content arbitrary: ps rule: read_chunks.induct)
  case (1 n s)
  show ?case
  proof (cases "s = []")
    case False
    then obtain plan qs where ps: "ps = plan # qs" "length qs = length (read_chunks n (drop n s))"
      using 1(2,3) by (cases ps) (auto simp: read_chunks_step)
    have IH: "map meta_size (chunk_metas n (int (length (drop n s))) qs) = map length (read_chunks n (drop n s))"
      using 1(1) [OF _ 1(2) ps(2)] False 1(2,4) by simp
    show ?thesis
    proof (cases "n \<le> length s")
      case True
      then have "int (length s) - int n = int (length (drop n s))" by simp
      then show ?thesis using IH True False 1(2) ps(1) by (simp add: read_chunks_step)
    next
      case short: False
      then have "qs = []" "drop n s = []" using ps(2) by simp_all
      moreover have "to_size_t (int (length s)) = length s" using 1(4) by (simp add: to_size_t_id)
      ultimately show ?thesis using short False 1(2) ps(1) by (simp add: read_chunks_step)
    qed
  qed (use 1(3) in simp)
qed

end
