(* ===== verification/Upload_Session.thy ===== *)
theory Upload_Session
  imports DSE_Client
begin

text \<open>
  What the client relies on of the master: a catalogue of files, seen through the calls of the
  metadata client. On it rests the main promise of the client: a file that was uploaded comes back.
\<close>

section \<open>Calls that only reach the network\<close>

named_theorems remote_intros "actions that change nothing on the machine"

definition remote_only :: "('w client, 'a) action \<Rightarrow> bool" where
  "remote_only m \<longleftrightarrow> (\<forall>s r s'. m s = (r, s') \<longrightarrow> (\<exists>w. s' = s\<lparr>remote := w\<rparr>))"

lemma remote_onlyD: "remote_only m \<Longrightarrow> m s = (r, s') \<Longrightarrow> \<exists>w. s' = s\<lparr>remote := w\<rparr>"
  by (simp add: remote_only_def)

lemma remote_self [simp]: "\<exists>w. s = s\<lparr>remote := w\<rparr>"
  by (rule exI [of _ "remote s"]) simp

lemma remote_basic [remote_intros]:
  "remote_only (ret x)" "remote_only (throw e)" "remote_only (get f)" "remote_only (of_outcome oc)"
  "remote_only (http_call net url m target headers body)"
  by (auto simp: remote_only_def ret_def throw_def get_def of_outcome_def http_call_def split: prod.splits)

lemma remote_andthen [remote_intros]:
  "remote_only m \<Longrightarrow> (\<And>x. remote_only (f x)) \<Longrightarrow> remote_only (andthen m f)"
  unfolding remote_only_def andthen_def by (fastforce split: prod.splits sum.splits)

lemma remote_if [remote_intros]: "(b \<Longrightarrow> remote_only m) \<Longrightarrow> (\<not> b \<Longrightarrow> remote_only m') \<Longrightarrow> remote_only (if b then m else m')"
  by simp

lemma remote_option [remote_intros]:
  "(x = None \<Longrightarrow> remote_only m) \<Longrightarrow> (\<And>y. x = Some y \<Longrightarrow> remote_only (f y)) \<Longrightarrow> remote_only (case x of None \<Rightarrow> m | Some y \<Rightarrow> f y)"
  by (cases x) simp_all

lemma remote_calls [remote_intros]:
  "remote_only (FileExists_call env net name)" "remote_only (InitializeUpload env net hashes)"
  "remote_only (CommitFile_call env net name bytes hashes)" "remote_only (GetDownloadPlan_call env net name)"
  unfolding FileExists_call_def InitializeUpload_def CommitFile_call_def GetDownloadPlan_call_def call_master_def
  by (rule remote_intros | simp)+

lemma attempt_Some: "attempt m s = (Inr (Some x), s') \<longleftrightarrow> m s = (Inr x, s')"
  by (auto simp: attempt_def try_catch_def andthen_def ret_def split: prod.splits sum.splits if_splits)

lemma attempt_Inr: "attempt m s = (Inr y, s') \<Longrightarrow> \<exists>r. m s = (r, s')"
  by (auto simp: attempt_def try_catch_def andthen_def ret_def split: prod.splits sum.splits if_splits)

section \<open>Runs that return true\<close>

lemma transfer_and_commit_True:
  assumes "transfer_and_commit n c p b t m s = (Inr True, s')"
  shows "\<exists>ps s1 s2 s3 s4 s5 u. mc_InitializeUpload (dse_metadata c) (chunk_hashes m) s = (Inr ps, s1) \<and>
    unchanged p b t s1 = (Inr True, s2) \<and>
    send_pending n c p (correlate (completed_chunks m) 0 (chunk_hashes m) ps) s2 = (Inr True, s3) \<and>
    unchanged p b t s3 = (Inr True, s4) \<and>
    mc_CommitFile (dse_metadata c) (path_filename p) (to_llong b) (chunk_hashes m) s4 = (Inr True, s5) \<and>
    sm_DeleteUploadManifest (dse_state c) p s5 = (Inr u, s')"
  using assms unfolding transfer_and_commit_def
  by (auto simp: andthen_eq_Inr attempt_Some Let_def ret_eq_Inr split: option.splits if_splits)

lemma UploadFile_True:
  assumes "UploadFile n c p s = (Inr True, s')"
  shows "\<exists>s1 b s2 t s3 m0 s4 m s5. name_taken c p s = (Inr False, s1) \<and> fs_file_size p s1 = (Inr (Some b), s2) \<and>
    fs_last_write_time p s2 = (Inr (Some t), s3) \<and>
    resume_or_restart c p b t (system_clock (os_answer s3) (moment s3)) s3 = (Inr m0, s4) \<and>
    blueprint n c p b t (system_clock (os_answer s3) (moment s3)) m0 s4 = (Inr (Some m), s5) \<and>
    transfer_and_commit n c p b t m s5 = (Inr True, s')"
  using assms unfolding UploadFile_def now_seconds_def
  by (auto simp: andthen_eq_Inr andthen_get get_eq_Inr ret_eq_Inr split: option.splits if_splits) 

lemma DownloadFile_True:
  assumes "DownloadFile n c name out s = (Inr True, s')"
  shows "\<exists>m s1 s2 u. mc_GetDownloadPlan (dse_metadata c) name s = (Inr m, s1) \<and>
    tm_DownloadToFile (dse_transfer c) (chunk_metas n (file_size m) (plans m)) (plans m) (temp_path out) s1 = (Inr True, s2) \<and>
    fs_rename (temp_path out) out s2 = (Inr u, s')"
  using assms unfolding DownloadFile_def leave_download_def
  by (auto simp: andthen_eq_Inr attempt_Some ret_eq_Inr split: option.splits if_splits)

section \<open>The contract of the catalogue\<close>

locale file_catalog =
  fixes net :: "'w network"
    and env :: client_env
    and catalog :: "'w \<Rightarrow> 'c"
    and in_use :: "string \<Rightarrow> 'c \<Rightarrow> bool"
    and sendable :: "string \<Rightarrow> int \<Rightarrow> string list \<Rightarrow> bool"
    and addressable :: "string \<Rightarrow> bool"
    and free_name :: "'c \<Rightarrow> string \<Rightarrow> bool"
    and known :: "'c \<Rightarrow> string list \<Rightarrow> bool"
    and recorded :: "'c \<Rightarrow> string \<Rightarrow> int \<Rightarrow> string list \<Rightarrow> bool"
  assumes exists_law: "\<And>s n b hs r s'. in_use (auth_token s) (catalog (remote s)) \<Longrightarrow> sendable n b hs \<Longrightarrow>
      free_name (catalog (remote s)) n \<Longrightarrow> FileExists_call env net n s = (r, s') \<Longrightarrow>
      in_use (auth_token s) (catalog (remote s')) \<and> free_name (catalog (remote s')) n"
    and init_law: "\<And>s n b hs ps s'. in_use (auth_token s) (catalog (remote s)) \<Longrightarrow> sendable n b hs \<Longrightarrow>
      free_name (catalog (remote s)) n \<Longrightarrow> InitializeUpload env net hs s = (Inr ps, s') \<Longrightarrow>
      in_use (auth_token s) (catalog (remote s')) \<and> free_name (catalog (remote s')) n \<and> known (catalog (remote s')) hs \<and>
      plan_hash ` set ps \<subseteq> set hs"
    and commit_law: "\<And>s n b hs s'. in_use (auth_token s) (catalog (remote s)) \<Longrightarrow> sendable n b hs \<Longrightarrow>
      free_name (catalog (remote s)) n \<Longrightarrow> known (catalog (remote s)) hs \<Longrightarrow> CommitFile_call env net n b hs s = (Inr True, s') \<Longrightarrow>
      in_use (auth_token s) (catalog (remote s')) \<and> recorded (catalog (remote s')) n b hs"
    and plan_law: "\<And>s n b hs m s'. in_use (auth_token s) (catalog (remote s)) \<Longrightarrow> sendable n b hs \<Longrightarrow>
      recorded (catalog (remote s)) n b hs \<Longrightarrow> GetDownloadPlan_call env net n s = (Inr m, s') \<Longrightarrow>
      file_size m = b \<and> map plan_hash (plans m) = hs"
    and chunk_law: "\<And>url h d w r w'. addressable h \<Longrightarrow> net url ''POST'' (''/chunk?hash='' @ h) [] d w = (r, w') \<Longrightarrow> catalog w' = catalog w"
    and sendable_law: "\<And>n b hs. sendable n b hs \<Longrightarrow> llong_range b \<and> (\<forall>h\<in>set hs. addressable h)"

sublocale file_catalog \<subseteq> transfers: chunk_network net "\<lambda>w. catalog w = c" addressable "\<lambda>w u h. True" for c
  by unfold_locales (auto dest: chunk_law)

context file_catalog
begin

text \<open>A file that the client uploaded is in the catalogue, with its size and the hashes of its chunks.\<close>

abbreviation crypto :: ICryptoEngine where
  "crypto \<equiv> OpenSSLCryptoEngine (c_ossl env)"

lemma correlated_hashes: "snd ` set (correlate bits i hs ps) \<subseteq> set ps"
  by (induction bits i hs ps rule: correlate.induct) auto

lemma send_keeps:
  assumes "send_pending n (subsystems env net) p tasks s = (Inr True, s')" and "stop_is_final s"
    and "\<forall>t\<in>set tasks. addressable (plan_hash (snd t))"
  shows "catalog (remote s') = catalog (remote s) \<and> auth_token s' = auth_token s \<and> os_answer s' = os_answer s"
proof (cases "tasks = []")
  case True
  then show ?thesis using assms(1) by (simp add: send_pending_def ret_def)
next
  case False
  then have "Upload net (LocalFileSlicer crypto) (LocalStateManager env) p n tasks s = (Inr True, s')"
    using assms(1) by (simp add: send_pending_def)
  from transfers.upload_effect [OF journal_stays_local local_slicer_ops(2) slicer_reads local_slicer_ops(1,3) assms(2) refl assms(3) this]
  have "transfers.later (catalog (remote s)) s s'" by simp
  then show ?thesis by (simp add: transfers.later_def)
qed

lemma transfer_recorded:
  assumes "transfer_and_commit n (subsystems env net) p bytes modified manifest s = (Inr True, s')"
    and "in_use (auth_token s) (catalog (remote s))" and "sendable (path_filename p) bytes (chunk_hashes manifest)"
    and "free_name (catalog (remote s)) (path_filename p)" and "stop_is_final s"
  shows "recorded (catalog (remote s')) (path_filename p) bytes (chunk_hashes manifest) \<and>
    in_use (auth_token s) (catalog (remote s'))"
proof -
  let ?c = "subsystems env net" and ?hs = "chunk_hashes manifest"
  obtain ps s1 s2 s3 s4 s5 u where init: "InitializeUpload env net ?hs s = (Inr ps, s1)"
      and 2: "unchanged p bytes modified s1 = (Inr True, s2)"
      and 3: "send_pending n ?c p (correlate (completed_chunks manifest) 0 ?hs ps) s2 = (Inr True, s3)"
      and 4: "unchanged p bytes modified s3 = (Inr True, s4)"
      and commit: "CommitFile_call env net (path_filename p) (to_llong bytes) ?hs s4 = (Inr True, s5)"
      and last: "DeleteUploadManifest env p s5 = (Inr u, s')"
    using transfer_and_commit_True [OF assms(1)] by auto
  have bytes: "to_llong bytes = bytes" "\<forall>h\<in>set ?hs. addressable h" using sendable_law [OF assms(3)] by (auto intro: to_llong_id)
  obtain w where s1: "s1 = s\<lparr>remote := w\<rparr>" using remote_onlyD [OF remote_calls(2) init] by blast
  have i: "in_use (auth_token s) (catalog (remote s1))" "free_name (catalog (remote s1)) (path_filename p)" "known (catalog (remote s1)) ?hs"
      "plan_hash ` set ps \<subseteq> set ?hs"
    using init_law [OF assms(2,3,4) init] by simp_all
  have loc: "local_only (unchanged p bytes modified)" "local_only (DeleteUploadManifest env p)"
    unfolding unchanged_def DeleteUploadManifest_def by (rule local_intros | simp)+
  note l2 = local_onlyD [OF loc(1) 2]
  have "stop_is_final s2" using assms(5) l2 s1 by (simp add: stop_is_final_def)
  moreover have "addressable (plan_hash (snd t))" if "t \<in> set (correlate (completed_chunks manifest) 0 ?hs ps)" for t
    using that correlated_hashes [of "completed_chunks manifest" 0 ?hs ps] i(4) bytes(2) by blast
  ultimately have 3: "catalog (remote s3) = catalog (remote s2)" "auth_token s3 = auth_token s2" "os_answer s3 = os_answer s2"
    using send_keeps [OF 3] by simp_all
  note l4 = local_onlyD [OF loc(1) 4]
  have s4: "auth_token s4 = auth_token s" "catalog (remote s4) = catalog (remote s1)" using l4 3 l2 s1 by simp_all
  have "in_use (auth_token s4) (catalog (remote s5)) \<and> recorded (catalog (remote s5)) (path_filename p) bytes ?hs"
    using commit_law [OF _ assms(3), of s4 s5] i s4 commit bytes(1) by simp
  then show ?thesis using local_onlyD [OF loc(2) last] s4(1) by simp
qed

text \<open>A file on a machine at rest, with no upload of its name under way.\<close>

definition fresh_file :: "'w client \<Rightarrow> string \<Rightarrow> string \<Rightarrow> bool" where
  "fresh_file s p content \<longleftrightarrow> quiet s \<and> stop_is_final s \<and> content_at s p = Some content \<and> content_at s (manifest_path env p) = None"

lemma quiet_has: "quiet s \<Longrightarrow> HasActiveUpload env p s =
    (Inr (content_at s (manifest_path env p) \<noteq> None), if content_at s (manifest_path env p) = None then passed s else passed (passed s))"
  by (simp add: HasActiveUpload_def fs_exists_def andthen_def quiet_simps get_def ret_def content_at_def)

lemma upload_recorded:
  assumes "0 < n" and "fresh_file s p content" and "in_use (auth_token s) (catalog (remote s))"
    and "free_name (catalog (remote s)) (path_filename p)"
    and send: "\<And>hs. collect_hashes crypto (read_chunks n content) = Inr hs \<Longrightarrow> sendable (path_filename p) (int (length content)) hs"
    and "UploadFile n (subsystems env net) p s = (Inr True, s')"
  shows "\<exists>hs. collect_hashes crypto (read_chunks n content) = Inr hs \<and>
    recorded (catalog (remote s')) (path_filename p) (int (length content)) hs \<and> in_use (auth_token s) (catalog (remote s'))"
proof -
  let ?c = "subsystems env net"
  obtain s1 b s2 t s3 m0 s4 m s5 where
      1: "name_taken ?c p s = (Inr False, s1)" and 2: "fs_file_size p s1 = (Inr (Some b), s2)"
      and 3: "fs_last_write_time p s2 = (Inr (Some t), s3)"
      and 4: "resume_or_restart ?c p b t (system_clock (os_answer s3) (moment s3)) s3 = (Inr m0, s4)"
      and 5: "blueprint n ?c p b t (system_clock (os_answer s3) (moment s3)) m0 s4 = (Inr (Some m), s5)"
      and 6: "transfer_and_commit n ?c p b t m s5 = (Inr True, s')"
    using UploadFile_True [OF assms(6)] by blast
  have s: "quiet s" "stop_is_final s" "content_at s p = Some content" "content_at s (manifest_path env p) = None"
    using assms(2) by (simp_all add: fresh_file_def)
  have taken: "FileExists_call env net (path_filename p) s = (Inr False, s1)"
    using 1 by (auto simp: name_taken_def andthen_eq_Inr ret_eq_Inr attempt_Some)
  then obtain w where s1: "s1 = s\<lparr>remote := w\<rparr>" using remote_onlyD [OF remote_calls(1)] by blast
  have q1: "quiet s1" "content_at s1 = content_at s" using s(1) s1 by (simp_all add: quiet_simps content_at_def fun_eq_iff)
  have 2: "b = int (length content)" "s2 = passed s1" using 2 q1 s(3) by (auto simp: quiet_size)
  have q2: "quiet s2" using 2 q1 by (simp add: quiet_simps)
  then have s3: "s3 = passed s2" using 3 by (simp add: quiet_time)
  then have q3: "quiet s3" "content_at s3 = content_at s" using 2 q1 q2 by (simp_all add: quiet_simps fun_eq_iff)
  have "HasActiveUpload env p s3 = (Inr False, passed s3)" using q3 s(4) by (simp add: quiet_has)
  then have s4: "m0 = new_UploadManifest" "s4 = passed s3"
    using 4 by (simp_all add: resume_or_restart_def andthen_def ret_def)
  have q4: "quiet s4" "content_at s4 p = Some content" using s4 q3 s(3) by (simp_all add: quiet_simps)
  obtain hs s5' where hs: "ComputeHashes crypto p n s4 = (Inr hs, s5')"
      and save: "\<exists>u. SaveUploadManifest env m s5' = (Inr u, s5)" and m: "chunk_hashes m = hs"
    using 5 s4(1) by (auto simp: blueprint_def new_UploadManifest_def LocalFileSlicer_def Let_def andthen_eq_Inr
        attempt_Some ret_eq_Inr split: option.splits)
  have "collect_hashes crypto (read_chunks n content) = Inr hs \<and> s5' = passed s4"
    using hs q4 by (simp add: ComputeHashes_def andthen_Inr quiet_simps of_outcome_apply)
  then have hashes: "collect_hashes crypto (read_chunks n content) = Inr hs" and s5': "s5' = passed s4" by simp_all
  have sent: "sendable (path_filename p) b hs" using send [OF hashes] 2 by simp
  have "local_only (SaveUploadManifest env m)"
    unfolding SaveUploadManifest_def write_json_def by (rule local_intros | simp)+
  with save have s5: "remote s5 = remote s5'" "auth_token s5 = auth_token s5'" "os_answer s5 = os_answer s5'" by (auto dest: local_onlyD)
  then have same: "remote s5 = remote s1" "auth_token s5 = auth_token s" "stop_is_final s5"
    using s5' s4 s3 2 s1 s(2) by (simp_all add: stop_is_final_def)
  have "in_use (auth_token s5) (catalog (remote s5)) \<and> free_name (catalog (remote s5)) (path_filename p)"
    using exists_law [OF assms(3) sent assms(4) taken] same by simp
  then have "recorded (catalog (remote s')) (path_filename p) b hs \<and> in_use (auth_token s5) (catalog (remote s'))"
    using transfer_recorded [OF 6, of] sent m same(3) by simp
  then show ?thesis using hashes 2 same(2) by simp
qed

text \<open>What the catalogue records is what the download asks for.\<close>

lemma collected: "collect_hashes C parts = Inr hs \<Longrightarrow> list_all2 (\<lambda>d h. ComputeHash C d = Inr h) parts hs"
  by (auto simp: collect_hashes_Inr list_all2_conv_all_nth)

definition collision :: "string list \<Rightarrow> bool" where
  "collision parts \<longleftrightarrow>
     (\<exists>a\<in>set parts. \<exists>b h. b \<noteq> a \<and> length b = length a \<and> ComputeHash crypto a = Inr h \<and> ComputeHash crypto b = Inr h)"

lemma same_pieces:
  assumes "list_all2 (\<lambda>d m. length d = meta_size m \<and> ComputeHash crypto d = Inr (meta_hash m)) ds ms"
    and "list_all2 (\<lambda>d h. ComputeHash crypto d = Inr h) parts hs" and "map meta_hash ms = hs" and "map meta_size ms = map length parts"
  shows "ds = parts \<or> collision parts"
proof (rule disjCI)
  assume no: "\<not> collision parts"
  have len: "length ds = length ms" "length parts = length hs" "length hs = length ms"
    using assms(1-3) by (auto dest: list_all2_lengthD)
  show "ds = parts"
  proof (rule nth_equalityI)
    fix i assume i: "i < length ds"
    then have "ComputeHash crypto (ds ! i) = Inr (meta_hash (ms ! i))" "ComputeHash crypto (parts ! i) = Inr (hs ! i)" "hs ! i = meta_hash (ms ! i)"
      "length (ds ! i) = map meta_size ms ! i"
      using assms(1-3) len by (auto simp: list_all2_conv_all_nth)
    moreover have "length (ds ! i) = length (parts ! i)" using calculation(4) i len by (simp add: assms(4))
    moreover have "parts ! i \<in> set parts" using i len by simp
    ultimately show "ds ! i = parts ! i" using no unfolding collision_def by metis
  qed (use len in simp)
qed

lemma download_restores:
  assumes "0 < n" and "quiet t" and "stop_is_final t" and "in_use (auth_token t) (catalog (remote t))"
    and "recorded (catalog (remote t)) name (int (length content)) hs" and "sendable name (int (length content)) hs"
    and "collect_hashes crypto (read_chunks n content) = Inr hs"
    and "DownloadFile n (subsystems env net) name out t = (Inr True, t')"
  shows "content_at t' out = Some content \<or> collision (read_chunks n content)"
proof -
  let ?c = "subsystems env net"
  obtain m t1 t2 u where plan: "GetDownloadPlan_call env net name t = (Inr m, t1)"
      and fetch: "DownloadToFile net crypto (chunk_metas n (file_size m) (plans m)) (plans m) (temp_path out) t1 = (Inr True, t2)"
      and move: "fs_rename (temp_path out) out t2 = (Inr u, t')"
    using DownloadFile_True [OF assms(8)] by auto
  have m: "file_size m = int (length content)" "map plan_hash (plans m) = hs" using plan_law [OF assms(4,6,5) plan] by simp_all
  obtain w where t1: "t1 = t\<lparr>remote := w\<rparr>" using remote_onlyD [OF remote_calls(4) plan] by blast
  then have "quiet t1" "stop_is_final t1" using assms(2,3) by (simp_all add: quiet_simps stop_is_final_def)
  from download_content [OF this fetch] obtain ds where q2: "quiet t2" and ds: "content_at t2 (temp_path out) = Some (concat ds)"
    "list_all2 (\<lambda>d m. length d = meta_size m \<and> ComputeHash crypto d = Inr (meta_hash m)) ds (chunk_metas n (file_size m) (plans m))" by blast
  have "length (plans m) = length (read_chunks n content)" using assms(7) m(2) by (auto simp: collect_hashes_Inr)
  moreover have "int (length content) < 2 ^ 63" using sendable_law [OF assms(6)] by (simp add: llong_range_def)
  ultimately have "map meta_size (chunk_metas n (file_size m) (plans m)) = map length (read_chunks n content)"
    using chunk_metas_sizes [OF assms(1)] m(1) by simp
  then have "ds = read_chunks n content \<or> collision (read_chunks n content)"
    using same_pieces [OF ds(2) collected [OF assms(7)]] m(2) by (simp add: chunk_metas_hashes)
  moreover have "content_at t' out = Some (concat ds)"
    using move ds(1) quiet_call [OF q2] by (auto simp: fs_rename_def content_at_def andthen_def split: option.splits)
  ultimately show ?thesis using concat_read_chunks [OF assms(1)] by auto
qed

end

end
