(* ===== verification/Chunk_Fleet.thy ===== *)
theory Chunk_Fleet
  imports Transfer_Manager Url_Transport Worker_Server
begin

text \<open>
  The workers as the client's network: a worker per address, each with its own disk, reached by the
  requests as \<^verbatim>\<open>httplib\<close> carries them. They keep the contract that the upload relies on.
\<close>

section \<open>What the network loses\<close>

text \<open>
  A network that may lose the request on its way or the response on its way back: the fates of the calls are an
  arbitrary sequence. The client sees no response in either case.
\<close>

datatype fate = Delivered | Request_lost | Response_lost

record 'w medium =
  beyond :: 'w
  fates :: "nat \<Rightarrow> fate"
  carried :: nat

definition lossy :: "'w network \<Rightarrow> 'w medium network" where
  "lossy net url m target headers body x =
     (case fates x (carried x) of
        Request_lost \<Rightarrow> (None, x\<lparr>carried := carried x + 1\<rparr>)
      | Response_lost \<Rightarrow> (None, x\<lparr>beyond := snd (net url m target headers body (beyond x)), carried := carried x + 1\<rparr>)
      | Delivered \<Rightarrow> (case net url m target headers body (beyond x) of
          (r, w) \<Rightarrow> (r, x\<lparr>beyond := w, carried := carried x + 1\<rparr>)))"

context chunk_network
begin

lemma lossy_ack:
  "well (beyond x) \<Longrightarrow> addressable h \<Longrightarrow> lossy net url ''POST'' (''/chunk?hash='' @ h) [] d x = (Some r, x') \<Longrightarrow>
     res_status r = 200 \<Longrightarrow> holds (beyond x') url h"
  by (auto simp: lossy_def intro: ack_law split: fate.splits prod.splits)

lemma lossy_keep:
  assumes "well (beyond x)" and "addressable h" and "lossy net url ''POST'' (''/chunk?hash='' @ h) [] d x = (r, x')"
  shows "well (beyond x') \<and> (\<forall>u k. holds (beyond x) u k \<longrightarrow> holds (beyond x') u k)"
proof (cases "fates x (carried x)")
  case Request_lost
  then show ?thesis using assms by (auto simp: lossy_def)
next
  case Delivered
  then show ?thesis using assms keep_law [OF assms(1,2)] by (auto simp: lossy_def split: prod.splits)
next
  case Response_lost
  then have "beyond x' = snd (net url ''POST'' (''/chunk?hash='' @ h) [] d (beyond x))" using assms(3) by (auto simp: lossy_def)
  then show ?thesis using keep_law [OF assms(1,2) prod.collapse [symmetric]] by simp
qed

end

section \<open>The workers\<close>

type_synonym fleet = "string \<Rightarrow> disk_world option"

definition fleet_network :: "openssl \<Rightarrow> fleet network" where
  "fleet_network ossl url m target headers body w =
     (case w url of
        None \<Rightarrow> (None, w)
      | Some d \<Rightarrow>
          (case exchange (WorkerServer ossl (LocalDiskBackend ossl)) m target headers body d of
             (r, d') \<Rightarrow> (r, w(url \<mapsto> d'))))"

text \<open>A chunk is on a worker when what is stored under its hash has that hash.\<close>

definition fleet_holds :: "openssl \<Rightarrow> fleet \<Rightarrow> string \<Rightarrow> string \<Rightarrow> bool" where
  "fleet_holds ossl w url h \<longleftrightarrow>
     (\<exists>d x. w url = Some d \<and> stored ossl (storage d) h = Some x \<and> sha256 ossl x = Inr h)"

text \<open>No write of any worker will be cut short.\<close>

definition fleet_well :: "openssl \<Rightarrow> fleet \<Rightarrow> bool" where
  "fleet_well ossl w \<longleftrightarrow> cipher_ok ossl \<and> random_ok ossl \<and> (\<forall>url d. w url = Some d \<longrightarrow> full_writes d)"

definition addressable_hash :: "string \<Rightarrow> bool" where
  "addressable_hash h \<longleftrightarrow> query_plain h \<and> int (length (sent_target (with_param ''/chunk'' ''hash'' h))) \<le> max_uri"

lemma chunk_target:
  assumes "addressable_hash h"
  obtains req where "\<And>d. exchange srv ''POST'' (''/chunk?hash='' @ h) [] body d = srv req d" "req_method req = ''POST''"
    "req_path req = ''/chunk''" "get_param_value ''hash'' req = h" "req_body req = body"
proof -
  have fixed: "client_method ''POST''" "plain_path ''/chunk''" "plain_key ''hash''"
    by (simp_all add: client_method_def plain_path_def plain_key_def is_alnum_def code_def)
  have "sendable [] (with_param ''/chunk'' ''hash'' h)" using assms by (simp add: sendable_def addressable_hash_def)
  then have ex: "exchange srv ''POST'' (with_param ''/chunk'' ''hash'' h) [] body d =
      srv (received ''POST'' (with_param ''/chunk'' ''hash'' h) [] body) d" for d
    by (rule exchange_with_param [OF fixed])
  note rec = received_with_param [OF fixed(2,3), of "''POST''" h "[]" body]
  have "with_param ''/chunk'' ''hash'' h = ''/chunk?hash='' @ h" by (simp add: with_param_def)
  moreover have "get_param_value ''hash'' (received ''POST'' (with_param ''/chunk'' ''hash'' h) [] body) = h"
    using rec(6) first_value_same assms by (simp add: addressable_hash_def)
  ultimately show thesis using that [OF _ rec(1,2) _ rec(4)] ex by simp
qed

text \<open>A post to a worker: the chunk is kept, or nothing stored has changed.\<close>

lemma post_effect:
  assumes "WorkerServer ossl (LocalDiskBackend ossl) req d = (r, d')" and "req_method req = ''POST''" and "req_path req = ''/chunk''"
    and "get_param_value ''hash'' req = h" and "cipher_ok ossl" and "random_ok ossl" and "full_writes d"
  shows "full_writes d' \<and>
    ((\<forall>k. stored ossl (storage d') k = stored ossl (storage d) k) \<and> \<not> (\<exists>res. r = Some res \<and> res_status res = 200) \<or>
     sha256 ossl (req_body req) = Inr h \<and> stored ossl (storage d') h = Some (req_body req) \<and>
     (\<forall>k. plain_name k \<longrightarrow> k \<noteq> h \<longrightarrow> stored ossl (storage d') k = stored ossl (storage d) k))"
proof (cases "worker_payload_max < int (length (req_body req)) \<or> h = [] \<or> sha256 ossl (req_body req) \<noteq> Inr h")
  case True
  have "d' = d \<and> \<not> (\<exists>res. r = Some res \<and> res_status res = 200)"
  proof (cases "worker_payload_max < int (length (req_body req))")
    case True
    then show ?thesis using assms(1-3) by (auto simp: WorkerServer_def serve_def method_matches_def with_status_def)
  next
    case False
    then have "WorkerServer ossl (LocalDiskBackend ossl) req d = run_handler (post_chunk ossl (LocalDiskBackend ossl) req) d"
      using assms(2,3) by (simp add: WorkerServer_def serve_def method_matches_def)
    then show ?thesis
      using assms(1,4) True False by (auto simp: run_handler_def post_chunk_def Let_def outcome_simps with_status_def
          set_content_def new_Response_def split: if_splits sum.splits)
  qed
  then show ?thesis using assms(7) by blast
next
  case False
  let ?B = "LocalDiskBackend ossl"
  have run: "WorkerServer ossl ?B req d = run_handler (post_chunk ossl ?B req) d"
    using False assms(2,3) by (simp add: WorkerServer_def serve_def method_matches_def)
  obtain b d1 where save: "op_SaveChunk ?B h (req_body req) d = (b, d1)" by fastforce
  have d': "d' = d1" "(\<exists>res. r = Some res \<and> res_status res = 200) \<longleftrightarrow> b"
    using assms(1,4) run False save by (auto simp: run_handler_def post_chunk_def Let_def with_status_def set_content_def new_Response_def
        split: if_splits)
  have good: "disk_good ossl d" using assms(5,6) by (simp add: disk_good_def)
  have size: "storable_size (req_body req)" using False by (simp add: storable_size_def worker_payload_max_def)
  have h: "plain_name h" using False by (blast intro: sha256_plain)
  obtain st where st: "SaveChunk ossl (os_calls d (call_no d)) h (req_body req) (storage d) = (b, st)" and after: "d1 = after_call st d"
    using save by (auto simp: LocalDiskBackend_def on_storage_eq)
  have "full_writes d'" using full_writes_after [OF assms(7)] after d'(1) by simp
  moreover have "\<forall>k. stored ossl (storage d') k = stored ossl (storage d) k" if "\<not> b"
    using stored_save_failed [of ossl _ h "req_body req" "storage d" st] st assms(7) after that d'(1) by (simp add: full_writes_def)
  moreover have "stored ossl (storage d') h = Some (req_body req) \<and>
      (\<forall>k. plain_name k \<longrightarrow> k \<noteq> h \<longrightarrow> stored ossl (storage d') k = stored ossl (storage d) k)" if b
    using local_disk.save_law [OF good h size save] that d'(1) by blast
  ultimately show ?thesis using False d'(2) by blast
qed

interpretation workers: chunk_network "fleet_network ossl" "fleet_well ossl" addressable_hash "fleet_holds ossl"
proof
  fix url h body r w' and w :: fleet
  assume w: "fleet_well ossl w" and h: "addressable_hash h"
    and run: "fleet_network ossl url ''POST'' (''/chunk?hash='' @ h) [] body w = (Some r, w')" and ok: "res_status r = 200"
  obtain d where d: "w url = Some d" using run by (auto simp: fleet_network_def split: option.splits)
  obtain req where req: "\<And>d. exchange (WorkerServer ossl (LocalDiskBackend ossl)) ''POST'' (''/chunk?hash='' @ h) [] body d =
      WorkerServer ossl (LocalDiskBackend ossl) req d" "req_method req = ''POST''" "req_path req = ''/chunk''"
    "get_param_value ''hash'' req = h" "req_body req = body" using chunk_target [OF h] by blast
  obtain d' where d': "WorkerServer ossl (LocalDiskBackend ossl) req d = (Some r, d')" "w' = w(url \<mapsto> d')"
    using run d req(1) by (auto simp: fleet_network_def split: prod.splits)
  from post_effect [OF d'(1) req(2-4)] w d ok req(5) have "stored ossl (storage d') h = Some body" "sha256 ossl body = Inr h"
    by (auto simp: fleet_well_def)
  then show "fleet_holds ossl w' url h" using d'(2) by (simp add: fleet_holds_def)
next
  fix url h body r w' and w :: fleet
  assume w: "fleet_well ossl w" and h: "addressable_hash h"
    and run: "fleet_network ossl url ''POST'' (''/chunk?hash='' @ h) [] body w = (r, w')"
  show "fleet_well ossl w' \<and> (\<forall>u k. fleet_holds ossl w u k \<longrightarrow> fleet_holds ossl w' u k)"
  proof (cases "w url")
    case None
    then show ?thesis using run w by (simp add: fleet_network_def)
  next
    case (Some d)
    obtain req where req: "\<And>d. exchange (WorkerServer ossl (LocalDiskBackend ossl)) ''POST'' (''/chunk?hash='' @ h) [] body d =
        WorkerServer ossl (LocalDiskBackend ossl) req d" "req_method req = ''POST''" "req_path req = ''/chunk''"
      "get_param_value ''hash'' req = h" "req_body req = body" using chunk_target [OF h] by blast
    obtain d' where d': "WorkerServer ossl (LocalDiskBackend ossl) req d = (r, d')" "w' = w(url \<mapsto> d')"
      using run Some req(1) by (auto simp: fleet_network_def split: prod.splits)
    have well: "cipher_ok ossl" "random_ok ossl" "full_writes d" using w Some by (auto simp: fleet_well_def)
    note effect = post_effect [OF d'(1) req(2-4) well]
    have "fleet_well ossl w'" using w effect d'(2) by (auto simp: fleet_well_def)
    moreover have "fleet_holds ossl w' u k" if holds: "fleet_holds ossl w u k" for u k
    proof (cases "u = url")
      case False
      then show ?thesis using holds d'(2) by (simp add: fleet_holds_def)
    next
      case True
      then obtain x where x: "stored ossl (storage d) k = Some x" "sha256 ossl x = Inr k" using holds Some by (auto simp: fleet_holds_def)
      have "plain_name k" by (rule sha256_plain [OF x(2)])
      then have "\<exists>x. stored ossl (storage d') k = Some x \<and> sha256 ossl x = Inr k" using effect x req(5) by (cases "k = h") auto
      then show ?thesis using d'(2) True by (auto simp: fleet_holds_def)
    qed
    ultimately show ?thesis by blast
  qed
qed


interpretation fleet: chunk_network "lossy (fleet_network ossl)" "\<lambda>x. fleet_well ossl (beyond x)" addressable_hash
    "\<lambda>x. fleet_holds ossl (beyond x)"
  by unfold_locales (fact workers.lossy_ack, fact workers.lossy_keep)

section \<open>What an upload that succeeded means\<close>

text \<open>C2: A transfer that reports success has put every chunk it was given on every worker of its plan: each of
  them then stores, under the hash of the chunk, content with that hash. This holds for any order in which the
  threads run, and whichever requests and responses the network loses and whatever the workers answer in between. It supposes that no
  worker's disk cuts a write short without an error, that a transfer once stopped stays stopped, and that the hashes can stand in a URL.\<close>

theorem uploaded_to_every_replica:
  assumes "fleet_well ossl (beyond (remote s))" and "stop_is_final s" and "\<forall>t\<in>set tasks. addressable_hash (plan_hash (snd t))"
    and "Upload (lossy (fleet_network ossl)) (LocalFileSlicer crypto) (LocalStateManager env) p chunk_size tasks s = (Inr True, s')"
    and "(i, plan) \<in> set tasks" and "node \<in> set (assigned_nodes plan)"
  shows "fleet_holds ossl (beyond (remote s')) (worker_url node) (plan_hash plan)"
  using fleet.upload_complete [OF journal_stays_local local_slicer_ops(2) slicer_reads local_slicer_ops(1,3) assms(2,1,3-6)] by blast

definition run_node :: NodeInfo where
  "run_node = \<lparr>advertised_host = ''w'', advertised_port = 1\<rparr>"

definition run_tasks_given :: "(int \<times> ChunkRoutingPlan) list" where
  "run_tasks_given = [(0, \<lparr>plan_hash = run_hash, assigned_nodes = [run_node]\<rparr>)]"

text \<open>The network loses the response to the first request and the second request.\<close>

definition run_fates :: "nat \<Rightarrow> fate" where
  "run_fates i = (if i = 0 then Response_lost else if i = 1 then Request_lost else Delivered)"

definition run_machine :: "fleet medium client" where
  "run_machine = \<lparr>local_files = [''/d/f'' \<mapsto> \<lparr>contents = ''chunk'', write_time = 3\<rparr>], file_stream = None, auth_token = [],
     remote = \<lparr>beyond = [''w:1'' \<mapsto> run_storage], fates = run_fates, carried = 0\<rparr>,
     os_answer = \<lparr>meddling = (\<lambda>_ fs. fs), refused = (\<lambda>_. False), transfer_state = (\<lambda>_. RUNNING), system_clock = (\<lambda>_. 5000),
       write_clock = (\<lambda>_. 7), thread_schedule = (\<lambda>_. [])\<rparr>, moment = 0\<rparr>"

lemma addressable_run_hash: "addressable_hash run_hash"
proof -
  have "length (sent_target (with_param ''/chunk'' ''hash'' run_hash)) \<le> 80" "query_plain run_hash" by code_simp+
  then show ?thesis by (simp add: addressable_hash_def max_uri_def)
qed

lemma uploaded_to_every_replica_witness:
  "\<exists>s'. Upload (lossy (fleet_network sample_ossl)) (LocalFileSlicer (OpenSSLCryptoEngine sample_ossl)) (LocalStateManager sample_home)
       ''/d/f'' 8 run_tasks_given run_machine = (Inr True, s') \<and>
     fleet_holds sample_ossl (beyond (remote s')) ''w:1'' run_hash"
proof -
  have "fst (Upload (lossy (fleet_network sample_ossl)) (LocalFileSlicer (OpenSSLCryptoEngine sample_ossl)) (LocalStateManager sample_home)
      ''/d/f'' 8 run_tasks_given run_machine) = Inr True" by code_simp
  then obtain s' where run: "Upload (lossy (fleet_network sample_ossl)) (LocalFileSlicer (OpenSSLCryptoEngine sample_ossl)) (LocalStateManager sample_home)
      ''/d/f'' 8 run_tasks_given run_machine = (Inr True, s')" by (metis prod.collapse)
  have "\<forall>t\<in>set run_tasks_given. addressable_hash (plan_hash (snd t))"
    using addressable_run_hash by (simp add: run_tasks_given_def)
  moreover have "fleet_well sample_ossl (beyond (remote run_machine))"
    using sample_ossl_ok by (simp add: fleet_well_def run_machine_def full_writes_def run_storage_def smooth_def)
  moreover have "stop_is_final run_machine" by (simp add: stop_is_final_def run_machine_def)
  moreover have "worker_url run_node = ''w:1''" by code_simp
  ultimately show ?thesis
    using uploaded_to_every_replica [OF _ _ _ run, of 0 "\<lparr>plan_hash = run_hash, assigned_nodes = [run_node]\<rparr>" run_node] run
    by (simp add: run_tasks_given_def)
qed

end
