(* ===== verification/Cluster.thy ===== *)
theory Cluster
  imports Upload_Session Chunk_Fleet File_Catalog
begin

text \<open>
  The whole system: a client, the master over its database, and the workers. The calls of the client
  to the master are matched with the same calls on a network with nothing but the master, which gives
  the catalogue its laws.
\<close>

section \<open>The network of a cluster\<close>

type_synonym cluster = "pg_world \<times> fleet medium"

text \<open>
  The calls of one client, while everybody else uses the master's repository too. The requests to the workers may be
  lost on the way; those to the master arrive.
\<close>

definition cluster_network :: "client_env \<Rightarrow> master_env \<Rightarrow> int \<Rightarrow> (nat \<Rightarrow> db \<Rightarrow> db) \<Rightarrow> openssl \<Rightarrow> cluster network" where
  "cluster_network env menv buckets others ossl url m target headers body w =
     (if url = master_url env then
        (case exchange (MasterServer menv (busy others (PostgresRepository buckets))) m target headers body (fst w) of (r, d) \<Rightarrow> (r, (d, snd w)))
      else (case lossy (fleet_network ossl) url m target headers body (snd w) of (r, f) \<Rightarrow> (r, (fst w, f))))"

section \<open>The client before the master alone\<close>

definition at_master :: "cluster client \<Rightarrow> pg_world client" where
  "at_master s = \<lparr>local_files = local_files s, file_stream = file_stream s, auth_token = auth_token s, remote = fst (remote s),
     os_answer = os_answer s, moment = moment s\<rparr>"

text \<open>A client of the cluster after its calls to the master.\<close>

definition from_master :: "cluster client \<Rightarrow> pg_world client \<Rightarrow> cluster client" where
  "from_master s t = \<lparr>local_files = local_files t, file_stream = file_stream t, auth_token = auth_token t,
     remote = (remote t, snd (remote s)), os_answer = os_answer t, moment = moment t\<rparr>"

lemma from_master_simps [simp]:
  "at_master (from_master s t) = t" "from_master s (at_master s) = s" "from_master (from_master s t) = from_master s"
  "from_master s ((at_master s)\<lparr>remote := w\<rparr>) = s\<lparr>remote := (w, snd (remote s))\<rparr>"
  by (simp_all add: from_master_def at_master_def fun_eq_iff)

named_theorems match_intros "actions that do the same before the master alone"

definition matches :: "(cluster client, 'a) action \<Rightarrow> (pg_world client, 'a) action \<Rightarrow> bool" where
  "matches m m' \<longleftrightarrow> (\<forall>s. m s = map_prod id (from_master s) (m' (at_master s)))"

lemma matches_run: "matches m m' \<Longrightarrow> m' (at_master s) = (r, t) \<Longrightarrow> m s = (r, from_master s t)"
  by (simp add: matches_def)

lemma matchesD: "matches m m' \<Longrightarrow> m s = (r, s') \<Longrightarrow> m' (at_master s) = (r, at_master s')"
  by (cases "m' (at_master s)") (auto simp: matches_def)

lemma match_basic [match_intros]:
  "matches (ret x) (ret x)" "matches (throw e) (throw e)" "matches (of_outcome oc) (of_outcome oc)"
  by (simp_all add: matches_def ret_def throw_def of_outcome_def)

lemma match_get [match_intros]: "(\<And>s. f s = g (at_master s)) \<Longrightarrow> matches (get f) (get g)"
  by (simp add: matches_def get_def)

lemma match_andthen [match_intros]:
  assumes "matches m m'" and "\<And>x. matches (f x) (f' x)"
  shows "matches (andthen m f) (andthen m' f')"
proof -
  have "andthen m f s = map_prod id (from_master s) (andthen m' f' (at_master s))" for s
    using assms by (cases "m' (at_master s)") (auto simp: matches_def andthen_def split: sum.split prod.split)
  then show ?thesis by (simp add: matches_def)
qed

lemma match_if [match_intros]:
  "(b \<Longrightarrow> matches m m') \<Longrightarrow> (\<not> b \<Longrightarrow> matches k k') \<Longrightarrow> matches (if b then m else k) (if b then m' else k')"
  by simp

lemma match_option [match_intros]:
  "(x = None \<Longrightarrow> matches m m') \<Longrightarrow> (\<And>y. x = Some y \<Longrightarrow> matches (f y) (f' y)) \<Longrightarrow>
     matches (case x of None \<Rightarrow> m | Some y \<Rightarrow> f y) (case x of None \<Rightarrow> m' | Some y \<Rightarrow> f' y)"
  by (cases x) simp_all

lemma match_call [match_intros]:
  "matches (http_call (cluster_network env menv b others ossl) (master_url env) m target headers body)
     (http_call (with_master menv (busy others (PostgresRepository b))) (master_url env) m target headers body)"
  by (simp add: matches_def http_call_def cluster_network_def reliable_def at_master_def from_master_def split: prod.split)

lemma match_bearer [match_intros]: "matches (get bearer) (get bearer)"
  by (rule match_get) (simp add: bearer_def at_master_def)

lemma match_operations:
  "matches (FileExists_call env (cluster_network env menv b others ossl) name) (FileExists_call env (with_master menv (busy others (PostgresRepository b))) name)"
  "matches (InitializeUpload env (cluster_network env menv b others ossl) hashes) (InitializeUpload env (with_master menv (busy others (PostgresRepository b))) hashes)"
  "matches (CommitFile_call env (cluster_network env menv b others ossl) name bytes hashes)
     (CommitFile_call env (with_master menv (busy others (PostgresRepository b))) name bytes hashes)"
  "matches (GetDownloadPlan_call env (cluster_network env menv b others ossl) name) (GetDownloadPlan_call env (with_master menv (busy others (PostgresRepository b))) name)"
  unfolding FileExists_call_def InitializeUpload_def CommitFile_call_def GetDownloadPlan_call_def call_master_def
  by (rule match_intros)+

section \<open>What the master tells of its nodes can be sent\<close>

definition hosts_sendable :: "db \<Rightarrow> bool" where
  "hosts_sendable d \<longleftrightarrow> (\<forall>w\<in>set (worker_nodes d). utf8 (w_advertised_host w) \<and> int_range (w_advertised_port w))"

lemma digit_ascii: "is_digit 16 c \<Longrightarrow> code c < 128"
  by (auto simp: is_digit_def digit_of_def split: if_splits)

lemma plain_utf8: "plain_element h \<Longrightarrow> utf8 h"
  using digit_ascii by (intro ascii_utf8) (auto simp: plain_element_def ascii_def list_all_iff)

lemma parsed_sendable:
  assumes "hosts_sendable d" and "utf8 h" and "node_objects ids d = x"
  shows "plan_sendable (ParseNodePlanFromJson h x)" "plan_sendable (ParseNodePlanFromJson h (case x of None \<Rightarrow> Some [] | Some y \<Rightarrow> Some y))"
  using assms by (auto simp: ParseNodePlanFromJson_def plan_sendable_def node_sendable_def node_objects_def hosts_sendable_def Let_def list_all_iff
      split: if_splits)

lemma filter_one_sendable:
  assumes "filter_one pg nb h d = (Inr (Some plan), d')" and "hosts_sendable d" and "utf8 h"
  shows "plan_sendable plan"
  using assms
  by (auto simp: filter_one_def filter_new_def filter_known_def outcome_simps andthen_eq_Inr throw_def get_def modify_def
      intro: parsed_sendable split: option.splits sum.splits if_splits)

lemma negotiated_hosts: "negotiated pg H d d' \<Longrightarrow> hosts_sendable d' = hosts_sendable d"
  by (simp add: negotiated_def hosts_sendable_def)

lemma collected_sendable:
  "for_collect (filter_one pg nb) hs d = (Inr ps, d') \<Longrightarrow> hosts_sendable d \<Longrightarrow> \<forall>h\<in>set hs. utf8 h \<Longrightarrow> list_all plan_sendable ps"
proof (induction hs arbitrary: d ps)
  case (Cons h hs)
  from Cons.prems(1) obtain p d1 qs where one: "filter_one pg nb h d = (Inr p, d1)"
    and rest: "for_collect (filter_one pg nb) hs d1 = (Inr qs, d')" and ps: "ps = (case p of None \<Rightarrow> qs | Some z \<Rightarrow> z # qs)"
    by (auto simp: andthen_eq_Inr outcome_simps)
  have "list_all plan_sendable qs"
    using Cons.IH [OF rest] Cons.prems(2,3) negotiated_hosts [OF negotiated_one [OF one]] by simp
  then show ?case using filter_one_sendable [of pg nb h d _ d1] one Cons.prems(2,3) ps by (cases p) auto
qed (simp add: outcome_simps)

lemma negotiation_sendable:
  "FilterMissingChunks pg nb hs d = (Inr ps, d') \<Longrightarrow> hosts_sendable d \<Longrightarrow> \<forall>h\<in>set hs. utf8 h \<Longrightarrow> list_all plan_sendable ps"
  by (auto simp: FilterMissingChunks_def transact_eq_Inr dest: collected_sendable)


lemma plan_sendable_rows:
  assumes "GetDownloadPlan pg u n d = (Inr m, d')" and "hosts_sendable d"
    and "\<forall>f\<in>set (files d). file_matches u n f \<longrightarrow> (\<forall>h\<in>set (file_chunks f). plain_element h)"
  shows "list_all plan_sendable (plans m)"
proof -
  have rows: "\<exists>ids f. x = node_objects ids d \<and> f \<in> set (files d) \<and> file_matches u n f \<and> h \<in> set (file_chunks f)" if "(i, h, x) \<in> set (plan_rows u n d)" for i h x
  proof -
    from that obtain f where f: "f \<in> set (files d)" "file_matches u n f" "(i, h, x) \<in> set (List.map_filter
        (\<lambda>(i, h). map_option (\<lambda>c. (i, h, node_objects (nodes c) d)) (find_chunk h d)) (enumerate 1 (file_chunks f)))"
      by (auto simp: plan_rows_def)
    then obtain ids where "x = node_objects ids d" "(i, h) \<in> set (enumerate 1 (file_chunks f))" by (auto simp: map_filter_def)
    moreover from this have "h \<in> set (file_chunks f)" by (auto simp: in_set_enumerate_eq)
    ultimately show ?thesis using f(1,2) by blast
  qed
  have "plan_sendable (ParseNodePlanFromJson h (case x of None \<Rightarrow> Some [] | Some y \<Rightarrow> Some y))" if row: "(i, h, x) \<in> set (plan_rows u n d)" for i h x
  proof -
    obtain ids f where "x = node_objects ids d" "f \<in> set (files d)" "file_matches u n f" "h \<in> set (file_chunks f)" using rows [OF row] by blast
    then show ?thesis using parsed_sendable(2) [OF assms(2)] plain_utf8 assms(3) by blast
  qed
  moreover have "plans m = map (\<lambda>(_, h, data). ParseNodePlanFromJson h (case data of None \<Rightarrow> Some [] | Some x \<Rightarrow> Some x)) (plan_rows u n d)"
    using assms(1) by (auto simp: GetDownloadPlan_def transact_eq_Inr andthen_eq_Inr get_eq_Inr ret_eq_Inr throw_eq_Inr split: option.splits)
  ultimately show ?thesis by (auto simp: list_all_iff split: prod.split)
qed

section \<open>The database as a catalogue\<close>

text \<open>
  What the others do while a user is at work on one file name: operations of the repository that leave the rows of that file
  alone and take none of the chunks of \<open>K\<close> out of service, and workers whose host names are text.
\<close>

definition company :: "int \<Rightarrow> string set \<Rightarrow> int \<Rightarrow> string \<Rightarrow> (nat \<Rightarrow> db \<Rightarrow> db) \<Rightarrow> bool" where
  "company buckets K u name others \<longleftrightarrow>
     (\<forall>i d. (db_step buckets K)\<^sup>*\<^sup>* d (others i d) \<and>
        filter (file_matches u name) (files (others i d)) = filter (file_matches u name) (files d) \<and>
        (\<forall>h\<in>K. live h d \<longrightarrow> live h (others i d)) \<and> (hosts_sendable d \<longrightarrow> hosts_sendable (others i d)))"

definition world_in_use ::
    "master_env \<Rightarrow> int \<Rightarrow> string set \<Rightarrow> int \<Rightarrow> string \<Rightarrow> (nat \<Rightarrow> db \<Rightarrow> db) \<Rightarrow> string \<Rightarrow> pg_world \<Rightarrow> bool" where
  "world_in_use menv buckets K u name others token w \<longleftrightarrow>
     VerifySessionToken (m_ossl menv) (m_time menv) token (session_secret menv) = Some u \<and> is_field_value (''Bearer '' @ token) \<and>
     db_reachable buckets K (tables w) \<and> (\<forall>k. pg_ok (server w k)) \<and> hosts_sendable (tables w) \<and>
     company buckets K u name others"

definition deliverable :: "client_env \<Rightarrow> string \<Rightarrow> int \<Rightarrow> string list \<Rightarrow> bool" where
  "deliverable env n b hs \<longleftrightarrow> name_fits n \<and> utf8 n \<and> llong_range b \<and> (\<forall>h\<in>set hs. plain_element h \<and> addressable_hash h) \<and>
     body_fits env (hashes_json hs) \<and> body_fits env (commit_json n b hs)"

definition world_records :: "int \<Rightarrow> pg_world \<Rightarrow> string \<Rightarrow> int \<Rightarrow> string list \<Rightarrow> bool" where
  "world_records u w n b hs \<longleftrightarrow>
     (\<exists>f. filter (file_matches u n) (files (tables w)) = [f] \<and> file_bytes f = b \<and> file_chunks f = hs)"

lemma deliverable_utf8: "deliverable env n b hs \<Longrightarrow> list_all utf8 hs"
  using plain_utf8 by (auto simp: deliverable_def list_all_iff)

lemma world_session: "world_in_use menv nb K u n others (auth_token s) w \<Longrightarrow> in_session menv s u"
  by (simp add: world_in_use_def in_session_def)

lemma world_next:
  assumes "world_in_use menv nb K u n others tok w" and "db_reachable nb K d" and "hosts_sendable d"
  shows "world_in_use menv nb K u n others tok (after_turn (others i d) w)"
proof -
  have "company nb K u n others" using assms(1) by (simp add: world_in_use_def)
  then have "(db_step nb K)\<^sup>*\<^sup>* d (others i d)" "hosts_sendable d \<longrightarrow> hosts_sendable (others i d)"
    unfolding company_def by blast+
  then show ?thesis using assms db_reachable_steps by (simp add: world_in_use_def)
qed

lemma company_leaves:
  assumes "world_in_use menv nb K u n others tok w"
  shows "filter (file_matches u n) (files (others i d)) = filter (file_matches u n) (files d)"
    and "set hs \<subseteq> K \<Longrightarrow> committable hs d \<Longrightarrow> committable hs (others i d)"
    and "no_such_file u n (others i d) = no_such_file u n d"
proof -
  have c: "company nb K u n others" using assms by (simp add: world_in_use_def)
  then show rows: "filter (file_matches u n) (files (others i d)) = filter (file_matches u n) (files d)"
    unfolding company_def by blast
  have "\<forall>h\<in>K. live h d \<longrightarrow> live h (others i d)" using c unfolding company_def by blast
  then show "set hs \<subseteq> K \<Longrightarrow> committable hs d \<Longrightarrow> committable hs (others i d)" unfolding committable_def by blast
  have "no_such_file u n e \<longleftrightarrow> filter (file_matches u n) (files e) = []" for e by (simp add: no_such_file_def filter_empty_conv)
  then show "no_such_file u n (others i d) = no_such_file u n d" by (simp only: rows)
qed

lemma now_ok: "world_in_use menv nb K u n others tok w \<Longrightarrow> pg_ok (now w)"
  by (simp add: world_in_use_def now_def)

text \<open>A look-up leaves the tables as they are, whatever becomes of it.\<close>

lemma FileExists_leaves:
  assumes "in_session menv s u" and "name_fits name" and "op_FileExists R u name (remote s) = (x, w')"
  shows "\<exists>r. FileExists_call env (with_master menv R) name s = (r, s\<lparr>remote := w'\<rparr>)"
proof -
  obtain req where req:
    "call_master env (with_master menv R) ''GET'' (''/files/exists'' @ ''?filename='' @ name) [] s =
      (case MasterServer menv R req (remote s) of (r, w) \<Rightarrow> (Inr r, s\<lparr>remote := w\<rparr>))"
    "req_method req = ''GET''" "req_path req = ''/files/exists''" "req_headers req = bearer s"
    "int (length (req_body req)) \<le> master_payload_max" "has_param ''filename'' req" "get_param_value ''filename'' req = name"
    using query_master [OF assms(1) _ _ assms(2), of "''/files/exists''" "''GET''"] by blast
  have "\<exists>r. MasterServer menv R req (remote s) = (r, w')"
    using req(6,7) assms(3)
    by (simp add: master_handler(9) [OF req(5,2,3)] HandleFileExists_def authenticated_bearer [OF assms(1) req(4)] run_handler_def
        andthen_def send_json_def of_outcome_def ret_def split: prod.split sum.split)
  then obtain r where "call_master env (with_master menv R) ''GET'' (''/files/exists?filename='' @ name) [] s = (Inr r, s\<lparr>remote := w'\<rparr>)"
    using req(1) by auto
  then show ?thesis
    unfolding FileExists_call_def by (auto simp: andthen_def ret_def of_outcome_def split: option.split)
qed


text \<open>One call in the turn of the database.\<close>

lemma turn_of:
  fixes s :: "cluster client"
  assumes "f (now (fst (remote s))) (tables (fst (remote s))) = (x, d)"
  shows "in_company others (in_turn f) (remote (at_master s)) =
    (x, after_turn (others (turn (fst (remote s)) + 1) d) (fst (remote s)))"
  using in_company_turn [of f "fst (remote s)" x d others] assms by (simp add: at_master_def)

lemma arrived:
  fixes s s' :: "cluster client"
  shows "at_master s' = (at_master s)\<lparr>remote := w\<rparr> \<Longrightarrow> fst (remote s') = w"
  by (simp add: at_master_def)

lemma session_at: "world_in_use menv nb K u n others (auth_token s) w \<Longrightarrow> in_session menv (at_master s) u"
  by (simp add: world_in_use_def in_session_def at_master_def)

lemma catalogue_exists:
  fixes s :: "cluster client"
  assumes use: "world_in_use menv nb K u n others (auth_token s) (fst (remote s))" and "deliverable env n b hs"
    and "no_such_file u n (tables (fst (remote s)))" and call: "FileExists_call env (cluster_network env menv nb others ossl) n s = (r, s')"
  shows "world_in_use menv nb K u n others (auth_token s) (fst (remote s')) \<and> no_such_file u n (tables (fst (remote s')))"
proof -
  let ?w = "fst (remote s)" and ?o = "others (turn (fst (remote s)) + 1)"
  obtain x d where op: "FileExists (now ?w) u n (tables ?w) = (x, d)" by fastforce
  then have d: "d = tables ?w" by (auto simp: FileExists_def transact_def get_def split: if_splits)
  have "op_FileExists (busy others (PostgresRepository nb)) u n (remote (at_master s)) = (x, after_turn (?o d) ?w)"
    using turn_of [of "\<lambda>pg. FileExists pg u n"] op by (simp add: busy_def PostgresRepository_def)
  moreover have "name_fits n" using assms(2) by (simp add: deliverable_def)
  ultimately obtain r' where "FileExists_call env (with_master menv (busy others (PostgresRepository nb))) n (at_master s) =
      (r', (at_master s)\<lparr>remote := after_turn (?o d) ?w\<rparr>)"
    using FileExists_leaves [OF session_at [OF use]] by blast
  then have s': "fst (remote s') = after_turn (?o d) ?w" using matchesD [OF match_operations(1) call] by (intro arrived) simp
  have "db_reachable nb K d" "hosts_sendable d" using use d by (simp_all add: world_in_use_def)
  then show ?thesis using world_next [OF use] company_leaves(3) [OF use] assms(3) d s' by simp
qed

lemma catalogue_init:
  fixes s :: "cluster client"
  assumes use: "world_in_use menv nb K u n others (auth_token s) (fst (remote s))" and send: "deliverable env n b hs" and known: "set hs \<subseteq> K"
    and "no_such_file u n (tables (fst (remote s)))" and call: "InitializeUpload env (cluster_network env menv nb others ossl) hs s = (Inr ps, s')"
  shows "world_in_use menv nb K u n others (auth_token s) (fst (remote s')) \<and> no_such_file u n (tables (fst (remote s'))) \<and>
    committable hs (tables (fst (remote s'))) \<and> plan_hash ` set ps \<subseteq> set hs"
proof -
  let ?w = "fst (remote s)" and ?R = "busy others (PostgresRepository nb)" and ?o = "others (turn (fst (remote s)) + 1)"
  have here: "InitializeUpload env (with_master menv ?R) hs (at_master s) = (Inr ps, at_master s')" by (rule matchesD [OF match_operations(2) call])
  obtain x d where op: "FilterMissingChunks (now ?w) nb hs (tables ?w) = (x, d)" by fastforce
  then have turn: "op_FilterMissingChunks ?R hs (remote (at_master s)) = (x, after_turn (?o d) ?w)"
    using turn_of [of "\<lambda>pg. FilterMissingChunks pg nb hs"] by (simp add: busy_def PostgresRepository_def)
  have fit: "list_all utf8 hs" "body_fits env (hashes_json hs)" using send deliverable_utf8 by (auto simp: deliverable_def)
  note remote_init = InitializeUpload_remote [OF session_at [OF use] fit, of ?R]
  show ?thesis
  proof (cases x)
    case (Inl e)
    then show ?thesis using remote_init(2) [OF turn [unfolded Inl]] here by auto
  next
    case (Inr qs)
    have ok: "list_all plan_sendable qs" using negotiation_sendable [OF op [unfolded Inr]] use deliverable_utf8 [OF send]
      by (simp add: world_in_use_def list_all_iff)
    from remote_init(1) [OF turn [unfolded Inr] ok] have s': "ps = qs" "fst (remote s') = after_turn (?o d) ?w"
      using here by (auto intro: arrived)
    note neg = FilterMissingChunks_Inr [OF op [unfolded Inr]]
    have reach: "db_reachable nb K d" using use op db_reachable.step [OF _ requested(3)] by (auto simp: world_in_use_def)
    then have inv: "store_inv K d" by (rule reachable_store_inv)
    have "committable hs d"
      unfolding committable_def
    proof
      fix h assume h: "h \<in> set hs"
      then obtain r where r: "find_chunk h d = Some r" "ref_count r \<noteq> -1"
        using negotiated_rowD [OF neg(1), of h] by (cases "find_chunk h (tables ?w)") (auto simp: new_row_def)
      have "h \<in> K" using h known by blast
      then show "plain_element h \<and> live h d"
        using store_inv_counted [OF inv _ r(1)] r send h by (auto simp: counted_def deliverable_def live_def)
    qed
    then have "committable hs (?o d)" by (rule company_leaves(2) [OF use known])
    moreover have "plan_hash ` set qs \<subseteq> set hs" using neg(2) by (metis filter_is_subset image_set)
    moreover have "no_such_file u n (?o d)"
      using neg(1) assms(4) by (simp add: company_leaves(3) [OF use]) (simp add: negotiated_def no_such_file_def)
    moreover have "hosts_sendable d" using negotiated_hosts [OF neg(1)] use by (simp add: world_in_use_def)
    ultimately show ?thesis using s' world_next [OF use reach] by simp
  qed
qed


lemma catalogue_commit:
  fixes s :: "cluster client"
  assumes use: "world_in_use menv nb K u n others (auth_token s) (fst (remote s))" and send: "deliverable env n b hs"
    and new: "no_such_file u n (tables (fst (remote s)))" and ready: "committable hs (tables (fst (remote s)))"
    and call: "CommitFile_call env (cluster_network env menv nb others ossl) n b hs s = (Inr True, s')"
  shows "world_in_use menv nb K u n others (auth_token s) (fst (remote s')) \<and> world_records u (fst (remote s')) n b hs"
proof -
  let ?w = "fst (remote s)" and ?R = "busy others (PostgresRepository nb)" and ?o = "others (turn (fst (remote s)) + 1)"
  have here: "CommitFile_call env (with_master menv ?R) n b hs (at_master s) = (Inr True, at_master s')" by (rule matchesD [OF match_operations(3) call])
  obtain x d where op: "CommitFile (now ?w) u n b hs (tables ?w) = (x, d)" by fastforce
  then have turn: "op_CommitFile ?R u n b hs (remote (at_master s)) = (x, after_turn (?o d) ?w)"
    using turn_of [of "\<lambda>pg. CommitFile pg u n b hs"] by (simp add: busy_def PostgresRepository_def)
  have fit: "utf8 n" "llong_range b" "list_all utf8 hs" "body_fits env (commit_json n b hs)" "\<forall>h\<in>set hs. plain_element h"
    using send deliverable_utf8 by (auto simp: deliverable_def)
  have "x = Inr () \<and> at_master s' = (at_master s)\<lparr>remote := after_turn (?o d) ?w\<rparr>"
    using here CommitFile_remote [OF session_at [OF use] fit(1-4) turn] by simp
  then have s': "x = Inr ()" "fst (remote s') = after_turn (?o d) ?w" by (simp_all add: arrived)
  then have d: "d = committed (now ?w) u n b hs hs (tables ?w)"
    using CommitFile_plain [OF _ now_ok [OF use] fit(5)] op by simp
  have reach: "db_reachable nb K d"
    using use op db_reachable.step [OF _ requested(4) [OF commit_counts_plain [OF ready now_ok [OF use]]]] by (auto simp: world_in_use_def)
  have "hosts_sendable d" using use d by (simp add: world_in_use_def hosts_sendable_def committed_def)
  moreover have "world_records u (after_turn (?o d) ?w) n b hs"
    using new d by (simp add: world_records_def company_leaves(1) [OF use]) (simp add: committed_def file_matches_iff no_such_file_def)
  ultimately show ?thesis using s'(2) world_next [OF use reach] by simp
qed

lemma catalogue_plan:
  fixes s :: "cluster client"
  assumes use: "world_in_use menv nb K u n others (auth_token s) (fst (remote s))" and send: "deliverable env n b hs" and known: "set hs \<subseteq> K"
    and rec: "world_records u (fst (remote s)) n b hs" and call: "GetDownloadPlan_call env (cluster_network env menv nb others ossl) n s = (Inr m, s')"
  shows "file_size m = b \<and> map plan_hash (plans m) = hs"
proof -
  let ?w = "fst (remote s)" and ?R = "busy others (PostgresRepository nb)" and ?o = "others (turn (fst (remote s)) + 1)"
  have here: "GetDownloadPlan_call env (with_master menv ?R) n (at_master s) = (Inr m, at_master s')" by (rule matchesD [OF match_operations(4) call])
  obtain x d where op: "GetDownloadPlan (now ?w) u n (tables ?w) = (x, d)" by fastforce
  then have turn: "op_GetDownloadPlan ?R u n (remote (at_master s)) = (x, after_turn (?o d) ?w)"
    using turn_of [of "\<lambda>pg. GetDownloadPlan pg u n"] by (simp add: busy_def PostgresRepository_def)
  have name: "name_fits n" using send by (simp add: deliverable_def)
  have inv: "store_inv K (tables ?w)" using use reachable_store_inv by (auto simp: world_in_use_def)
  obtain f where f: "filter (file_matches u n) (files (tables ?w)) = [f]" "file_bytes f = b" "file_chunks f = hs"
    using rec by (auto simp: world_records_def)
  show ?thesis
  proof (cases x)
    case (Inl e)
    then show ?thesis using GetDownloadPlan_remote(2) [OF session_at [OF use] name turn [unfolded Inl], of env] here by auto
  next
    case (Inr p)
    have up: "connects (now ?w)" "commits (now ?w)" using op Inr by (auto simp: GetDownloadPlan_def transact_eq_Inr)
    have "f \<in> set (filter (file_matches u n) (files (tables ?w)))" by (simp add: f(1))
    then have "f \<in> set (files (tables ?w))" by simp
    then have "filter (\<lambda>h. find_chunk h (tables ?w) \<noteq> None) hs = hs" using store_inv_file [OF inv] f(3) known by (auto simp: filter_id_conv)
    then have p: "file_size p = b" "map plan_hash (plans p) = hs"
      using GetDownloadPlan_one [OF f(1) up] op Inr f(2,3) by auto
    have "g = f" if "g \<in> set (files (tables ?w))" "file_matches u n g" for g
      using that arg_cong [OF f(1), of set] by auto
    then have "list_all plan_sendable (plans p)"
      using plan_sendable_rows [OF op [unfolded Inr]] use f(3) send by (auto simp: world_in_use_def deliverable_def)
    moreover have "llong_range (file_size p)" using p(1) send by (simp add: deliverable_def)
    ultimately have "m = p" using GetDownloadPlan_remote(1) [OF session_at [OF use] name turn [unfolded Inr]] here by simp
    then show ?thesis using p by simp
  qed
qed

text \<open>A chunk that is posted to the master finds no route.\<close>

lemma catalogue_chunk:
  assumes "addressable_hash h" and "cluster_network env menv nb others ossl url ''POST'' (''/chunk?hash='' @ h) [] body w = (r, w')"
  shows "fst w' = fst w"
proof -
  obtain req where "exchange (MasterServer menv (busy others (PostgresRepository nb))) ''POST'' (''/chunk?hash='' @ h) [] body (fst w) =
      MasterServer menv (busy others (PostgresRepository nb)) req (fst w)" "req_method req = ''POST''" "req_path req = ''/chunk''"
    using chunk_target [OF assms(1)] by metis
  moreover from this have "MasterServer menv (busy others (PostgresRepository nb)) req (fst w) = (Some (with_status 404), fst w)"
    by (simp add: MasterServer_def serve_def master_routes_def)
  ultimately show ?thesis using assms(2) by (auto simp: cluster_network_def split: if_splits prod.splits)
qed

interpretation catalogue: file_catalog "cluster_network env menv nb others ossl" env fst "world_in_use menv nb K u name others"
    "\<lambda>n b hs. deliverable env n b hs \<and> n = name \<and> set hs \<subseteq> K" addressable_hash
    "\<lambda>w n. no_such_file u n (tables w)" "\<lambda>w hs. committable hs (tables w)" "world_records u"
proof (unfold_locales, goal_cases)
  case 1
  then show ?case using catalogue_exists by blast
next
  case 2
  then show ?case using catalogue_init by blast
next
  case 3
  then show ?case using catalogue_commit by blast
next
  case 4
  then show ?case using catalogue_plan by blast
next
  case 5
  then show ?case by (rule catalogue_chunk)
next
  case 6
  then show ?case by (simp add: deliverable_def)
qed

end
