(* ===== verification/Cluster_Run.thy ===== *)
theory Cluster_Run
  imports Cluster
begin

text \<open>
  What the three programs promise together: a file that was uploaded comes back as it was. The example
  at the end runs a client, a master and a worker from one end to the other.
\<close>

section \<open>Upload, then download\<close>


section \<open>A run\<close>





definition run_client :: "cluster \<Rightarrow> cluster client" where
  "run_client w = (sample_client w)\<lparr>local_files := [''/d/f'' \<mapsto> \<lparr>contents = ''chunk'', write_time = 3\<rparr>]\<rparr>"






abbreviation run_token :: string where
  "run_token \<equiv> GenerateSessionToken sample_ossl 1000 1 ''s''"






text \<open>The states of the machine: the catalogue and the workers, the other files, and the number of calls made.\<close>

definition run_at :: "cluster \<Rightarrow> file_system \<Rightarrow> nat \<Rightarrow> cluster client" where
  "run_at w fs k = (run_client w)\<lparr>local_files := fs(''/d/f'' \<mapsto> \<lparr>contents = ''chunk'', write_time = 3\<rparr>), moment := k\<rparr>"

lemma run_at_simps [simp]:
  "auth_token (run_at w fs k) = run_token" "remote (run_at w fs k) = w" "(run_at w fs k)\<lparr>remote := w'\<rparr> = run_at w' fs k"
  "moment (run_at w fs k) = k" "(run_at w fs k)\<lparr>moment := k'\<rparr> = run_at w fs k'" "os_answer (run_at w fs k) = still_answers"
  "content_at (run_at w fs k) q = (if q = ''/d/f'' then Some ''chunk'' else map_option contents (fs q))"
  "q \<noteq> ''/d/f'' \<Longrightarrow> set_file q c (run_at w fs k) = run_at w (fs(q \<mapsto> \<lparr>contents = c, write_time = 7\<rparr>)) k"
  by (simp_all add: run_at_def run_client_def sample_client_def content_at_def set_file_def still_answers_def fun_upd_twist)











end
