(* ===== verification/Upload_Tasks.thy ===== *)
theory Upload_Tasks
  imports DSE_Client "HOL-Library.Word"
begin

text \<open>
  The chunks that an upload sends, and the bytes that it reports for them: 64-bit arithmetic over the
  tasks at the end of \<^verbatim>\<open>UploadFile\<close>.
\<close>

section \<open>Which chunks are sent\<close>

text \<open>C31: The two pointers find every chunk that is due. When the plans of the master are those of the missing
  chunks of the file in the file's order, which is how it answers, one pass over both gives exactly the indices of
  the missing chunks that are not completed, each with its own plan, and repeated chunks keep a task each.\<close>

theorem correlation_exact:
  assumes "map plan_hash ps = filter needed hashes" and "length hashes \<le> 2 ^ 31"
  shows "correlate completed 0 hashes ps = tasks_due needed completed 0 hashes ps"
  by (rule correlate_due [OF assms(1)]) (use assms(2) in \<open>simp flip: of_nat_le_iff\<close>)

lemma correlation_exact_witness:
  "correlate [False, False, True, False] 0 [''a'', ''b'', ''a'', ''a'']
     [\<lparr>plan_hash = ''a'', assigned_nodes = []\<rparr>, \<lparr>plan_hash = ''a'', assigned_nodes = []\<rparr>, \<lparr>plan_hash = ''a'', assigned_nodes = []\<rparr>] =
   [(0, \<lparr>plan_hash = ''a'', assigned_nodes = []\<rparr>), (3, \<lparr>plan_hash = ''a'', assigned_nodes = []\<rparr>)]"
  by (subst correlation_exact [where needed = "\<lambda>h. h = ''a''"]) (simp_all add: tasks_due_def)

section \<open>Which bytes are reported\<close>

definition add_transferred :: "nat \<Rightarrow> 64 word \<Rightarrow> (int \<times> ChunkRoutingPlan) \<Rightarrow> 64 word \<Rightarrow> 64 word" where
  "add_transferred chunk_size initial_size task transferred_bytes =
     (let offset = word_of_int (fst task) * word_of_nat chunk_size
      in if offset < initial_size then transferred_bytes + min (word_of_nat chunk_size) (initial_size - offset) else transferred_bytes)"

definition transferred_bytes :: "nat \<Rightarrow> 64 word \<Rightarrow> (int \<times> ChunkRoutingPlan) list \<Rightarrow> 64 word" where
  "transferred_bytes chunk_size initial_size pending_tasks = fold (add_transferred chunk_size initial_size) pending_tasks 0"

text \<open>The length of the chunk at an index, in a file of a bytes.\<close>

definition chunk_length :: "nat \<Rightarrow> nat \<Rightarrow> int \<Rightarrow> int" where
  "chunk_length n bytes i = max 0 (min (int n) (int bytes - i * int n))"

lemma add_transferred_uint:
  assumes "0 < n" and "bytes < 2 ^ 63" and "n < 2 ^ 32" and "0 \<le> i" and "i < 2 ^ 31" and "uint acc + chunk_length n bytes i < 2 ^ 64"
  shows "uint (add_transferred n (word_of_nat bytes) (i, plan) acc) = uint acc + chunk_length n bytes i"
proof -
  have "i * int n \<le> 2 ^ 31 * 2 ^ 32" using assms(3-5) by (intro mult_mono) auto
  then have small: "i * int n < 2 ^ 64" "0 \<le> i * int n" using assms(4) by simp_all
  have off: "uint (word_of_int i * word_of_nat n :: 64 word) = i * int n"
    using small assms(3-5) by (simp add: uint_word_arith_bintrs take_bit_eq_mod unsigned_of_nat unsigned_of_int)
  have sz: "uint (word_of_nat bytes :: 64 word) = int bytes" "uint (word_of_nat n :: 64 word) = int n"
    using assms(2,3) by (simp_all add: unsigned_of_nat take_bit_eq_mod)
  show ?thesis
  proof (cases "i * int n < int bytes")
    case True
    then have lt: "word_of_int i * word_of_nat n < (word_of_nat bytes :: 64 word)" by (simp add: word_less_def off sz)
    have sub: "uint (word_of_nat bytes - word_of_int i * word_of_nat n :: 64 word) = int bytes - i * int n"
      using lt True by (simp add: uint_sub_if' off sz)
    have mn: "uint (min (word_of_nat n) (word_of_nat bytes - word_of_int i * word_of_nat n) :: 64 word) = chunk_length n bytes i"
      using True by (auto simp: min_def word_le_def sub sz chunk_length_def)
    have "0 \<le> chunk_length n bytes i" by (simp add: chunk_length_def)
    then have "0 \<le> uint acc + chunk_length n bytes i" using uint_ge_0 [of acc] by linarith
    then show ?thesis using lt assms(6) by (simp add: add_transferred_def Let_def uint_word_arith_bintrs take_bit_eq_mod mn)
  next
    case False
    then have "chunk_length n bytes i = 0" by (simp add: chunk_length_def)
    moreover have "\<not> word_of_int i * word_of_nat n < (word_of_nat bytes :: 64 word)" using False by (simp add: word_less_def off sz)
    ultimately show ?thesis by (simp add: add_transferred_def)
  qed
qed

lemma chunk_length_sum: "(\<Sum>i<k. chunk_length n bytes (int i)) = min (int bytes) (int k * int n)"
proof (induction k)
  case (Suc k)
  have "chunk_length n bytes (int k) = min (int bytes) (int (Suc k) * int n) - min (int bytes) (int k * int n)"
    by (auto simp: chunk_length_def min_def max_def distrib_right)
  then show ?case using Suc by simp
qed simp

lemma chunk_lengths_fit:
  assumes "distinct is" and "\<forall>i\<in>set is. 0 \<le> i"
  shows "(\<Sum>i\<leftarrow>is. chunk_length n bytes i) \<le> int bytes"
proof -
  have ge: "0 \<le> chunk_length n bytes i" for i by (simp add: chunk_length_def)
  obtain k where k: "\<forall>i\<in>set is. nat i < k" using finite_nat_set_iff_bounded [of "nat ` set is"] by auto
  have "(\<Sum>i\<leftarrow>is. chunk_length n bytes i) = (\<Sum>i\<in>set is. chunk_length n bytes i)" using assms(1) by (simp add: sum_list_distinct_conv_sum_set)
  also have "\<dots> \<le> (\<Sum>i\<in>int ` {..<k}. chunk_length n bytes i)"
    by (intro sum_mono2) (use k assms(2) ge in \<open>auto simp: image_iff intro: nat_0_le [symmetric]\<close>)
  also have "\<dots> = (\<Sum>i<k. chunk_length n bytes (int i))" by (simp add: sum.reindex)
  finally show ?thesis by (simp add: chunk_length_sum)
qed

lemma transferred_uint:
  assumes "0 < n" and "n < 2 ^ 32" and "bytes < 2 ^ 63"
  shows "\<forall>t\<in>set tasks. 0 \<le> fst t \<and> fst t < 2 ^ 31 \<Longrightarrow> uint acc + (\<Sum>t\<leftarrow>tasks. chunk_length n bytes (fst t)) < 2 ^ 64 \<Longrightarrow>
    uint (fold (add_transferred n (word_of_nat bytes)) tasks acc) = uint acc + (\<Sum>t\<leftarrow>tasks. chunk_length n bytes (fst t))"
proof (induction tasks arbitrary: acc)
  case (Cons t tasks)
  have "0 \<le> (\<Sum>t\<leftarrow>tasks. chunk_length n bytes (fst t))" by (rule sum_list_nonneg) (auto simp: chunk_length_def)
  then have step: "uint (add_transferred n (word_of_nat bytes) t acc) = uint acc + chunk_length n bytes (fst t)"
    using add_transferred_uint [OF assms(1,3,2), of "fst t" acc "snd t"] Cons.prems by simp
  show ?case using Cons.IH [of "add_transferred n (word_of_nat bytes) t acc"] Cons.prems step by simp
qed simp

lemma correlate_ascending:
  "int i + int (length hs) \<le> 2 ^ 31 \<Longrightarrow> sorted_wrt (<) (map fst (correlate completed i hs ps)) \<and>
    (\<forall>t\<in>set (correlate completed i hs ps). int i \<le> fst t \<and> fst t < 2 ^ 31)"
proof (induction completed i hs ps rule: correlate.induct)
  case (1 completed i h hs plan ps)
  have wide: "int (i + 1) + int (length hs) \<le> 2 ^ 31" "to_int32 (int i) = int i" "int i < 2 ^ 31"
    using "1.prems" by (auto intro!: to_int32_id simp: int_range_def)
  have IH: "sorted_wrt (<) (map fst (correlate completed (i + 1) hs qs)) \<and> (\<forall>t\<in>set (correlate completed (i + 1) hs qs). int (i + 1) \<le> fst t \<and> fst t < 2 ^ 31)"
    if "qs = ps \<and> h = plan_hash plan \<or> qs = plan # ps \<and> h \<noteq> plan_hash plan" for qs
    using that "1.IH" wide(1) by blast
  show ?case
  proof (cases "h = plan_hash plan")
    case True
    have "int i < fst t" "int i \<le> fst t" "fst t < 2 ^ 31" if "t \<in> set (correlate completed (i + 1) hs ps)" for t
      using IH [of ps] True that by fastforce+
    then show ?thesis using IH [of ps] True wide(2,3) by (auto simp del: correlate.simps(2))
  next
    case False
    have "int i \<le> fst t" "fst t < 2 ^ 31" if "t \<in> set (correlate completed (i + 1) hs (plan # ps))" for t
      using IH [of "plan # ps"] False that by fastforce+
    then show ?thesis using IH [of "plan # ps"] False by simp
  qed
qed simp_all

text \<open>The report of an upload does not overflow: the number of transferred bytes, computed in 64-bit words from
  the tasks, is the exact sum of the lengths of the chunks that were sent, and never more than the size of the file.\<close>

theorem transferred_bytes_exact:
  assumes "0 < n" and "n < 2 ^ 32" and "bytes < 2 ^ 63" and "length hashes \<le> 2 ^ 31"
  shows "uint (transferred_bytes n (word_of_nat bytes) (correlate completed 0 hashes ps)) =
      (\<Sum>t\<leftarrow>correlate completed 0 hashes ps. chunk_length n bytes (fst t)) \<and>
    uint (transferred_bytes n (word_of_nat bytes) (correlate completed 0 hashes ps)) \<le> int bytes"
proof -
  let ?ts = "correlate completed 0 hashes ps"
  have "int 0 + int (length hashes) \<le> 2 ^ 31" using assms(4) by (simp flip: of_nat_le_iff)
  then have asc: "sorted_wrt (<) (map fst ?ts)" "\<forall>t\<in>set ?ts. 0 \<le> fst t \<and> fst t < 2 ^ 31"
    using correlate_ascending [of 0 hashes completed ps] by auto
  have fit: "(\<Sum>t\<leftarrow>?ts. chunk_length n bytes (fst t)) \<le> int bytes"
    using chunk_lengths_fit [of "map fst ?ts" n bytes] asc by (simp add: strict_sorted_iff comp_def)
  then have "(\<Sum>t\<leftarrow>?ts. chunk_length n bytes (fst t)) < 2 ^ 64" using assms(3) by (simp flip: of_nat_less_iff)
  then have exact: "uint (transferred_bytes n (word_of_nat bytes) ?ts) = (\<Sum>t\<leftarrow>?ts. chunk_length n bytes (fst t))"
    using transferred_uint [OF assms(1-3) asc(2), of 0] by (simp add: transferred_bytes_def)
  then show ?thesis using fit by simp
qed

lemma transferred_bytes_exact_witness:
  "uint (transferred_bytes (1024 * 1024) (word_of_nat 1500000) (correlate [False, False] 0 [''a'', ''b''] [\<lparr>plan_hash = ''b'', assigned_nodes = []\<rparr>])) = 451424"
  using transferred_bytes_exact [of "1024 * 1024" 1500000 "[''a'', ''b'']" "[False, False]" "[\<lparr>plan_hash = ''b'', assigned_nodes = []\<rparr>]"]
  by (simp add: chunk_length_def to_int32_id int_range_def)

end
