(* ===== verification/Command_Line.thy ===== *)
theory Command_Line
  imports Upload_Session Shutdown
begin

text \<open>
  \<^verbatim>\<open>client/cli/CLI.cpp\<close> and \<^verbatim>\<open>client/main.cpp\<close>: the commands, the environment they
  read, their exit codes, and the handler that turns a signal into a pause.
\<close>

section \<open>Signals\<close>

text \<open>The handler with the value of the global pointer: it exits, or it leaves the state of the transfer so.\<close>

definition SignalHandler_cli :: "signal \<Rightarrow> TransferState option \<Rightarrow> int + TransferState option" where
  "SignalHandler_cli sig global_transfer_state =
     (if sig = SIGINT \<or> sig = SIGTERM then
        (case global_transfer_state of
           Some st \<Rightarrow> Inr (Some (if st = RUNNING then PAUSED else st))
         | None \<Rightarrow> Inl 1)
      else Inr global_transfer_state)"

text \<open>The states of a transfer are ordered by how far they have stopped it.\<close>

definition stopped :: "TransferState \<Rightarrow> nat" where
  "stopped st = (case st of RUNNING \<Rightarrow> 0 | PAUSED \<Rightarrow> 1 | CANCELED \<Rightarrow> 2)"

instantiation TransferState :: linorder
begin

definition less_eq_TransferState :: "TransferState \<Rightarrow> TransferState \<Rightarrow> bool" where
  "st \<le> st' \<longleftrightarrow> stopped st \<le> stopped st'"

definition less_TransferState :: "TransferState \<Rightarrow> TransferState \<Rightarrow> bool" where
  "st < st' \<longleftrightarrow> stopped st < stopped st'"

instance
  by intro_classes (auto simp: less_eq_TransferState_def less_TransferState_def stopped_def split: TransferState.splits)

end

lemma order_states: "RUNNING \<le> st" "st \<le> RUNNING \<longleftrightarrow> st = RUNNING" "st \<le> PAUSED \<longleftrightarrow> st \<noteq> CANCELED"
  by (cases st; simp add: less_eq_TransferState_def stopped_def)+

lemma stop_is_final_mono: "mono (transfer_state (os_answer s)) \<Longrightarrow> stop_is_final s"
  unfolding stop_is_final_def by (metis monoD order_states(2))

text \<open>The signals that have arrived, in order.\<close>

fun deliver :: "signal list \<Rightarrow> TransferState option \<Rightarrow> int + TransferState option" where
  "deliver [] g = Inr g"
| "deliver (sig # later) g = (case SignalHandler_cli sig g of Inl status_code \<Rightarrow> Inl status_code | Inr g' \<Rightarrow> deliver later g')"

lemma deliver_append: "deliver (xs @ ys) g = (case deliver xs g of Inl status_code \<Rightarrow> Inl status_code | Inr g' \<Rightarrow> deliver ys g')"
proof (induction xs arbitrary: g)
  case (Cons x xs)
  then show ?case by (cases "SignalHandler_cli x g") simp_all
qed simp

text \<open>Signals never take a stop back, and never make more of it than a pause.\<close>

lemma deliver_state: "\<exists>st'. deliver ss (Some st) = Inr (Some st') \<and> st \<le> st' \<and> st' \<le> max st PAUSED"
proof (induction ss arbitrary: st)
  case Nil
  then show ?case by simp
next
  case (Cons x ss)
  define st1 where "st1 = (if (x = SIGINT \<or> x = SIGTERM) \<and> st = RUNNING then PAUSED else st)"
  have "SignalHandler_cli x (Some st) = Inr (Some st1)" by (simp add: st1_def SignalHandler_cli_def)
  moreover have "st \<le> st1" "max st1 PAUSED = max st PAUSED" by (simp_all add: st1_def order_states max_def)
  ultimately show ?case using Cons [of st1] by auto
qed

text \<open>A signal pauses and nothing else: whatever signals arrive while a command runs, and however often, its
  transfer is running or paused, never canceled, and a transfer that was paused stays so. The other theorems on
  transfers assume the latter.\<close>

theorem signals_only_pause:
  assumes "\<forall>k. deliver (arrived k) (Some RUNNING) = Inr (Some (transfer_state (os_answer s) k))"
    and "\<forall>k. \<exists>more. arrived (Suc k) = arrived k @ more"
  shows "stop_is_final s \<and> (\<forall>k. transfer_state (os_answer s) k \<in> {RUNNING, PAUSED})"
proof -
  let ?st = "transfer_state (os_answer s)"
  have "?st k \<le> ?st (Suc k)" for k
  proof -
    obtain more where "arrived (Suc k) = arrived k @ more" using assms(2) by blast
    then have "deliver more (Some (?st k)) = Inr (Some (?st (Suc k)))" using assms(1) by (metis deliver_append sum.case(2))
    then show ?thesis using deliver_state [of more "?st k"] by auto
  qed
  then have "mono ?st" by (rule mono_iff_le_Suc [THEN iffD2, OF allI])
  moreover have "?st k \<in> {RUNNING, PAUSED}" for k
    using deliver_state [of "arrived k" RUNNING] assms(1) by (cases "?st k") (auto simp: order_states max_def)
  ultimately show ?thesis by (simp add: stop_is_final_mono)
qed

definition interrupted :: "unit client" where
  "interrupted = (sample_client ())\<lparr>os_answer := still_answers\<lparr>transfer_state := (\<lambda>k. if k < 3 then RUNNING else PAUSED)\<rparr>\<rparr>"

lemma signals_only_pause_witness: "stop_is_final interrupted"
proof -
  have "deliver (replicate (k - 2) SIGINT) (Some RUNNING) = Inr (Some (if k < 3 then RUNNING else PAUSED))" for k
  proof -
    have "deliver (replicate n SIGINT) (Some PAUSED) = Inr (Some PAUSED)" for n by (induction n) (simp_all add: SignalHandler_cli_def)
    then show ?thesis by (cases "k - 2") (auto simp: SignalHandler_cli_def)
  qed
  moreover have "\<exists>more. replicate (Suc k - 2) SIGINT = replicate (k - 2) SIGINT @ more" for k
    by (rule exI [of _ "replicate (Suc k - 2 - (k - 2)) SIGINT"]) (simp flip: replicate_add)
  ultimately show ?thesis using signals_only_pause [of "\<lambda>k. replicate (k - 2) SIGINT" interrupted] by (simp add: interrupted_def)
qed

section \<open>Commands\<close>

definition resolve_master_url :: "string option \<Rightarrow> string" where
  "resolve_master_url env_master_url = (case env_master_url of Some h \<Rightarrow> ''http://'' @ h | None \<Rightarrow> ''http://localhost:80'')"

definition process_env :: "openssl \<Rightarrow> (double \<Rightarrow> string) \<Rightarrow> (string \<Rightarrow> string option) \<Rightarrow> string \<Rightarrow> client_env" where
  "process_env ossl fl getenv current_path =
     \<lparr>c_ossl = ossl, c_float = fl, master_url = resolve_master_url (getenv ''MASTER_LB_HOST''),
      home_directory = GetHomeDirectory (getenv ''HOME'') (getenv ''USERPROFILE'') current_path\<rparr>"

definition exit_code :: "bool \<Rightarrow> int" where
  "exit_code success = (if success then 0 else 1)"

definition route_command :: "'w DSEClient \<Rightarrow> string list \<Rightarrow> ('w client, int) action" where
  "route_command c argv =
     (let argc = length argv; command = argv ! 1; finish = (\<lambda>m. andthen m (\<lambda>b. ret (exit_code b)))
      in if command = ''signup'' then
           (if argc < 4 then ret 1 else finish (Signup c (argv ! 2) (argv ! 3)))
         else if command = ''login'' then
           (if argc < 4 then ret 1 else finish (Login c (argv ! 2) (argv ! 3)))
         else if command = ''upload'' then
           (if argc < 3 then ret 1 else finish (UploadFile CHUNK_SIZE c (argv ! 2)))
         else if command = ''download'' then
           (if argc < 4 then ret 1 else finish (DownloadFile CHUNK_SIZE c (argv ! 2) (argv ! 3)))
         else if command = ''delete'' then
           (if argc < 3 then ret 1 else finish (RemoveFile c (argv ! 2)))
         else ret 1)"

definition Run :: "'w network \<Rightarrow> client_env \<Rightarrow> string list \<Rightarrow> ('w client, int) action" where
  "Run net env argv =
     (if length argv < 2 then ret 1
      else andthen (new_DSEClient env net) (\<lambda>client. try_catch (route_command client argv) (\<lambda>_. ret 1)))"

text \<open>A process starts with the files and the network of the one before it, and with no token.\<close>

definition new_process :: "'w client \<Rightarrow> 'w client" where
  "new_process s = s\<lparr>auth_token := [], file_stream := None\<rparr>"

definition main_client :: "'w network \<Rightarrow> client_env \<Rightarrow> string list \<Rightarrow> ('w client, int) action" where
  "main_client net env argv = (\<lambda>s. Run net env argv (new_process s))"

section \<open>The session of a login\<close>

lemma readable_as_read: "readable j \<Longrightarrow> readable (as_read j)"
proof (induction j)
  case (JObject m)
  have "readable v" if "(k, v) \<in> set m" for k v using JObject.prems that by (auto simp: readable_object list_all_iff)
  then have "readable (as_read v)" if "(k, v) \<in> set m" for k v using JObject.IH that by (metis snds.intros prod.sel(2) snd_conv)
  then show ?case using JObject.prems by (auto simp: readable_object list_all_iff comp_def)
next
  case (JArray xs)
  then show ?case by (auto simp: readable_array list_all_iff)
qed (auto simp: llong_range_def)

text \<open>A configuration that parses to nothing or to an object that the serializer writes exactly.\<close>

definition config_ready :: "client_env \<Rightarrow> 'w client \<Rightarrow> bool" where
  "config_ready env s \<longleftrightarrow>
     (case content_at s (config_file env) of
        None \<Rightarrow> True
      | Some text \<Rightarrow> (case snd (read_stream text) of JNull \<Rightarrow> True | JObject m \<Rightarrow> readable (JObject m) | _ \<Rightarrow> False))"

lemma assign_values: "list_all P (map snd m) \<Longrightarrow> P v \<Longrightarrow> list_all P (map snd (assign k v m))"
  by (induction k v m rule: assign.induct) auto

lemma token_stored:
  assumes "quiet s" and "config_ready env s" and "SaveAuthToken env token s = (Inr (), s')"
  shows "quiet s' \<and> auth_token s' = auth_token s \<and> config_ready env s' \<and>
    (\<forall>t. quiet t \<longrightarrow> content_at t (config_file env) = content_at s' (config_file env) \<longrightarrow> LoadAuthToken env t = (Inr token, passed t))"
proof -
  let ?p = "config_file env" and ?c = "content_at s (config_file env)"
  define old where "old = (case ?c of None \<Rightarrow> JNull | Some text \<Rightarrow> snd (read_stream text))"
  obtain m where m: "store_member old ''auth_token'' (JString token) = Inr (JObject m)" "readable (JObject m)"
    "map_of m ''auth_token'' = Some (JString token)"
  proof (cases old)
    case JNull
    then show ?thesis using that by (simp add: store_member_def)
  next
    case (JObject m)
    then have "readable (JObject m)" using assms(2) by (auto simp: config_ready_def old_def split: option.splits)
    then have "readable (JObject (assign ''auth_token'' (JString token) m))"
      unfolding readable_object by (simp add: sorted_assign assign_values)
    then show ?thesis using that [of "assign ''auth_token'' (JString token) m"] JObject by (simp add: store_member_def map_of_assign)
  qed (use assms(2) in \<open>auto simp: config_ready_def old_def split: option.splits\<close>)
  obtain out where out: "dump_indent (c_float env) 4 (JObject m) = Inr out" and s': "s' = set_file ?p out (set_file ?p [] (passed (passed s)))"
    using assms(1,3) m(1) [unfolded old_def]
    by (auto simp: SaveAuthToken_def write_json_def andthen_Inr quiet_simps andthen_of_outcome modify_apply old_def split: sum.splits)
  have "dump_value (c_float env) True 4 0 (JObject m) \<noteq> None" using out by (auto simp: dump_indent_def as_outcome_def split: option.splits)
  then have "dumpable (JObject m)" by (simp only: dump_None(1) not_not)
  from written_and_read [OF this m(2)] have read: "read_stream out = (Inr (), as_read (JObject m))" using out by (metis sum.inject(2))
  have member: "map_of (map (map_prod id as_read) m) ''auth_token'' = Some (JString token)" by (simp add: as_read_member m(3))
  have "config_ready env s'"
    using read readable_as_read [OF m(2)] by (simp add: config_ready_def s' quiet_simps)
  moreover have "LoadAuthToken env t = (Inr token, passed t)" if "quiet t" "content_at t ?p = content_at s' ?p" for t
    using that read member
    by (simp add: LoadAuthToken_def andthen_Inr quiet_simps s' ret_apply contains_def subscript_def emplace_def get_string_def)
  moreover have "quiet s' \<and> auth_token s' = auth_token s" using assms(1) s' by (simp add: quiet_simps set_file_def)
  ultimately show ?thesis by blast
qed

lemma start_up:
  assumes "LoadAuthToken env u = (Inr token, v)"
  shows "new_DSEClient env net u = (Inr (subsystems env net), if token = [] then v else v\<lparr>auth_token := token\<rparr>)"
  using assms by (simp add: new_DSEClient_def Let_def andthen_def SetAuthToken_def modify_def ret_def)

lemma login_remote: "remote_only (Login_call env net e p)"
  unfolding Login_call_def try_catch_def
  by (auto simp: remote_only_def andthen_def of_outcome_def http_call_def ret_def split: prod.splits sum.splits option.splits if_splits)

text \<open>C12: A login lasts: on a machine where no call on a file fails, no other program changes the files, and a configuration file,
  if there is one, holds a JSON object, when the command reports success, the token it received is not empty, and every
  later run on such a machine that has kept the configuration file, whatever its command, starts with exactly that token, until
  another login succeeds. Without the first condition it may not: a configuration file that cannot be opened for writing is skipped in
  silence.\<close>

theorem login_lasts:
  assumes "quiet s" and "config_ready env s" and "main_client net env [prog, ''login'', e_mail, password] s = (Inr 0, s')"
    and "quiet t" and "content_at t (config_file env) = content_at s' (config_file env)"
  shows "\<exists>t'. auth_token s' \<noteq> [] \<and> new_DSEClient env net (new_process t) = (Inr (subsystems env net), t') \<and> auth_token t' = auth_token s'"
proof -
  let ?s = "new_process s" and ?c = "subsystems env net"
  have q: "quiet ?s" "content_at ?s = content_at s" using assms(1) by (simp_all add: new_process_def quiet_simps content_at_def fun_eq_iff)
  obtain s1 where start: "new_DSEClient env net ?s = (Inr ?c, s1)" and s1: "quiet s1" "content_at s1 = content_at s"
  proof -
    obtain tok where "LoadAuthToken env ?s = (Inr tok, passed ?s)"
      using q(1) by (simp add: LoadAuthToken_def andthen_Inr quiet_simps ret_apply)
    from that [OF start_up [OF this]] q show ?thesis by (simp add: quiet_simps content_at_def fun_eq_iff)
  qed
  have "Login ?c e_mail password s1 = (Inr True, s')"
    using assms(3) start
    by (auto simp: main_client_def Run_def andthen_Inr route_command_def Let_def try_catch_def exit_code_def andthen_def ret_def
        split: prod.splits sum.splits if_splits)
  then obtain token s2 where login: "Login_call env net e_mail password s1 = (Inr token, s2)" and token: "token \<noteq> []"
    and save: "SaveAuthToken env token (s2\<lparr>auth_token := token\<rparr>) = (Inr (), s')"
    by (auto simp: Login_def andthen_eq_Inr SetAuthToken_def modify_def ret_eq_Inr split: if_splits)
  obtain w where "s2 = s1\<lparr>remote := w\<rparr>" using remote_onlyD [OF login_remote login] by blast
  then have s2: "quiet (s2\<lparr>auth_token := token\<rparr>)" "config_ready env (s2\<lparr>auth_token := token\<rparr>)"
    using s1 assms(2) by (simp_all add: quiet_simps config_ready_def content_at_def fun_eq_iff)
  from token_stored [OF s2 save] have s': "auth_token s' = token"
    and load: "\<And>t. quiet t \<Longrightarrow> content_at t (config_file env) = content_at s' (config_file env) \<Longrightarrow> LoadAuthToken env t = (Inr token, passed t)" by auto
  have "LoadAuthToken env (new_process t) = (Inr token, passed (new_process t))"
    by (rule load) (use assms(4,5) in \<open>simp_all add: new_process_def quiet_simps content_at_def\<close>)
  from start_up [OF this] show ?thesis using token s' by simp
qed

definition granting :: "unit network" where
  "granting url m target headers body w = (Some (answer 200 (''{'' @ [CHR 0x22] @ ''token'' @ [CHR 0x22] @ '':'' @ [CHR 0x22] @ ''t.1'' @ [CHR 0x22] @ ''}'')), w)"

lemma login_lasts_witness:
  "\<exists>s' t'. main_client granting sample_client_env [''dse'', ''login'', ''a@b.c'', ''pw''] (sample_client ()) = (Inr 0, s') \<and> auth_token s' \<noteq> [] \<and>
     new_DSEClient sample_client_env granting (new_process ((sample_client ())\<lparr>local_files := local_files s'\<rparr>)) = (Inr (subsystems sample_client_env granting), t') \<and> auth_token t' = auth_token s'"
proof -
  let ?run = "main_client granting sample_client_env [''dse'', ''login'', ''a@b.c'', ''pw''] (sample_client ())"
  have "fst ?run = Inr 0" by code_simp
  then obtain s' where run: "?run = (Inr 0, s')" by (metis prod.collapse)
  let ?t = "(sample_client ())\<lparr>local_files := local_files s'\<rparr>"
  have "quiet (sample_client ())" "quiet ?t" "content_at ?t = content_at s'" "config_ready sample_client_env (sample_client ())"
    by (simp_all add: quiet_def config_ready_def content_at_def sample_client_def still_answers_def fun_eq_iff)
  then show ?thesis using login_lasts [of "sample_client ()" sample_client_env granting "''dse''" "''a@b.c''" "''pw''" s' ?t] run by auto
qed

end
