(* ===== verification/Thread_Pool.thy ===== *)
theory Thread_Pool
  imports Prelude "HOL-Library.Multiset"
begin

text \<open>
  \<^verbatim>\<open>common/Semaphore.hpp\<close> and the \<^verbatim>\<open>ThreadPool\<close> of \<^verbatim>\<open>common/httplib.h\<close>, on
  which the transfers, the collector and both servers run: step relations of their critical sections. A
  section under the mutex is one step; a wait on the condition variable splits it in two.
\<close>

section \<open>The semaphore\<close>

text \<open>The threads inside \<^verbatim>\<open>cv.wait\<close>, those of them that have been woken, and the permits that are out.\<close>

record 't semaphore =
  count :: int
  asleep :: "'t list"
  awake :: "'t list"
  permits :: nat

definition new_Semaphore :: "int \<Rightarrow> 't semaphore" where
  "new_Semaphore c = \<lparr>count = c, asleep = [], awake = [], permits = 0\<rparr>"

text \<open>The test of the predicate under the lock, on entry and after each wake-up.\<close>

definition test_count :: "'t \<Rightarrow> 't semaphore \<Rightarrow> 't semaphore" where
  "test_count t s =
     (if count s > 0 then s\<lparr>count := count s - 1, permits := permits s + 1\<rparr> else s\<lparr>asleep := t # asleep s\<rparr>)"

definition acquire :: "'t \<Rightarrow> 't semaphore \<Rightarrow> 't semaphore" where
  "acquire t s = test_count t s"

definition resume :: "'t \<Rightarrow> 't semaphore \<Rightarrow> 't semaphore" where
  "resume t s = test_count t (s\<lparr>awake := remove1 t (awake s)\<rparr>)"

definition wake :: "'t \<Rightarrow> 't semaphore \<Rightarrow> 't semaphore" where
  "wake t s = s\<lparr>asleep := remove1 t (asleep s), awake := t # awake s\<rparr>"

text \<open>\<^verbatim>\<open>release\<close>, called by the destructor of a permit; \<open>notified\<close> is the thread that \<^verbatim>\<open>notify_one\<close> picks.\<close>

definition release :: "'t option \<Rightarrow> 't semaphore \<Rightarrow> 't semaphore" where
  "release notified s =
     (let s = s\<lparr>count := count s + 1, permits := permits s - 1\<rparr>
      in case notified of None \<Rightarrow> s | Some t \<Rightarrow> wake t s)"

inductive sem_step :: "'t semaphore \<Rightarrow> 't semaphore \<Rightarrow> bool" where
  acquires: "sem_step s (acquire t s)"
| resumes: "t \<in> set (awake s) \<Longrightarrow> sem_step s (resume t s)"
| spurious: "t \<in> set (asleep s) \<Longrightarrow> sem_step s (wake t s)"
| releases: "0 < permits s \<Longrightarrow> (case x of None \<Rightarrow> asleep s = [] | Some t \<Rightarrow> t \<in> set (asleep s)) \<Longrightarrow> sem_step s (release x s)"

inductive sem_reachable :: "int \<Rightarrow> 't semaphore \<Rightarrow> bool" for c where
  init: "sem_reachable c (new_Semaphore c)"
| step: "sem_reachable c s \<Longrightarrow> sem_step s s' \<Longrightarrow> sem_reachable c s'"

definition sem_inv :: "int \<Rightarrow> 't semaphore \<Rightarrow> bool" where
  "sem_inv c s \<longleftrightarrow> 0 \<le> count s \<and> count s + int (permits s) = c \<and> (asleep s \<noteq> [] \<longrightarrow> count s \<le> int (length (awake s)))"

lemma sem_inv_step: "sem_step s s' \<Longrightarrow> sem_inv c s \<Longrightarrow> sem_inv c s'"
  by (induction rule: sem_step.induct)
    (auto simp: sem_inv_def acquire_def resume_def wake_def release_def test_count_def Let_def length_remove1
      split: option.splits dest: length_pos_if_in_set)

lemma sem_reachable_inv: "sem_reachable c s \<Longrightarrow> 0 \<le> c \<Longrightarrow> sem_inv c s"
proof (induction rule: sem_reachable.induct)
  case (step s s')
  then show ?case using sem_inv_step by blast
qed (simp add: sem_inv_def new_Semaphore_def)

text \<open>C17: The limiter limits and never forgets a waiter. However its users interleave, and with wake-ups out of
  nowhere, a semaphore made with a count has given out at most that many permits, its counter stays between zero and
  that count, and while a permit is free and a thread sleeps, at least as many threads are awake to take it.\<close>

theorem semaphore_bounds:
  assumes "sem_reachable c s" and "0 \<le> c"
  shows "int (permits s) \<le> c \<and> 0 \<le> count s \<and> count s \<le> c \<and> (asleep s \<noteq> [] \<longrightarrow> count s \<le> int (length (awake s)))"
  using sem_reachable_inv [OF assms] by (auto simp: sem_inv_def)

definition sem_sample :: "nat semaphore" where
  "sem_sample = release (Some 2) (acquire 2 (acquire 1 (new_Semaphore 1)))"

lemma semaphore_bounds_witness: "sem_sample = \<lparr>count = 1, asleep = [], awake = [2], permits = 0\<rparr> \<and> int (permits sem_sample) \<le> 1"
proof -
  have "sem_reachable 1 (acquire 2 (acquire 1 (new_Semaphore (1::int))) :: nat semaphore)"
    by (intro sem_reachable.step [OF _ acquires] sem_reachable.init)
  moreover have "sem_step (acquire 2 (acquire 1 (new_Semaphore (1::int)))) sem_sample"
    unfolding sem_sample_def by (rule releases) (simp_all add: acquire_def test_count_def new_Semaphore_def)
  ultimately have "sem_reachable 1 sem_sample" by (rule sem_reachable.step)
  from semaphore_bounds [OF this] show ?thesis
    by (simp add: sem_sample_def release_def wake_def acquire_def test_count_def new_Semaphore_def Let_def)
qed

section \<open>The thread pool\<close>

text \<open>A thread outside the mutex, inside the wait for work, running a job, or past the end of its loop.\<close>

datatype 'j worker_pc = Ready | Waiting | Busy 'j | Gone

text \<open>Threads are numbered: the base threads first, the dynamic ones in the order of their creation.\<close>

record 'j pool =
  base_thread_count :: nat
  max_thread_count :: nat
  max_queued_requests :: nat
  idle_thread_count :: nat
  shut_down :: bool
  pool_jobs :: "'j list"
  pool_threads :: "'j worker_pc list"
  dynamic_threads :: "nat list"
  finished_threads :: "nat list"

text \<open>The constructor throws an invalid argument for a maximum below the number of base threads.\<close>

definition new_ThreadPool :: "nat \<Rightarrow> nat \<Rightarrow> nat \<Rightarrow> 'j pool option" where
  "new_ThreadPool n max_n mqr =
     (if max_n \<noteq> 0 \<and> max_n < n then None
      else Some \<lparr>base_thread_count = n, max_thread_count = (if max_n = 0 then n else max_n), max_queued_requests = mqr,
        idle_thread_count = 0, shut_down = False, pool_jobs = [], pool_threads = replicate n Ready, dynamic_threads = [],
        finished_threads = []\<rparr>)"

definition enqueue :: "'j \<Rightarrow> 'j pool \<Rightarrow> bool \<times> 'j pool" where
  "enqueue fn p =
     (if shut_down p then (False, p)
      else if 0 < max_queued_requests p \<and> max_queued_requests p \<le> length (pool_jobs p) then (False, p)
      else let p = p\<lparr>pool_jobs := pool_jobs p @ [fn]\<rparr>
        in (True, if idle_thread_count p = 0 \<and> base_thread_count p + length (dynamic_threads p) < max_thread_count p
                  then p\<lparr>finished_threads := [], dynamic_threads := dynamic_threads p @ [length (pool_threads p)],
                         pool_threads := pool_threads p @ [Ready]\<rparr>
                  else p))"

definition start_shutdown :: "'j pool \<Rightarrow> 'j pool" where
  "start_shutdown p = p\<lparr>shut_down := True\<rparr>"

definition has_work :: "'j pool \<Rightarrow> bool" where
  "has_work p \<longleftrightarrow> pool_jobs p \<noteq> [] \<or> shut_down p"

definition set_thread :: "nat \<Rightarrow> 'j worker_pc \<Rightarrow> 'j pool \<Rightarrow> 'j pool" where
  "set_thread t pc p = p\<lparr>pool_threads := (pool_threads p)[t := pc]\<rparr>"

text \<open>What a thread does once the predicate holds.\<close>

definition take_job :: "nat \<Rightarrow> 'j pool \<Rightarrow> 'j pool" where
  "take_job t p =
     (if shut_down p \<and> pool_jobs p = [] then set_thread t Gone p
      else set_thread t (Busy (hd (pool_jobs p))) (p\<lparr>pool_jobs := tl (pool_jobs p)\<rparr>))"

text \<open>The loop takes the mutex, counts itself idle, and tests the predicate before it sleeps.\<close>

definition enter_wait :: "nat \<Rightarrow> 'j pool \<Rightarrow> 'j pool" where
  "enter_wait t p = (if has_work p then take_job t p else set_thread t Waiting (p\<lparr>idle_thread_count := idle_thread_count p + 1\<rparr>))"

definition leave_wait :: "nat \<Rightarrow> 'j pool \<Rightarrow> 'j pool" where
  "leave_wait t p = (if has_work p then take_job t (p\<lparr>idle_thread_count := idle_thread_count p - 1\<rparr>) else p)"

definition move_to_finished :: "nat \<Rightarrow> 'j pool \<Rightarrow> 'j pool" where
  "move_to_finished t p =
     (if t \<in> set (dynamic_threads p)
      then p\<lparr>dynamic_threads := remove1 t (dynamic_threads p), finished_threads := finished_threads p @ [t]\<rparr> else p)"

text \<open>The end of the idle time of a dynamic thread.\<close>

definition idle_timeout :: "nat \<Rightarrow> 'j pool \<Rightarrow> 'j pool" where
  "idle_timeout t p =
     (if has_work p then leave_wait t p
      else set_thread t Gone (move_to_finished t (p\<lparr>idle_thread_count := idle_thread_count p - 1\<rparr>)))"

text \<open>An event tells which job was accepted, begun or completed.\<close>

datatype 'j event = Accepted 'j | Begun 'j | Completed 'j | Internal

definition begins :: "'j pool \<Rightarrow> 'j event" where
  "begins p = (if pool_jobs p = [] then Internal else Begun (hd (pool_jobs p)))"

inductive pool_step :: "'j event \<Rightarrow> 'j pool \<Rightarrow> 'j pool \<Rightarrow> bool" where
  accepts: "enqueue fn p = (True, q) \<Longrightarrow> pool_step (Accepted fn) p q"
| refuses: "enqueue fn p = (False, q) \<Longrightarrow> pool_step Internal p q"
| shuts_down: "pool_step Internal p (start_shutdown p)"
| enters: "t < length (pool_threads p) \<Longrightarrow> pool_threads p ! t = Ready \<Longrightarrow> pool_step (begins p) p (enter_wait t p)"
| wakes: "t < length (pool_threads p) \<Longrightarrow> pool_threads p ! t = Waiting \<Longrightarrow> pool_step (begins p) p (leave_wait t p)"
| times_out: "t < length (pool_threads p) \<Longrightarrow> pool_threads p ! t = Waiting \<Longrightarrow> base_thread_count p \<le> t \<Longrightarrow>
    pool_step (begins p) p (idle_timeout t p)"
| completes: "t < length (pool_threads p) \<Longrightarrow> pool_threads p ! t = Busy fn \<Longrightarrow> pool_step (Completed fn) p (set_thread t Ready p)"

inductive pool_runs :: "'j pool \<Rightarrow> 'j event list \<Rightarrow> 'j pool \<Rightarrow> bool" where
  start: "pool_runs p [] p"
| more: "pool_runs p es q \<Longrightarrow> pool_step e q r \<Longrightarrow> pool_runs p (es @ [e]) r"

definition accepted_jobs :: "'j event list \<Rightarrow> 'j list" where
  "accepted_jobs es = concat (map (\<lambda>e. case e of Accepted j \<Rightarrow> [j] | _ \<Rightarrow> []) es)"

definition begun_jobs :: "'j event list \<Rightarrow> 'j list" where
  "begun_jobs es = concat (map (\<lambda>e. case e of Begun j \<Rightarrow> [j] | _ \<Rightarrow> []) es)"

definition completed_jobs :: "'j event list \<Rightarrow> 'j list" where
  "completed_jobs es = concat (map (\<lambda>e. case e of Completed j \<Rightarrow> [j] | _ \<Rightarrow> []) es)"

lemma jobs_append [simp]:
  "accepted_jobs (es @ [e]) = accepted_jobs es @ (case e of Accepted j \<Rightarrow> [j] | _ \<Rightarrow> [])"
  "begun_jobs (es @ [e]) = begun_jobs es @ (case e of Begun j \<Rightarrow> [j] | _ \<Rightarrow> [])"
  "completed_jobs (es @ [e]) = completed_jobs es @ (case e of Completed j \<Rightarrow> [j] | _ \<Rightarrow> [])"
  by (simp_all add: accepted_jobs_def begun_jobs_def completed_jobs_def)

definition running_jobs :: "'j worker_pc list \<Rightarrow> 'j multiset" where
  "running_jobs ths = mset (concat (map (\<lambda>pc. case pc of Busy j \<Rightarrow> [j] | _ \<Rightarrow> []) ths))"

definition waiting_count :: "'j worker_pc list \<Rightarrow> nat" where
  "waiting_count ths = length (filter (\<lambda>pc. pc = Waiting) ths)"

lemma threads_append [simp]:
  "running_jobs (ths @ [Ready]) = running_jobs ths" "waiting_count (ths @ [Ready]) = waiting_count ths"
  by (simp_all add: running_jobs_def waiting_count_def)

lemma running_update:
  assumes "t < length ths"
  shows "running_jobs (ths[t := pc]) + running_jobs [ths ! t] = running_jobs ths + running_jobs [pc]"
    and "waiting_count (ths[t := pc]) + waiting_count [ths ! t] = waiting_count ths + waiting_count [pc]"
proof -
  have "xs = take t xs @ xs ! t # drop (Suc t) xs" if "t < length xs" for xs :: "'a worker_pc list" using that by (rule id_take_nth_drop)
  from this [OF assms] have old: "running_jobs ths = running_jobs (take t ths @ ths ! t # drop (Suc t) ths)"
    "waiting_count ths = waiting_count (take t ths @ ths ! t # drop (Suc t) ths)" by simp_all
  have up: "ths[t := pc] = take t ths @ pc # drop (Suc t) ths" using assms by (rule upd_conv_take_nth_drop)
  show "running_jobs (ths[t := pc]) + running_jobs [ths ! t] = running_jobs ths + running_jobs [pc]"
    unfolding up old(1) by (simp add: running_jobs_def)
  show "waiting_count (ths[t := pc]) + waiting_count [ths ! t] = waiting_count ths + waiting_count [pc]"
    unfolding up old(2) by (simp add: waiting_count_def)
qed

lemma running_of [simp]: "running_jobs [Ready] = {#}" "running_jobs [Waiting] = {#}" "running_jobs [Gone] = {#}" "running_jobs [Busy j] = {#j#}"
  by (simp_all add: running_jobs_def)

lemma waiting_of [simp]: "waiting_count [Ready] = 0" "waiting_count [Waiting] = 1" "waiting_count [Gone] = 0" "waiting_count [Busy j] = 0"
  by (simp_all add: waiting_count_def)

lemma running_size: "size (running_jobs ths) = card {t. t < length ths \<and> (\<exists>j. ths ! t = Busy j)}"
proof -
  have "size (running_jobs ths) = length (filter (\<lambda>pc. \<exists>j. pc = Busy j) ths)"
    unfolding running_jobs_def size_mset by (induction ths) (auto split: worker_pc.split)
  then show ?thesis by (simp add: length_filter_conv_card)
qed

definition pool_inv :: "'j event list \<Rightarrow> 'j pool \<Rightarrow> bool" where
  "pool_inv es p \<longleftrightarrow>
     accepted_jobs es = begun_jobs es @ pool_jobs p \<and>
     mset (begun_jobs es) = mset (completed_jobs es) + running_jobs (pool_threads p) \<and>
     idle_thread_count p = waiting_count (pool_threads p) \<and>
     base_thread_count p \<le> length (pool_threads p) \<and>
     base_thread_count p + length (dynamic_threads p) \<le> max_thread_count p \<and>
     (\<forall>t<length (pool_threads p). if pool_threads p ! t = Gone then base_thread_count p \<le> t \<or> shut_down p \<and> pool_jobs p = []
        else t < base_thread_count p \<or> t \<in> set (dynamic_threads p))"

lemmas pool_ops = enqueue_def start_shutdown_def enter_wait_def leave_wait_def idle_timeout_def take_job_def set_thread_def
  move_to_finished_def begins_def has_work_def

lemma pool_inv_step: "pool_step e p q \<Longrightarrow> pool_inv es p \<Longrightarrow> pool_inv (es @ [e]) q"
proof (induction rule: pool_step.induct)
  case (accepts fn p q)
  then show ?case
    by (auto simp: pool_inv_def pool_ops Let_def nth_append less_Suc_eq split: if_splits) (metis linorder_not_le order.strict_trans2)+
next
  case (refuses fn p q)
  then show ?case by (auto simp: pool_inv_def pool_ops Let_def split: if_splits)
next
  case (shuts_down p)
  then show ?case by (auto simp: pool_inv_def pool_ops)
next
  case (enters t p)
  note up = running_update [OF enters(1)]
  show ?case using enters up [of Gone] up [of Waiting] up [of "Busy (hd (pool_jobs p))"]
    by (auto simp: pool_inv_def pool_ops nth_list_update hd_Cons_tl)
next
  case (wakes t p)
  note up = running_update [OF wakes(1)]
  show ?case using wakes up [of Gone] up [of "Busy (hd (pool_jobs p))"]
    by (auto simp: pool_inv_def pool_ops nth_list_update hd_Cons_tl)
next
  case (times_out t p)
  note up = running_update [OF times_out(1)]
  show ?case using times_out up [of Gone] up [of "Busy (hd (pool_jobs p))"]
    by (auto simp: pool_inv_def pool_ops nth_list_update hd_Cons_tl length_remove1)
next
  case (completes t p fn)
  show ?case using completes running_update [OF completes(1), of Ready]
    by (auto simp: pool_inv_def pool_ops nth_list_update)
qed

lemma pool_runs_inv:
  assumes "new_ThreadPool n max_n mqr = Some p0"
  shows "pool_runs p es q \<Longrightarrow> p = p0 \<Longrightarrow> pool_inv es q \<and> base_thread_count q = n"
proof (induction rule: pool_runs.induct)
  case (start p)
  have "running_jobs (replicate n Ready) = {#}" "waiting_count (replicate n Ready) = 0" by (induction n) (simp_all add: running_jobs_def waiting_count_def)
  then show ?case using start assms
    by (auto simp: new_ThreadPool_def pool_inv_def accepted_jobs_def begun_jobs_def completed_jobs_def split: if_splits)
next
  case (more p es q e r)
  moreover have "base_thread_count r = base_thread_count q"
    using more(2) by (induction rule: pool_step.induct) (auto simp: pool_ops Let_def split: if_splits)
  ultimately show ?case using pool_inv_step by metis
qed

lemma busy_threads:
  assumes "pool_inv es p"
  shows "size (running_jobs (pool_threads p)) \<le> max_thread_count p"
proof -
  have "{t. t < length (pool_threads p) \<and> (\<exists>j. pool_threads p ! t = Busy j)} \<subseteq> {..<base_thread_count p} \<union> set (dynamic_threads p)"
    using assms by (fastforce simp: pool_inv_def)
  then have "size (running_jobs (pool_threads p)) \<le> card ({..<base_thread_count p} \<union> set (dynamic_threads p))"
    unfolding running_size by (intro card_mono) auto
  also have "\<dots> \<le> base_thread_count p + length (dynamic_threads p)"
    using card_Un_le [of "{..<base_thread_count p}" "set (dynamic_threads p)"] card_length [of "dynamic_threads p"] by simp
  also have "\<dots> \<le> max_thread_count p" using assms by (simp add: pool_inv_def)
  finally show ?thesis .
qed

lemma running_none: "\<forall>pc\<in>set ths. pc = Gone \<Longrightarrow> running_jobs ths = {#}"
  by (induction ths) (auto simp: running_jobs_def)

text \<open>C20: The pool loses no job and runs none twice. In every interleaving of its threads and its users the jobs that
  were accepted are begun in their order, each once, by at most the given number of threads at a time, and the count of
  idle threads is exact; and when a shutdown has joined all threads, every accepted job has been completed.\<close>

theorem pool_runs_every_job:
  assumes "new_ThreadPool n max_n mqr = Some p0" and "pool_runs p0 es p"
  shows "accepted_jobs es = begun_jobs es @ pool_jobs p \<and>
    mset (begun_jobs es) = mset (completed_jobs es) + running_jobs (pool_threads p) \<and>
    size (running_jobs (pool_threads p)) \<le> max_thread_count p \<and> idle_thread_count p = waiting_count (pool_threads p) \<and>
    (0 < n \<and> (\<forall>pc\<in>set (pool_threads p). pc = Gone) \<longrightarrow> mset (completed_jobs es) = mset (accepted_jobs es))"
proof -
  have inv: "pool_inv es p" and n: "base_thread_count p = n" using pool_runs_inv [OF assms refl] by auto
  have "pool_jobs p = []" if "0 < n" "\<forall>pc\<in>set (pool_threads p). pc = Gone"
    using inv n that nth_mem [of 0 "pool_threads p"] by (fastforce simp: pool_inv_def)
  then show ?thesis using inv busy_threads [OF inv] running_none [of "pool_threads p"] by (auto simp: pool_inv_def)
qed

lemma pool_runs_every_job_witness:
  "\<exists>p. pool_runs (the (new_ThreadPool 1 0 0)) [Accepted (7::nat), Begun 7, Completed 7, Internal, Internal] p \<and> pool_threads p = [Gone] \<and>
     mset (completed_jobs [Accepted (7::nat), Begun 7, Completed 7, Internal, Internal]) = {#7#}"
proof -
  define p0 :: "nat pool" where "p0 = the (new_ThreadPool 1 0 0)"
  define p1 where "p1 = snd (enqueue 7 p0)"
  define p2 where "p2 = enter_wait 0 p1"
  define p3 where "p3 = set_thread 0 Ready p2"
  define p4 where "p4 = start_shutdown p3"
  define p5 where "p5 = enter_wait 0 p4"
  note defs = p5_def p4_def p3_def p2_def p1_def p0_def new_ThreadPool_def pool_ops
  have new: "new_ThreadPool 1 0 0 = Some p0" by (simp add: p0_def new_ThreadPool_def)
  have "pool_step (Accepted 7) p0 p1" by (rule accepts) (simp add: defs)
  moreover have "pool_step (begins p1) p1 p2" unfolding p2_def by (rule enters) (simp_all add: defs)
  moreover have "begins p1 = Begun 7" by (simp add: defs)
  moreover have "pool_step (Completed 7) p2 p3" unfolding p3_def by (rule completes) (simp_all add: defs)
  moreover have "pool_step Internal p3 p4" unfolding p4_def by (rule shuts_down)
  moreover have "pool_step (begins p4) p4 p5" unfolding p5_def by (rule enters) (simp_all add: defs)
  moreover have "begins p4 = Internal" by (simp add: defs)
  ultimately have "pool_runs p0 ((((([] @ [Accepted 7]) @ [Begun 7]) @ [Completed 7]) @ [Internal]) @ [Internal]) p5"
    by (intro pool_runs.more [OF pool_runs.more [OF pool_runs.more [OF pool_runs.more [OF pool_runs.more [OF pool_runs.start]]]]]) simp_all
  then have run: "pool_runs p0 [Accepted 7, Begun 7, Completed 7, Internal, Internal] p5" by simp
  moreover have "pool_threads p5 = [Gone]" by (simp add: defs)
  moreover from this have "\<forall>pc\<in>set (pool_threads p5). pc = Gone" by simp
  then have "mset (completed_jobs [Accepted (7::nat), Begun 7, Completed 7, Internal, Internal]) =
      mset (accepted_jobs [Accepted (7::nat), Begun 7, Completed 7, Internal, Internal])"
    using pool_runs_every_job [OF new run] by blast
  then have "mset (completed_jobs [Accepted (7::nat), Begun 7, Completed 7, Internal, Internal]) = {#7#}" by (simp add: accepted_jobs_def)
  ultimately show ?thesis unfolding p0_def by blast
qed

end
