(* ===== verification/Schema.thy ===== *)
theory Schema
  imports Store_Safety
begin

text \<open>
  The constraints that \<^verbatim>\<open>db/init.sql\<close> declares, as an invariant of the tables: what the
  operations insert and change respects every key and reference, so the server never has to refuse a
  statement that the model lets pass.
\<close>

section \<open>The constraints\<close>

text \<open>A serial primary key: distinct, and below the next value of its sequence.\<close>

definition serial_key :: "('r \<Rightarrow> int) \<Rightarrow> 'r list \<Rightarrow> int \<Rightarrow> bool" where
  "serial_key k rows next_value \<longleftrightarrow> distinct (map k rows) \<and> (\<forall>r\<in>set rows. 0 < k r \<and> k r < next_value)"

lemma serial_key_empty [simp]: "serial_key k [] 1"
  by (simp add: serial_key_def)

lemma serial_key_append: "serial_key k rows n \<Longrightarrow> 0 < n \<Longrightarrow> k r = n \<Longrightarrow> serial_key k (rows @ [r]) (n + 1)"
  by (fastforce simp: serial_key_def)

lemma serial_key_map: "(\<And>r. k (f r) = k r) \<Longrightarrow> serial_key k (map f rows) n = serial_key k rows n"
  by (simp add: serial_key_def comp_def)

lemma serial_key_filter: "serial_key k rows n \<Longrightarrow> serial_key k (filter p rows) n"
  by (auto simp: serial_key_def distinct_map_filter)

definition schema_workers :: "db \<Rightarrow> bool" where
  "schema_workers d \<longleftrightarrow> 0 < worker_seq d \<and> serial_key worker_id (worker_nodes d) (worker_seq d) \<and>
     distinct (map (\<lambda>w. (internal_host w, internal_port w)) (worker_nodes d)) \<and>
     (\<forall>w\<in>set (worker_nodes d). status w \<in> {''ACTIVE'', ''READ_ONLY''})"

definition schema_users :: "db \<Rightarrow> bool" where
  "schema_users d \<longleftrightarrow> 0 < user_seq d \<and> serial_key uid (users d) (user_seq d) \<and> distinct (map email (users d))"

definition schema_files :: "db \<Rightarrow> bool" where
  "schema_files d \<longleftrightarrow> 0 < file_seq d \<and> serial_key file_id (files d) (file_seq d) \<and> (\<forall>f\<in>set (files d). owner f \<in> uid ` set (users d))"

definition schema_chunks :: "db \<Rightarrow> bool" where
  "schema_chunks d \<longleftrightarrow> distinct (map chunk_hash (chunks d)) \<and> (\<forall>r\<in>set (chunks d). int_range (ref_count r))"

definition schema_shards :: "db \<Rightarrow> bool" where
  "schema_shards d \<longleftrightarrow> 0 < cluster_seq d \<and> serial_key cluster_id (clusters d) (cluster_seq d) \<and> distinct (map cluster_name (clusters d)) \<and>
     distinct (map bucket_id (shard_map d)) \<and> (\<forall>s\<in>set (shard_map d). shard_cluster s \<in> cluster_id ` set (clusters d))"

definition schema :: "db \<Rightarrow> bool" where
  "schema d \<longleftrightarrow> schema_workers d \<and> schema_users d \<and> schema_files d \<and> schema_chunks d \<and> schema_shards d"

lemmas schema_parts = schema_def schema_workers_def schema_users_def schema_files_def schema_chunks_def schema_shards_def

section \<open>Every operation keeps them\<close>

lemmas returns = andthen_eq_Inr require_eq_Inr get_eq_Inr modify_eq_Inr ret_eq_Inr throw_eq_Inr sql_value_eq_Inr as_field_eq_Inr

text \<open>A transaction needs to keep a property only when its body returns.\<close>

definition keeps :: "(db \<Rightarrow> bool) \<Rightarrow> (db, 'a) action \<Rightarrow> bool" where
  "keeps P m \<longleftrightarrow> (\<forall>d x d'. P d \<longrightarrow> m d = (Inr x, d') \<longrightarrow> P d')"

named_theorems keeps_intros "actions that keep a property when they return"

lemma keepsD: "keeps P m \<Longrightarrow> m d = (Inr x, d') \<Longrightarrow> P d \<Longrightarrow> P d'"
  unfolding keeps_def by blast

lemma keeps_transact: "keeps P m \<Longrightarrow> transact pg m d = (r, d') \<Longrightarrow> P d \<Longrightarrow> P d'"
  by (auto simp: keeps_def transact_def split: prod.splits sum.splits if_splits)

lemma keeps_andthen [keeps_intros]: "keeps P m \<Longrightarrow> (\<And>x. keeps P (f x)) \<Longrightarrow> keeps P (andthen m f)"
  unfolding keeps_def andthen_eq_Inr by blast

lemma keeps_basic [keeps_intros]: "keeps P (ret x)" "keeps P (throw e)" "keeps P (get g)" "keeps P (require b e)" "keeps P (sql_value v)" "keeps P (as_field v')"
  unfolding keeps_def by (simp_all add: returns)

lemma keeps_modify [keeps_intros]: "(\<And>d. P d \<Longrightarrow> P (g d)) \<Longrightarrow> keeps P (modify g)"
  by (simp add: keeps_def returns)

lemma keeps_for_each [keeps_intros]: "(\<And>x. keeps P (f x)) \<Longrightarrow> keeps P (for_each f xs)"
proof (induction xs)
  case (Cons x xs)
  show ?case unfolding for_each.simps by (intro keeps_andthen Cons)
qed (simp add: keeps_basic)

lemma keeps_for_collect [keeps_intros]: "(\<And>x. keeps P (f x)) \<Longrightarrow> keeps P (for_collect f xs)"
proof (induction xs)
  case (Cons x xs)
  show ?case unfolding for_collect.simps by (intro keeps_andthen keeps_basic Cons)
qed (simp add: keeps_basic)

lemma keeps_nodes_exist [keeps_intros]: "keeps P (VerifyNodesExist pg ids)"
  unfolding VerifyNodesExist_def Let_def by (rule keeps_intros)+

lemma keeps_option [keeps_intros]: "(x = None \<Longrightarrow> keeps P m) \<Longrightarrow> (\<And>y. x = Some y \<Longrightarrow> keeps P (f y)) \<Longrightarrow> keeps P (case x of None \<Rightarrow> m | Some y \<Rightarrow> f y)"
  by (cases x) simp_all

lemma keeps_if [keeps_intros]: "(b \<Longrightarrow> keeps P m) \<Longrightarrow> (\<not> b \<Longrightarrow> keeps P k) \<Longrightarrow> keeps P (if b then m else k)"
  by simp

text \<open>A change of one table leaves the constraints on the others alone.\<close>

lemma schema_other [simp]:
  "schema_workers (d\<lparr>chunks := cs\<rparr>) = schema_workers d" "schema_users (d\<lparr>chunks := cs\<rparr>) = schema_users d"
  "schema_files (d\<lparr>chunks := cs\<rparr>) = schema_files d" "schema_shards (d\<lparr>chunks := cs\<rparr>) = schema_shards d"
  "schema_workers (d\<lparr>files := fs\<rparr>) = schema_workers d" "schema_users (d\<lparr>files := fs\<rparr>) = schema_users d"
  "schema_chunks (d\<lparr>files := fs\<rparr>) = schema_chunks d" "schema_shards (d\<lparr>files := fs\<rparr>) = schema_shards d"
  "schema_workers (d\<lparr>file_seq := n\<rparr>) = schema_workers d" "schema_users (d\<lparr>file_seq := n\<rparr>) = schema_users d"
  "schema_chunks (d\<lparr>file_seq := n\<rparr>) = schema_chunks d" "schema_shards (d\<lparr>file_seq := n\<rparr>) = schema_shards d"
  "schema_workers (d\<lparr>users := us\<rparr>) = schema_workers d" "schema_chunks (d\<lparr>users := us\<rparr>) = schema_chunks d"
  "schema_shards (d\<lparr>users := us\<rparr>) = schema_shards d"
  "schema_workers (d\<lparr>user_seq := n\<rparr>) = schema_workers d" "schema_files (d\<lparr>user_seq := n\<rparr>) = schema_files d"
  "schema_chunks (d\<lparr>user_seq := n\<rparr>) = schema_chunks d" "schema_shards (d\<lparr>user_seq := n\<rparr>) = schema_shards d"
  "schema_users (d\<lparr>worker_nodes := ws\<rparr>) = schema_users d" "schema_files (d\<lparr>worker_nodes := ws\<rparr>) = schema_files d"
  "schema_chunks (d\<lparr>worker_nodes := ws\<rparr>) = schema_chunks d" "schema_shards (d\<lparr>worker_nodes := ws\<rparr>) = schema_shards d"
  "schema_users (d\<lparr>worker_seq := n\<rparr>) = schema_users d" "schema_files (d\<lparr>worker_seq := n\<rparr>) = schema_files d"
  "schema_chunks (d\<lparr>worker_seq := n\<rparr>) = schema_chunks d" "schema_shards (d\<lparr>worker_seq := n\<rparr>) = schema_shards d"
  "schema_workers (d\<lparr>clusters := cl\<rparr>) = schema_workers d" "schema_users (d\<lparr>clusters := cl\<rparr>) = schema_users d"
  "schema_files (d\<lparr>clusters := cl\<rparr>) = schema_files d" "schema_chunks (d\<lparr>clusters := cl\<rparr>) = schema_chunks d"
  "schema_workers (d\<lparr>cluster_seq := n\<rparr>) = schema_workers d" "schema_users (d\<lparr>cluster_seq := n\<rparr>) = schema_users d"
  "schema_files (d\<lparr>cluster_seq := n\<rparr>) = schema_files d" "schema_chunks (d\<lparr>cluster_seq := n\<rparr>) = schema_chunks d"
  "schema_workers (d\<lparr>shard_map := sm\<rparr>) = schema_workers d" "schema_users (d\<lparr>shard_map := sm\<rparr>) = schema_users d"
  "schema_files (d\<lparr>shard_map := sm\<rparr>) = schema_files d" "schema_chunks (d\<lparr>shard_map := sm\<rparr>) = schema_chunks d"
  by (simp_all add: schema_parts)

text \<open>Chunks.\<close>

lemma schema_update_chunks:
  assumes "schema d" and "\<And>r. chunk_hash (u r) = chunk_hash r" and "\<And>r. r \<in> set (chunks d) \<Longrightarrow> p r \<Longrightarrow> int_range (ref_count (u r))"
  shows "schema (update_chunks p u d)"
proof -
  have same: "map (\<lambda>x. chunk_hash (if p x then u x else x)) (chunks d) = map chunk_hash (chunks d)" using assms(2) by simp
  have "schema_chunks d" using assms(1) by (simp add: schema_def)
  then have "schema_chunks (update_chunks p u d)" using assms(3) by (auto simp: schema_chunks_def update_chunks_def comp_def same)
  then show ?thesis using assms(1) by (simp add: schema_def) (simp add: update_chunks_def)
qed

lemma schema_add_refs [keeps_intros]: "(\<And>r. chunk_hash (u r) = chunk_hash r \<and> ref_count (u r) = ref_count r) \<Longrightarrow> keeps schema (add_refs k p u)"
  unfolding keeps_def by (auto simp: add_refs_def returns intro!: schema_update_chunks)

lemma schema_insert_chunk [keeps_intros]: "keeps schema (insert_chunk pg h arr)"
  unfolding keeps_def
proof (intro allI impI)
  fix d d' x assume d: "schema d" and run: "insert_chunk pg h arr d = (Inr x, d')"
  show "schema d'"
  proof (cases "find_chunk h d")
    case None
    then have new: "h \<notin> chunk_hash ` set (chunks d)" by (auto simp: find_chunk_def find_None_iff)
    obtain ids where "d' = d\<lparr>chunks := chunks d @ [\<lparr>chunk_hash = h, nodes = ids, ref_count = 0, created_at = clock pg\<rparr>]\<rparr>"
      using run None by (auto simp: insert_chunk_def returns)
    moreover have "schema_chunks d'" using d new calculation by (auto simp: schema_def schema_chunks_def int_range_def)
    ultimately show ?thesis using d by (simp add: schema_def)
  qed (use d run in \<open>auto simp: insert_chunk_def returns\<close>)
qed

lemma schema_touch: "schema d \<Longrightarrow> schema (touch pg h d)"
  unfolding touch_def by (rule schema_update_chunks) (auto simp: schema_def schema_chunks_def)

lemma schema_filter_one [keeps_intros]: "keeps schema (filter_one pg nb h)"
proof -
  have "keeps schema (filter_new pg nb h)"
    unfolding filter_new_def by (cases "CalculateBucketId h nb") (auto split: option.split intro!: keeps_intros)
  moreover have "keeps schema (filter_known pg h row node_data)" for row node_data
    unfolding filter_known_def by (auto intro!: keeps_intros schema_touch)
  ultimately show ?thesis unfolding filter_one_def by (auto split: option.split intro!: keeps_intros)
qed

text \<open>Inserted rows.\<close>

lemma schema_insert_user [keeps_intros]: "keeps schema (insert_user pg e h s)"
  unfolding keeps_def
proof (intro allI impI)
  fix d d' x assume d: "schema d" and run: "insert_user pg e h s d = (Inr x, d')"
  from run have d': "e \<notin> email ` set (users d)" "d' = d\<lparr>users := users d @ [\<lparr>uid = user_seq d, email = e, password_hash = h, salt = s\<rparr>], user_seq := user_seq d + 1\<rparr>"
    by (auto simp: insert_user_def returns)
  have "schema_users d'" using d d' by (auto simp: schema_def schema_users_def intro: serial_key_append)
  moreover have "schema_files d'" using d d'(2) by (auto simp: schema_def schema_files_def)
  ultimately show "schema d'" using d d'(2) by (simp add: schema_def)
qed

lemma schema_insert_file [keeps_intros]: "keeps schema (insert_file pg u n b arr)"
  unfolding keeps_def
proof (intro allI impI)
  fix d d' x assume d: "schema d" and run: "insert_file pg u n b arr d = (Inr x, d')"
  from run have d': "u \<in> uid ` set (users d)"
    "d' = d\<lparr>files := files d @ [\<lparr>file_id = file_seq d, owner = u, filename = n, file_bytes = b, file_chunks = arr\<rparr>], file_seq := file_seq d + 1\<rparr>"
    by (auto simp: insert_file_def returns)
  have "schema_files d'" using d d' by (auto simp: schema_def schema_files_def intro: serial_key_append)
  then show "schema d'" using d d'(2) by (simp add: schema_def)
qed

lemma schema_set_workers:
  assumes "schema d" and "\<And>w. worker_id (f w) = worker_id w \<and> internal_host (f w) = internal_host w \<and> internal_port (f w) = internal_port w"
    and "\<And>w. status w \<in> {''ACTIVE'', ''READ_ONLY''} \<Longrightarrow> status (f w) \<in> {''ACTIVE'', ''READ_ONLY''}"
  shows "schema (d\<lparr>worker_nodes := map f (worker_nodes d)\<rparr>)"
proof -
  have "(\<lambda>w. (internal_host w, internal_port w)) \<circ> f = (\<lambda>w. (internal_host w, internal_port w))"
    using assms(2) by (simp add: fun_eq_iff)
  moreover have "schema_workers d" using assms(1) by (simp add: schema_def)
  ultimately have "schema_workers (d\<lparr>worker_nodes := map f (worker_nodes d)\<rparr>)"
    using assms(2,3) by (auto simp: schema_workers_def serial_key_map)
  then show ?thesis using assms(1) by (simp add: schema_def)
qed

lemma schema_upsert_worker: "schema d \<Longrightarrow> schema (upsert_worker pg ih ip ah ap sp d)"
proof (cases "\<exists>w\<in>set (worker_nodes d). internal_host w = ih \<and> internal_port w = ip")
  case True
  assume "schema d"
  then show ?thesis unfolding upsert_worker_def using True by (simp, intro schema_set_workers) auto
next
  case False
  assume d: "schema d"
  let ?d = "upsert_worker pg ih ip ah ap sp d"
  have up: "?d = d\<lparr>worker_nodes := worker_nodes d @ [\<lparr>worker_id = worker_seq d, internal_host = ih, internal_port = ip,
      w_advertised_host = ah, w_advertised_port = ap, free_space = sp, status = ''ACTIVE'', last_heartbeat = clock pg\<rparr>], worker_seq := worker_seq d + 1\<rparr>"
    unfolding upsert_worker_def using False by (simp only: if_False)
  have "schema_workers ?d" unfolding up using False d by (auto simp: schema_def schema_workers_def intro: serial_key_append)
  then show ?thesis using d unfolding up by (simp add: schema_def)
qed

text \<open>Clusters and the shard map.\<close>

lemma schema_set_clusters:
  assumes "schema d" and "\<And>c. cluster_id (f c) = cluster_id c \<and> cluster_name (f c) = cluster_name c"
  shows "schema (d\<lparr>clusters := map f (clusters d)\<rparr>)"
proof -
  have "cluster_name \<circ> f = cluster_name" "cluster_id \<circ> f = cluster_id" using assms(2) by (simp_all add: fun_eq_iff)
  moreover have "schema_shards d" using assms(1) by (simp add: schema_def)
  ultimately have "schema_shards (d\<lparr>clusters := map f (clusters d)\<rparr>)"
    using assms(2) by (simp add: schema_shards_def serial_key_map image_comp)
  then show ?thesis using assms(1) by (simp add: schema_def)
qed

lemma schema_set_shards:
  assumes "schema d" and "\<And>s. bucket_id (f s) = bucket_id s \<and> (shard_cluster (f s) = shard_cluster s \<or> shard_cluster (f s) \<in> cluster_id ` set (clusters d))"
    and "distinct bs" and "set bs \<inter> bucket_id ` set (shard_map d) = {}" and "bs \<noteq> [] \<Longrightarrow> new \<in> cluster_id ` set (clusters d)"
  shows "schema (d\<lparr>shard_map := map f (shard_map d) @ map (\<lambda>b. \<lparr>bucket_id = b, shard_cluster = new\<rparr>) bs\<rparr>)"
proof -
  have "bucket_id \<circ> f = bucket_id" using assms(2) by (simp add: fun_eq_iff)
  moreover have sh: "schema_shards d" using assms(1) by (simp add: schema_def)
  moreover have "shard_cluster (f s) \<in> cluster_id ` set (clusters d)" if "s \<in> set (shard_map d)" for s
    using assms(2) [of s] sh that by (auto simp: schema_shards_def)
  ultimately have "schema_shards (d\<lparr>shard_map := map f (shard_map d) @ map (\<lambda>b. \<lparr>bucket_id = b, shard_cluster = new\<rparr>) bs\<rparr>)"
    using assms(2-5) by (fastforce simp: schema_shards_def comp_def image_iff)
  then show ?thesis using assms(1) by (simp add: schema_def)
qed

definition schema_with :: "int \<Rightarrow> db \<Rightarrow> bool" where
  "schema_with new d \<longleftrightarrow> schema d \<and> new \<in> cluster_id ` set (clusters d)"

lemma schema_insert_cluster: "schema d \<Longrightarrow> insert_cluster pg n arr d = (Inr new, d') \<Longrightarrow> schema_with new d'"
proof -
  assume d: "schema d" and run: "insert_cluster pg n arr d = (Inr new, d')"
  from run obtain ids where d': "n \<notin> cluster_name ` set (clusters d)" "new = cluster_seq d"
    "d' = d\<lparr>clusters := clusters d @ [\<lparr>cluster_id = new, cluster_name = n, active_nodes = ids\<rparr>], cluster_seq := cluster_seq d + 1\<rparr>"
    by (auto simp: insert_cluster_def returns)
  have "schema_shards d'" using d d' by (auto simp: schema_def schema_shards_def intro: serial_key_append)
  then show "schema_with new d'" using d d'(3) by (simp add: schema_def schema_with_def)
qed

lemma schema_rebalance: "keeps (schema_with new) (rebalance pg new k cs)"
proof -
  have "schema_with new (move_buckets pg new c m d)" if "schema_with new d" for c m d
  proof -
    let ?f = "\<lambda>s. if bucket_id s \<in> set (limit_buckets pg m (owned_buckets c d)) then s\<lparr>shard_cluster := new\<rparr> else s"
    have "schema (d\<lparr>shard_map := map ?f (shard_map d) @ map (\<lambda>b. \<lparr>bucket_id = b, shard_cluster = new\<rparr>) []\<rparr>)"
      by (rule schema_set_shards) (use that in \<open>auto simp: schema_with_def\<close>)
    then show ?thesis using that by (simp add: schema_with_def move_buckets_def Let_def)
  qed
  then show ?thesis unfolding rebalance_def by (intro keeps_for_each) (auto intro!: keeps_intros)
qed

lemma schema_bootstrap: "schema_with new d \<Longrightarrow> schema (bootstrap_shards new nb d)"
  unfolding bootstrap_shards_def Let_def by (rule schema_set_shards) (auto simp: schema_with_def)

lemma schema_AddCluster: "AddCluster pg nb n ids d = (r, d') \<Longrightarrow> schema d \<Longrightarrow> schema d'"
proof -
  have "keeps schema (andthen (VerifyNodesExist pg ids) (\<lambda>_. andthen (insert_cluster pg n arr) (\<lambda>new. andthen (get bucket_counts) (\<lambda>current.
      if current = [] then modify (bootstrap_shards new nb) else rebalance pg new (k current) current))))" for arr k
  proof (rule keeps_andthen [OF keeps_nodes_exist])
    fix u :: unit
    show "keeps schema (andthen (insert_cluster pg n arr) (\<lambda>new. andthen (get bucket_counts) (\<lambda>current.
        if current = [] then modify (bootstrap_shards new nb) else rebalance pg new (k current) current)))"
      unfolding keeps_def
      by (auto simp: returns split: if_splits dest!: schema_insert_cluster intro: schema_bootstrap)
        (auto simp: schema_with_def dest: keepsD [OF schema_rebalance])
  qed
  then show "AddCluster pg nb n ids d = (r, d') \<Longrightarrow> schema d \<Longrightarrow> schema d'" unfolding AddCluster_def by (rule keeps_transact)
qed

lemma schema_ReplaceCluster:
  assumes "ReplaceCluster pg c ids d = (r, d')" and "schema d"
  shows "schema d'"
proof -
  have workers: "keeps schema (modify (\<lambda>d. d\<lparr>worker_nodes := map (\<lambda>w. if q d w then w\<lparr>status := ''READ_ONLY''\<rparr> else w) (worker_nodes d)\<rparr>))" for q
    by (intro keeps_modify schema_set_workers) auto
  have clusters: "keeps schema (modify (\<lambda>d. d\<lparr>clusters := map (\<lambda>k. if cluster_id k = c then k\<lparr>active_nodes := xs\<rparr> else k) (clusters d)\<rparr>))" for xs
    by (intro keeps_modify schema_set_clusters) auto
  show ?thesis
    by (rule keeps_transact [where P = schema, OF _ assms(1) [unfolded ReplaceCluster_def] assms(2)])
      (intro keeps_andthen keeps_basic keeps_nodes_exist workers clusters)
qed

text \<open>The other operations.\<close>

lemma schema_files_filter: "schema d \<Longrightarrow> schema (d\<lparr>files := filter p (files d)\<rparr>)"
  by (simp add: schema_def) (auto simp: schema_files_def intro: serial_key_filter)

lemma schema_chunks_filter: "schema d \<Longrightarrow> schema (d\<lparr>chunks := filter p (chunks d)\<rparr>)"
  by (simp add: schema_def) (auto simp: schema_chunks_def distinct_map_filter)

lemma schema_DeleteFile: "DeleteFile pg u n d = (r, d') \<Longrightarrow> schema d \<Longrightarrow> schema d'"
proof -
  have "keeps schema (andthen (sql_value v) (\<lambda>arr. andthen (add_refs (-1) (\<lambda>r. chunk_hash r \<in> set arr) (\<lambda>r. r))
      (\<lambda>_. andthen (modify (\<lambda>d. d\<lparr>files := filter p (files d)\<rparr>)) (\<lambda>_. ret True))))" for v :: "string list option" and p
    by (rule keeps_intros schema_files_filter | simp)+
  then show "DeleteFile pg u n d = (r, d') \<Longrightarrow> schema d \<Longrightarrow> schema d'"
    by (auto simp: DeleteFile_def split: if_splits option.splits dest: keeps_transact)
qed

lemma schema_request: "request_step nb K d d' \<Longrightarrow> schema d \<Longrightarrow> schema d'"
proof (induction rule: request_step.induct)
  case (create_user pg e h s d b d')
  then show ?case by (auto simp: CreateUser_def split: prod.splits sum.splits dest: keeps_transact [OF schema_insert_user])
next
  case (register_worker pg ih ip ah ap sp d r d')
  have "keeps schema (andthen (require b PqFailure) (\<lambda>_. modify (upsert_worker pg ih ip ah ap sp)))" for b
    by (intro keeps_intros schema_upsert_worker)
  then show ?case using register_worker unfolding RegisterWorker_def by (blast dest: keeps_transact)
next
  case (filter_missing pg hs d r' d')
  have "keeps schema (for_collect (filter_one pg nb) hs)" by (rule keeps_intros)+
  then show ?case using filter_missing unfolding FilterMissingChunks_def by (blast dest: keeps_transact)
next
  case (commit_file pg hs d u n bytes r d')
  have "keeps schema (andthen (sql_value v) (\<lambda>arr. andthen (insert_file pg u n bytes arr)
      (\<lambda>_. for_each (\<lambda>h. add_refs 1 (\<lambda>r. chunk_hash r = h) (\<lambda>r. r\<lparr>created_at := clock pg\<rparr>)) hs)))" for v
    by (rule keeps_intros | simp)+
  then show ?case using commit_file unfolding CommitFile_def by (blast dest: keeps_transact)
qed (blast intro: schema_DeleteFile schema_AddCluster schema_ReplaceCluster)+

lemma schema_step: "db_step nb K d d' \<Longrightarrow> schema d \<Longrightarrow> schema d'"
proof (induction rule: db_step.induct)
  case (get_orphans pg ex lim d os d')
  have "schema (tombstone hs d)" for hs
    unfolding tombstone_def by (rule schema_update_chunks) (use get_orphans in \<open>auto simp: int_range_def\<close>)
  then show ?case using get_orphans by (auto simp: GetOrphanedChunks_def Let_def split: if_splits)
next
  case (delete_records pg hs d b d')
  have "keeps schema (modify (\<lambda>d. d\<lparr>chunks := filter p (chunks d)\<rparr>))" for p by (intro keeps_intros schema_chunks_filter)
  then show ?case using delete_records by (auto simp: DeleteChunkRecordsBulk_def split: if_splits prod.splits sum.splits dest: keeps_transact)
next
  case (revert d pg h)
  have "keeps schema (modify (update_chunks p (\<lambda>r. r\<lparr>ref_count := 0, created_at := clock pg\<rparr>)))" for p
    by (intro keeps_intros schema_update_chunks) (simp_all add: int_range_def)
  then show ?case using revert unfolding RevertTombstone_def by (metis keeps_transact prod.collapse)
qed (blast intro: schema_request)

text \<open>The tables always satisfy the schema. In every state that the operations of the repository reach, the
  primary keys of all tables are distinct and below their sequences, no two workers have one internal address, no two
  users one e-mail address and no two clusters one name, every file belongs to a user and every bucket to a cluster,
  reference counts stay in their column's type, and a worker is active or read-only.\<close>

theorem schema_always_holds:
  assumes "db_reachable nb K d"
  shows "schema d"
  using assms
proof induction
  case start
  then show ?case by (simp add: schema_parts empty_db_def)
qed (blast intro: schema_step)

lemma schema_always_holds_witness: "schema run_user \<and> length (users run_user) = 1 \<and> length (shard_map run_user) = 2"
proof -
  have "length (users run_user) = 1" "length (shard_map run_user) = 2" by code_simp+
  then show ?thesis using schema_always_holds [OF reachable_user [of "{}"]] by simp
qed

end
