(* ===== verification/Http_Stream.thy ===== *)
theory Http_Stream
  imports Url_Transport
begin

text \<open>
  The streams of \<^verbatim>\<open>common/httplib.h\<close>: what a socket hands over and in which pieces, the line
  reader, and the two loops that read a body. The contract \<open>byte_source\<close> says what a stream
  promises, the bytes that were written in their order whatever the pieces, and the readers are
  proved against it; a socket stream and a buffer stream provide it.
\<close>

section \<open>Sockets and buffers\<close>

text \<open>
  A socket has its read buffer, the pieces in which the kernel will hand over what the peer sends,
  and whether the peer has hung up behind them. A read of the socket takes from the first piece; an
  empty piece would be the end of the connection. A read yields nothing after a timeout and an empty
  text at the end of the connection. Reads below the size of the buffer fill the buffer.
\<close>

record stream =
  read_buff :: string
  coming :: "string list"
  hung_up :: bool

definition read_buff_size :: nat where
  "read_buff_size = 4096"

definition put_back :: "string \<Rightarrow> string list \<Rightarrow> string list" where
  "put_back left ps = (if left = [] then ps else left # ps)"

definition sock_read :: "nat \<Rightarrow> stream \<Rightarrow> string option \<times> stream" where
  "sock_read n s =
     (if read_buff s \<noteq> [] then (Some (take n (read_buff s)), s\<lparr>read_buff := drop n (read_buff s)\<rparr>)
      else case coming s of
          [] \<Rightarrow> (if hung_up s then Some [] else None, s)
        | p # ps \<Rightarrow>
            if n < read_buff_size
            then (Some (take n (take read_buff_size p)),
                  s\<lparr>read_buff := drop n (take read_buff_size p), coming := put_back (drop read_buff_size p) ps\<rparr>)
            else (Some (take n p), s\<lparr>coming := put_back (drop n p) ps\<rparr>))"

definition stream_bytes :: "stream \<Rightarrow> string" where
  "stream_bytes s = read_buff s @ concat (coming s)"

definition sound_stream :: "stream \<Rightarrow> bool" where
  "sound_stream s \<longleftrightarrow> [] \<notin> set (coming s)"

definition at_end :: "stream \<Rightarrow> string option" where
  "at_end s = (if hung_up s then Some [] else None)"

text \<open>\<^verbatim>\<open>BufferStream\<close>: a text and a position in it.\<close>

definition buffer_read :: "nat \<Rightarrow> string \<times> nat \<Rightarrow> string option \<times> string \<times> nat" where
  "buffer_read n b =
     (case b of (buffer, pos) \<Rightarrow> (Some (take n (drop pos buffer)), (buffer, pos + length (take n (drop pos buffer)))))"

definition buffer_write :: "string \<Rightarrow> string \<times> nat \<Rightarrow> string \<times> nat" where
  "buffer_write d b = (fst b @ d, snd b)"

section \<open>Reading a line\<close>

text \<open>
  \<^verbatim>\<open>stream_line_reader::getline\<close> reads byte by byte up to and with the first carriage return and
  line feed, and no more than \<open>max_line\<close> bytes. At the end of the connection it yields what it has,
  unless that is nothing.
\<close>

function getline_from :: "(nat \<Rightarrow> 's \<Rightarrow> string option \<times> 's) \<Rightarrow> int \<Rightarrow> char \<Rightarrow> string \<Rightarrow> 's \<Rightarrow> string option \<times> 's" where
  "getline_from recv i prev line s =
     (if max_line \<le> i then (None, s)
      else case recv 1 s of
          (None, s') \<Rightarrow> (None, s')
        | (Some [], s') \<Rightarrow> (if i = 0 then None else Some line, s')
        | (Some (b # _), s') \<Rightarrow>
            if prev = CHR 13 \<and> b = CHR 10 then (Some (line @ [b]), s')
            else getline_from recv (i + 1) b (line @ [b]) s')"
  by pat_completeness auto
termination
  by (relation "measure (\<lambda>(recv, i, prev, line, s). nat (max_line - i))") auto

declare getline_from.simps [simp del]

definition getline :: "(nat \<Rightarrow> 's \<Rightarrow> string option \<times> 's) \<Rightarrow> 's \<Rightarrow> string option \<times> 's" where
  "getline recv s = getline_from recv 0 (CHR 0x00) [] s"

section \<open>Reading a body\<close>

text \<open>
  \<^verbatim>\<open>read_content_with_length\<close> with its \<^verbatim>\<open>BodyReader\<close>: the announced number of bytes in pieces of at
  most a receive buffer, each handed to a receiver. The receiver of both sides appends to a body and
  refuses what exceeds the payload limit, which is how a body without an announced length is limited.
  No body comes near the greatest length of a text, which the code tests too.
  A limit of 0 is no limit.
\<close>

lemma nonempty_length: "xs \<noteq> [] \<Longrightarrow> 1 \<le> int (length xs)"
  by (cases xs) auto

datatype ReadContentResult = Success string | PayloadTooLarge | Error

definition recv_bufsiz :: int where
  "recv_bufsiz = 16384"

definition append_limited :: "int \<Rightarrow> string \<Rightarrow> string \<Rightarrow> string option" where
  "append_limited payload_max body got =
     (if 0 < payload_max \<and> (payload_max \<le> int (length body) \<or> payload_max - int (length body) < int (length got))
      then None else Some (body @ got))"

function read_content_with_length ::
    "(nat \<Rightarrow> 's \<Rightarrow> string option \<times> 's) \<Rightarrow> (string \<Rightarrow> string \<Rightarrow> string option) \<Rightarrow> int \<Rightarrow> int \<Rightarrow> int \<Rightarrow> string \<Rightarrow> 's \<Rightarrow> ReadContentResult \<times> 's" where
  "read_content_with_length recv receiver payload_max len r body s =
     (if len \<le> r then (Success body, s)
      else case recv (nat (min (len - r) recv_bufsiz)) s of
          (None, s') \<Rightarrow> (Error, s')
        | (Some got, s') \<Rightarrow>
            if got = [] then (Error, s')
            else if 0 < payload_max \<and> payload_max < r + int (length got) then (PayloadTooLarge, s')
            else case receiver body got of
                None \<Rightarrow> (Error, s')
              | Some body' \<Rightarrow>
                  read_content_with_length recv receiver payload_max len (r + int (length got)) body' s')"
  by pat_completeness auto
termination
  by (relation "measure (\<lambda>(recv, receiver, payload_max, len, r, body, s). nat (len - r))") auto

declare read_content_with_length.simps [simp del]

function read_content_without_length ::
    "(nat \<Rightarrow> 's \<Rightarrow> string option \<times> 's) \<Rightarrow> (string \<Rightarrow> string \<Rightarrow> string option) \<Rightarrow> int \<Rightarrow> int \<Rightarrow> string \<Rightarrow> 's \<Rightarrow> ReadContentResult \<times> 's" where
  "read_content_without_length recv receiver payload_max r body s =
     (case recv (nat recv_bufsiz) s of
        (None, s') \<Rightarrow> (Error, s')
      | (Some got, s') \<Rightarrow>
          if got = [] then (Success body, s')
          else if payload_max < r \<or> payload_max - r < int (length got) then (PayloadTooLarge, s')
          else case receiver body got of
              None \<Rightarrow> (Error, s')
            | Some body' \<Rightarrow> read_content_without_length recv receiver payload_max (r + int (length got)) body' s')"
  by pat_completeness auto
termination
  by (relation "measure (\<lambda>(recv, receiver, payload_max, r, body, s). nat (payload_max - r))") (auto dest: nonempty_length)

declare read_content_without_length.simps [simp del]

lemma prefix_split:
  assumes "a @ b = c @ d" and "length a \<le> length c"
  shows "c = a @ drop (length a) c" and "b = drop (length a) c @ d"
proof -
  have "take (length a) c = a" using arg_cong [OF assms(1), of "take (length a)"] assms(2) by simp
  then show "c = a @ drop (length a) c" using append_take_drop_id [of "length a" c] by metis
  show "b = drop (length a) c @ d" using arg_cong [OF assms(1), of "drop (length a)"] assms(2) by simp
qed

section \<open>What a stream promises\<close>

locale byte_source =
  fixes recv :: "nat \<Rightarrow> 's \<Rightarrow> string option \<times> 's"
    and bytes :: "'s \<Rightarrow> string"
    and final :: "'s \<Rightarrow> string option"
    and sound :: "'s \<Rightarrow> bool"
  assumes recv_some: "sound s \<Longrightarrow> 0 < n \<Longrightarrow> bytes s \<noteq> [] \<Longrightarrow>
      \<exists>got s'. recv n s = (Some got, s') \<and> got \<noteq> [] \<and> length got \<le> n \<and> bytes s = got @ bytes s' \<and>
        sound s' \<and> final s' = final s"
    and recv_end: "sound s \<Longrightarrow> 0 < n \<Longrightarrow> bytes s = [] \<Longrightarrow> recv n s = (final s, s) \<and> final s \<in> {None, Some []}"
begin

lemma recv_byte:
  assumes "sound s" and "bytes s = b # r"
  obtains s' where "recv 1 s = (Some [b], s')" "bytes s' = r" "sound s'" "final s' = final s"
proof -
  obtain got s' where got: "recv 1 s = (Some got, s')" "got \<noteq> []" "length got \<le> 1" "bytes s = got @ bytes s'"
    "sound s'" "final s' = final s"
    using recv_some [of s 1] assms by auto
  then obtain c where "got = [c]" by (cases got) auto
  then show thesis using that got assms(2) by simp
qed

text \<open>A line without a line feed in it is read whole, with its end.\<close>

lemma getline_from_reads:
  "sound s \<Longrightarrow> bytes s = l @ CHR 13 # CHR 10 # r \<Longrightarrow> CHR 10 \<notin> set l \<Longrightarrow> 0 \<le> i \<Longrightarrow> i + int (length l) + 2 \<le> max_line \<Longrightarrow>
     \<exists>s'. getline_from recv i prev line s = (Some (line @ l @ [CHR 13, CHR 10]), s') \<and> bytes s' = r \<and> sound s' \<and> final s' = final s"
proof (induction l arbitrary: s i prev line)
  case Nil
  obtain s1 where s1: "recv 1 s = (Some [CHR 13], s1)" "bytes s1 = CHR 10 # r" "sound s1" "final s1 = final s"
    using recv_byte [OF Nil(1)] Nil(2) by (metis append_Nil)
  obtain s2 where s2: "recv 1 s1 = (Some [CHR 10], s2)" "bytes s2 = r" "sound s2" "final s2 = final s1"
    using recv_byte [OF s1(3,2)] by blast
  have "getline_from recv i prev line s = getline_from recv (i + 1) (CHR 13) (line @ [CHR 13]) s1"
    using Nil(5) s1(1) by (subst getline_from.simps) auto
  also have "\<dots> = (Some (line @ [CHR 13, CHR 10]), s2)"
    using Nil(5) s2(1) by (subst getline_from.simps) auto
  finally show ?case using s1 s2 by simp
next
  case (Cons b l)
  obtain s1 where s1: "recv 1 s = (Some [b], s1)" "bytes s1 = l @ CHR 13 # CHR 10 # r" "sound s1" "final s1 = final s"
    using recv_byte [OF Cons.prems(1)] Cons.prems(2) by (metis append_Cons)
  have "getline_from recv i prev line s = getline_from recv (i + 1) b (line @ [b]) s1"
    using Cons.prems s1(1) by (subst getline_from.simps) auto
  moreover obtain s' where "getline_from recv (i + 1) b (line @ [b]) s1 = (Some ((line @ [b]) @ l @ [CHR 13, CHR 10]), s')"
    "bytes s' = r" "sound s'" "final s' = final s1"
    using Cons.IH [OF s1(3,2), of "i + 1" b "line @ [b]"] Cons.prems(3-5) by auto
  ultimately show ?case using s1(4) by auto
qed

lemma getline_reads:
  assumes "sound s" and "bytes s = l @ CHR 13 # CHR 10 # r" and "CHR 10 \<notin> set l" and "int (length l) + 2 \<le> max_line"
  obtains s' where "getline recv s = (Some (l @ [CHR 13, CHR 10]), s')" "bytes s' = r" "sound s'" "final s' = final s"
  using getline_from_reads [OF assms(1,2,3), of 0 "CHR 0x00" "[]"] assms(4) that by (auto simp: getline_def)

lemma getline_end:
  assumes "sound s" and "bytes s = []"
  shows "getline recv s = (None, s)"
proof -
  have "0 < max_line" by (simp add: max_line_def)
  moreover have "recv 1 s = (final s, s)" "final s \<in> {None, Some []}" using recv_end [OF assms(1) _ assms(2), of 1] by simp_all
  ultimately show ?thesis unfolding getline_def by (subst getline_from.simps) auto
qed

text \<open>A body of the announced length is read whole, in whatever pieces it comes.\<close>

lemma body_reads:
  "sound s \<Longrightarrow> bytes s = d @ rest \<Longrightarrow> 0 \<le> r \<Longrightarrow> len = r + int (length d) \<Longrightarrow>
   payload_max \<le> 0 \<or> len \<le> payload_max \<Longrightarrow>
   (\<And>b got. int (length b) + int (length got) \<le> int (length body) + int (length d) \<Longrightarrow> got \<noteq> [] \<Longrightarrow> receiver b got = Some (b @ got)) \<Longrightarrow>
     \<exists>s'. read_content_with_length recv receiver payload_max len r body s = (Success (body @ d), s') \<and>
       bytes s' = rest \<and> sound s' \<and> final s' = final s"
proof (induction "length d" arbitrary: d r body s rule: less_induct)
  case less
  show ?case
  proof (cases "d = []")
    case True
    then show ?thesis using less.prems by (subst read_content_with_length.simps) auto
  next
    case False
    define n where "n = nat (min (len - r) recv_bufsiz)"
    have n: "0 < n" "n \<le> length d" using less.prems(4) False by (auto simp: n_def recv_bufsiz_def)
    obtain got s1 where got: "recv n s = (Some got, s1)" "got \<noteq> []" "length got \<le> n" "bytes s = got @ bytes s1"
      "sound s1" "final s1 = final s"
      using recv_some [OF less.prems(1) n(1)] less.prems(2) False by auto
    have split: "got @ bytes s1 = d @ rest" "length got \<le> length d" using got(3,4) n(2) less.prems(2) by simp_all
    note d = prefix_split [OF split]
    have more: "length (drop (length got) d) < length d" using got(2) False by auto
    have len: "int (length (drop (length got) d)) = int (length d) - int (length got)" "int (length got) \<le> int (length d)"
      using split(2) by (simp_all add: of_nat_diff)
    have "receiver body got = Some (body @ got)" using len got(2) by (intro less.prems(6)) simp_all
    then have "read_content_with_length recv receiver payload_max len r body s =
        read_content_with_length recv receiver payload_max len (r + int (length got)) (body @ got) s1"
      using less.prems(3-5) got(1,2) len nonempty_length [OF got(2)] nonempty_length [OF False] unfolding n_def
      by (subst read_content_with_length.simps) auto
    moreover obtain s' where "read_content_with_length recv receiver payload_max len (r + int (length got)) (body @ got) s1 =
        (Success ((body @ got) @ drop (length got) d), s')" "bytes s' = rest" "sound s'" "final s' = final s1"
      using less.hyps [OF more got(5) d(2), where r = "r + int (length got)" and body = "body @ got"] less.prems(3-6) len by auto
    ultimately show ?thesis using d(1) got(6) by auto
  qed
qed

end

section \<open>Socket streams and buffer streams keep the promise\<close>

lemma put_back_contents: "concat (put_back left ps) = left @ concat ps"
  by (simp add: put_back_def)

lemma put_back_sound: "[] \<notin> set ps \<Longrightarrow> [] \<notin> set (put_back left ps)"
  by (auto simp: put_back_def)

lemma three_pieces: "n \<le> m \<Longrightarrow> p = take n p @ drop n (take m p) @ drop m p"
  by (metis append.assoc append_take_drop_id min_absorb1 take_take)

lemma sock_read_some:
  assumes "sound_stream s" and "0 < n" and "stream_bytes s \<noteq> []"
  shows "\<exists>got s'. sock_read n s = (Some got, s') \<and> got \<noteq> [] \<and> length got \<le> n \<and> stream_bytes s = got @ stream_bytes s' \<and>
     sound_stream s' \<and> at_end s' = at_end s"
proof (cases "read_buff s = []")
  case False
  then show ?thesis using assms(1,2) by (auto simp: sock_read_def stream_bytes_def sound_stream_def at_end_def)
next
  case True
  then obtain p ps where p: "coming s = p # ps" "p \<noteq> []"
    using assms(1,3) by (cases "coming s") (auto simp: stream_bytes_def sound_stream_def)
  have size: "0 < read_buff_size" by (simp add: read_buff_size_def)
  have "[] \<notin> set ps" using assms(1) p(1) by (simp add: sound_stream_def)
  then show ?thesis using True p size assms(2)
    by (cases "n < read_buff_size")
      (simp_all add: sock_read_def stream_bytes_def sound_stream_def at_end_def put_back_contents put_back_sound three_pieces [symmetric])
qed

interpretation socket: byte_source sock_read stream_bytes at_end sound_stream
proof
  fix s n
  show "sound_stream s \<Longrightarrow> 0 < n \<Longrightarrow> stream_bytes s \<noteq> [] \<Longrightarrow>
      \<exists>got s'. sock_read n s = (Some got, s') \<and> got \<noteq> [] \<and> length got \<le> n \<and> stream_bytes s = got @ stream_bytes s' \<and>
        sound_stream s' \<and> at_end s' = at_end s"
    by (rule sock_read_some)
  assume "sound_stream s" "stream_bytes s = []"
  then show "sock_read n s = (at_end s, s) \<and> at_end s \<in> {None, Some []}"
    by (cases "coming s") (auto simp: sock_read_def stream_bytes_def sound_stream_def at_end_def)
qed

interpretation buffered: byte_source buffer_read "\<lambda>b. drop (snd b) (fst b)" "\<lambda>_. Some []" "\<lambda>_. True"
proof
  fix b :: "string \<times> nat" and n :: nat
  have all: "take n d @ drop (length (take n d)) d = d" for d :: string by (simp add: min_def)
  assume "0 < n" "drop (snd b) (fst b) \<noteq> []"
  then show "\<exists>got b'. buffer_read n b = (Some got, b') \<and> got \<noteq> [] \<and> length got \<le> n \<and>
      drop (snd b) (fst b) = got @ drop (snd b') (fst b') \<and> True \<and> Some [] = Some []"
    using all [of "drop (snd b) (fst b)"] by (auto simp: buffer_read_def split: prod.split) (simp add: add.commute)
qed (auto simp: buffer_read_def)

text \<open>What was written to a buffer is read from it.\<close>

lemma buffer_holds: "pos \<le> length d \<Longrightarrow> drop (snd (buffer_write e (d, pos))) (fst (buffer_write e (d, pos))) = drop pos d @ e"
  by (simp add: buffer_write_def)

text \<open>What is read is what was there, also when it ends in the midst of a line.\<close>

lemma sock_read_keeps: "sock_read n s = (Some got, s') \<Longrightarrow> stream_bytes s = got @ stream_bytes s'"
  using three_pieces [of n read_buff_size]
  by (auto simp: sock_read_def stream_bytes_def put_back_contents split: if_splits list.splits)

lemma getline_step_keeps:
  assumes "getline_from sock_read i prev line s = (Some l, s')"
  obtains "line = l" "i \<noteq> 0" "stream_bytes s = stream_bytes s'"
    | b s1 where "length (stream_bytes s) = Suc (length (stream_bytes s1))" "l = line @ [b]" "s' = s1"
    | b s1 where "\<not> max_line \<le> i" "sock_read 1 s = (Some [b], s1)" "length (stream_bytes s) = Suc (length (stream_bytes s1))"
        "\<not> (prev = CHR 13 \<and> b = CHR 10)" "getline_from sock_read (i + 1) b (line @ [b]) s1 = (Some l, s')"
proof -
  obtain r s1 where r: "sock_read 1 s = (r, s1)" by (cases "sock_read 1 s")
  have low: "\<not> max_line \<le> i" using assms by (subst (asm) getline_from.simps) (auto split: if_splits)
  show thesis
  proof (cases r)
    case None
    then show thesis using assms r low by (subst (asm) getline_from.simps) simp
  next
    case (Some got)
    have keeps: "stream_bytes s = got @ stream_bytes s1" using sock_read_keeps r Some by blast
    show thesis
    proof (cases got)
      case Nil
      then show thesis using assms r Some low keeps that(1) by (subst (asm) getline_from.simps) (simp split: if_splits)
    next
      case (Cons b bs)
      have "length got \<le> 1" using r Some by (auto simp: sock_read_def split: if_splits list.splits)
      then have got: "got = [b]" using Cons by simp
      show thesis
      proof (cases "prev = CHR 13 \<and> b = CHR 10")
        case True
        then have "l = line @ [b]" "s' = s1" using assms r Some low got by (subst (asm) getline_from.simps; simp)+
        then show thesis using that(2) keeps got by simp
      next
        case False
        then have "getline_from sock_read (i + 1) b (line @ [b]) s1 = (Some l, s')"
          using assms r Some low got by (subst (asm) getline_from.simps) (simp only: if_False prod.case option.case list.case One_nat_def)
        then show thesis using that(3) low r Some got keeps False by simp
      qed
    qed
  qed
qed

lemma getline_from_keeps:
  "0 \<le> i \<Longrightarrow> getline_from sock_read i prev line s = (Some l, s') \<Longrightarrow>
     length (stream_bytes s') \<le> length (stream_bytes s) \<and> (i = 0 \<longrightarrow> length (stream_bytes s') < length (stream_bytes s))"
proof (induction "nat (max_line - i)" arbitrary: i prev line s rule: less_induct)
  case less
  show ?case
  proof (rule getline_step_keeps [OF less.prems(2)])
    fix b s1
    assume low: "\<not> max_line \<le> i" and s1: "length (stream_bytes s) = Suc (length (stream_bytes s1))"
      and rest: "getline_from sock_read (i + 1) b (line @ [b]) s1 = (Some l, s')"
    have "length (stream_bytes s') \<le> length (stream_bytes s1)" using less.hyps [OF _ _ rest] low less.prems(1) by auto
    then show ?thesis using s1 by simp
  qed simp_all
qed

lemma getline_shrinks: "getline sock_read s = (Some l, s') \<Longrightarrow> length (stream_bytes s') < length (stream_bytes s)"
  unfolding getline_def by (drule getline_from_keeps [rotated]) auto

end
