(* ===== verification/Http_Bodies.thy ===== *)
theory Http_Bodies
  imports Http_Messages
begin

text \<open>
  The ways a body arrives in \<^verbatim>\<open>common/httplib.h\<close>: with its length announced, in chunks, or up to the
  end of the connection. The servers of the system announce the length; a proxy in front of them may
  pass an answer on in chunks.
\<close>

section \<open>Chunks\<close>

text \<open>
  A line with the size of a chunk, up to a null character: hexadecimal digits whose value fits 64 bits,
  blanks, and then nothing, an extension or the end of the line.
\<close>

definition c_text :: "string \<Rightarrow> string" where
  "c_text l = takeWhile (\<lambda>c. code c \<noteq> 0) l"

definition parse_chunk_size :: "string \<Rightarrow> int option" where
  "parse_chunk_size l =
     (let line = c_text l; ds = takeWhile (is_digit 16) line;
          rest = dropWhile is_space_or_tab (dropWhile (is_digit 16) line)
      in if ds = [] \<or> 2 ^ 64 \<le> digits_value 16 ds \<or> rest \<noteq> [] \<and> hd rest \<notin> {CHR '';'', CHR 13, CHR 10}
         then None else Some (digits_value 16 ds))"

datatype payload = Broken | Finished | Payload string int

text \<open>\<^verbatim>\<open>ChunkedDecoder::read_payload\<close>: a piece of the current chunk, and what is left of it.\<close>

definition chunk_size :: "int \<Rightarrow> stream \<Rightarrow> int option \<times> stream" where
  "chunk_size chunk_remaining s =
     (if chunk_remaining = 0
      then (case getline sock_read s of (None, s1) \<Rightarrow> (None, s1) | (Some l, s1) \<Rightarrow> (parse_chunk_size l, s1))
      else (Some chunk_remaining, s))"

definition end_chunk :: "string \<Rightarrow> stream \<Rightarrow> payload \<times> stream" where
  "end_chunk got s =
     (case getline sock_read s of
        (None, s1) \<Rightarrow> (Broken, s1)
      | (Some l, s1) \<Rightarrow> (if c_text l = [CHR 13, CHR 10] then Payload got 0 else Broken, s1))"

definition read_payload :: "int \<Rightarrow> stream \<Rightarrow> payload \<times> stream" where
  "read_payload chunk_remaining s =
     (case chunk_size chunk_remaining s of
        (None, s1) \<Rightarrow> (Broken, s1)
      | (Some n, s1) \<Rightarrow>
          if n = 0 then (Finished, s1)
          else case sock_read (nat (min n recv_bufsiz)) s1 of
              (None, s2) \<Rightarrow> (Broken, s2)
            | (Some got, s2) \<Rightarrow>
                if got = [] then (Broken, s2)
                else if n - int (length got) = 0 then end_chunk got s2
                else (Payload got (n - int (length got)), s2))"

lemma read_payload_some: "read_payload n s = (Payload got left, s1) \<Longrightarrow> got \<noteq> []"
  by (auto simp: read_payload_def end_chunk_def split: prod.splits option.splits if_splits)

text \<open>Trailers count if the header \<^verbatim>\<open>Trailer\<close> declares them and they are not prohibited.\<close>

definition prohibited_trailers :: "string list" where
  "prohibited_trailers =
     [''transfer-encoding'', ''content-length'', ''host'', ''authorization'', ''www-authenticate'', ''proxy-authenticate'',
      ''proxy-authorization'', ''cookie'', ''set-cookie'', ''cache-control'', ''expect'', ''max-forwards'', ''pragma'', ''range'', ''te'',
      ''age'', ''expires'', ''date'', ''location'', ''retry-after'', ''vary'', ''warning'', ''content-encoding'', ''content-type'',
      ''content-range'', ''trailer'']"

definition declared_trailers :: "headers \<Rightarrow> string list" where
  "declared_trailers hs =
     filter (\<lambda>k. \<not> list_ex (case_ignore_equal k) prohibited_trailers) (split_trimmed (CHR '','') (header_value ''Trailer'' hs))"

function parse_trailers :: "string list \<Rightarrow> int \<Rightarrow> string \<Rightarrow> stream \<Rightarrow> bool \<times> stream" where
  "parse_trailers declared trailer_header_count l s =
     (if c_text l = [CHR 13, CHR 10] then (True, s)
      else if header_max_length < int (length l) \<or> header_max_count \<le> trailer_header_count then (False, s)
      else case parse_header (take (length l - 2) l) of
          None \<Rightarrow> (False, s)
        | Some (k, v) \<Rightarrow>
            (case getline sock_read s of
               (None, s1) \<Rightarrow> (False, s1)
             | (Some l', s1) \<Rightarrow>
                 parse_trailers declared (trailer_header_count + (if list_ex (case_ignore_equal k) declared then 1 else 0)) l' s1))"
  by pat_completeness auto
termination
  by (relation "measure (\<lambda>(ds, n, l, s). length (stream_bytes s))") (auto dest!: getline_shrinks [OF sym])

declare parse_trailers.simps [simp del]

definition parse_trailers_into :: "headers \<Rightarrow> stream \<Rightarrow> bool \<times> stream" where
  "parse_trailers_into src_headers s =
     (case getline sock_read s of
        (None, s1) \<Rightarrow> (False, s1)
      | (Some l, s1) \<Rightarrow> parse_trailers (declared_trailers src_headers) 0 l s1)"

function read_content_chunked ::
    "(string \<Rightarrow> string \<Rightarrow> string option) \<Rightarrow> int \<Rightarrow> headers \<Rightarrow> int \<Rightarrow> int \<Rightarrow> string \<Rightarrow> stream \<Rightarrow> ReadContentResult \<times> stream" where
  "read_content_chunked receiver payload_max hs total_len chunk_remaining body s =
     (case read_payload chunk_remaining s of
        (Broken, s1) \<Rightarrow> (Error, s1)
      | (Finished, s1) \<Rightarrow> (case parse_trailers_into hs s1 of (ok, s2) \<Rightarrow> (if ok then Success body else Error, s2))
      | (Payload got left, s1) \<Rightarrow>
          if payload_max < total_len \<or> payload_max - total_len < int (length got) then (PayloadTooLarge, s1)
          else case receiver body got of
              None \<Rightarrow> (Error, s1)
            | Some body' \<Rightarrow> read_content_chunked receiver payload_max hs (total_len + int (length got)) left body' s1)"
  by pat_completeness auto
termination
  by (relation "measure (\<lambda>(receiver, payload_max, hs, total, left, body, s). nat (payload_max - total))") (auto dest!: read_payload_some [OF sym] nonempty_length)

declare read_content_chunked.simps [simp del]

section \<open>Reading a body\<close>

text \<open>
  Compressed bodies are refused, since the program is built without the libraries that decompress
  them. A failure is told as a status.
\<close>

definition is_chunked :: "headers \<Rightarrow> bool" where
  "is_chunked hs \<longleftrightarrow> case_ignore_equal (header_value ''Transfer-Encoding'' hs) ''chunked''"

definition settle_content :: "ReadContentResult \<times> stream \<Rightarrow> (int + string) \<times> stream" where
  "settle_content r = ((case fst r of Success b \<Rightarrow> Inr b | PayloadTooLarge \<Rightarrow> Inl 413 | Error \<Rightarrow> Inl 400), snd r)"

definition read_content ::
    "(string \<Rightarrow> string \<Rightarrow> string option) \<Rightarrow> int \<Rightarrow> headers \<Rightarrow> stream \<Rightarrow> (int + string) \<times> stream" where
  "read_content receiver payload_max hs s =
     (if header_value ''Content-Encoding'' hs \<noteq> [] then (Inl 415, s)
      else if is_chunked hs then settle_content (read_content_chunked receiver payload_max hs 0 0 [] s)
      else if \<not> headers_have ''Content-Length'' hs
      then settle_content (read_content_without_length sock_read receiver payload_max 0 [] s)
      else let (len, is_invalid_value) = get_header_value_u64 hs ''Content-Length'' (2 ^ 64 - 1)
        in if is_invalid_value then (Inl 400, s)
           else if 0 < len then settle_content (read_content_with_length sock_read receiver payload_max len 0 [] s)
           else (Inr [], s))"

section \<open>A body of announced length\<close>

lemma append_limited_room:
  "int (length b) + int (length got) \<le> payload_max \<Longrightarrow> got \<noteq> [] \<Longrightarrow> append_limited payload_max b got = Some (b @ got)"
  using nonempty_length [of got] by (simp add: append_limited_def)

lemma read_sent_content:
  assumes "names_distinct hs" and "(''Content-Length'', to_string (int (length body))) \<in> set hs"
    and "find_header ''Content-Encoding'' hs = None" and "find_header ''Transfer-Encoding'' hs = None"
    and "int (length body) < 2 ^ 64" and "int (length body) \<le> payload_max"
    and "receiver = append_limited limit" and "limit = 0 \<or> int (length body) \<le> limit"
    and "sound_stream s" and "stream_bytes s = body @ r"
  obtains s' where "read_content receiver payload_max hs s = (Inr body, s')" "stream_bytes s' = r" "sound_stream s'" "at_end s' = at_end s"
proof -
  note len = content_length_value [OF assms(1,2) _ assms(5)]
  have plain: "header_value ''Content-Encoding'' hs = []" "\<not> is_chunked hs"
    using assms(3,4) by (simp_all add: header_value_def is_chunked_def case_ignore_equal_def)
  obtain s' where s': "read_content_with_length sock_read receiver payload_max (int (length body)) 0 [] s = (Success ([] @ body), s')"
    "stream_bytes s' = r" "sound_stream s'" "at_end s' = at_end s"
    using socket.body_reads [OF assms(9,10), of 0 "int (length body)" payload_max "[]" receiver] assms(6,8)
      append_limited_room [of _ _ limit] unfolding assms(7) by (fastforce simp: append_limited_def)
  show thesis
  proof (cases "body = []")
    case True
    then show thesis using that len plain assms(9,10) by (simp add: read_content_def)
  next
    case False
    then have "0 < int (length body)" by simp
    then show thesis using that len plain s' by (simp add: read_content_def settle_content_def)
  qed
qed

section \<open>A body in chunks\<close>

text \<open>A chunk is its size as a line and its data; a body in chunks ends with an empty chunk and no trailers.\<close>

definition chunk_text :: "string \<times> string \<Rightarrow> string" where
  "chunk_text c = fst c @ [CHR 13, CHR 10] @ snd c @ [CHR 13, CHR 10]"

definition chunked_text :: "(string \<times> string) list \<Rightarrow> string \<Rightarrow> string" where
  "chunked_text cs final = concat (map chunk_text cs) @ final @ [CHR 13, CHR 10, CHR 13, CHR 10]"

definition size_line :: "string \<Rightarrow> nat \<Rightarrow> bool" where
  "size_line l n \<longleftrightarrow> CHR 10 \<notin> set l \<and> int (length l) + 2 \<le> max_line \<and> parse_chunk_size (l @ [CHR 13, CHR 10]) = Some (int n)"

lemma c_text_line_end: "c_text [CHR 13, CHR 10] = [CHR 13, CHR 10]"
  by (simp add: c_text_def code_def)

lemma line_end_read:
  assumes "sound_stream s" and "stream_bytes s = CHR 13 # CHR 10 # r"
  obtains s' where "getline sock_read s = (Some [CHR 13, CHR 10], s')" "stream_bytes s' = r" "sound_stream s'"
  using socket.getline_reads [OF assms(1), of "[]" r] assms(2) that by (auto simp: max_line_def)

lemma chunk_data_read:
  "sound_stream s \<Longrightarrow> stream_bytes s = d @ CHR 13 # CHR 10 # r \<Longrightarrow> d \<noteq> [] \<Longrightarrow> total_len + int (length d) \<le> payload_max \<Longrightarrow>
   (\<And>b got. int (length b) + int (length got) \<le> int (length body) + int (length d) \<Longrightarrow> got \<noteq> [] \<Longrightarrow> receiver b got = Some (b @ got)) \<Longrightarrow>
     \<exists>s'. read_content_chunked receiver payload_max hs total_len (int (length d)) body s =
        read_content_chunked receiver payload_max hs (total_len + int (length d)) 0 (body @ d) s' \<and>
       stream_bytes s' = r \<and> sound_stream s'"
proof (induction "length d" arbitrary: d total_len body s rule: less_induct)
  case less
  define n where "n = nat (min (int (length d)) recv_bufsiz)"
  have n: "0 < n" "n \<le> length d" using less.prems(3) by (auto simp: n_def recv_bufsiz_def)
  obtain got s1 where got: "sock_read n s = (Some got, s1)" "got \<noteq> []" "length got \<le> n" "stream_bytes s = got @ stream_bytes s1"
    "sound_stream s1"
    using sock_read_some [OF less.prems(1) n(1)] less.prems(2,3) by auto
  have split: "got @ stream_bytes s1 = d @ CHR 13 # CHR 10 # r" "length got \<le> length d" using got(3,4) n(2) less.prems(2) by simp_all
  note d = prefix_split [OF split]
  have len: "int (length (drop (length got) d)) = int (length d) - int (length got)" "int (length got) \<le> int (length d)"
    using split(2) by (simp_all add: of_nat_diff)
  have room: "\<not> (payload_max < total_len \<or> payload_max - total_len < int (length got))" using less.prems(4) len by simp
  have took: "receiver body got = Some (body @ got)" using len got(2) by (intro less.prems(5)) simp_all
  have read: "read_payload (int (length d)) s =
      (if int (length d) - int (length got) = 0 then end_chunk got s1 else (Payload got (int (length d) - int (length got)), s1))"
    using less.prems(3) got(1,2) by (simp add: read_payload_def chunk_size_def n_def)
  show ?case
  proof (cases "length got = length d")
    case True
    then have "drop (length got) d = []" by simp
    then have whole: "got = d" "stream_bytes s1 = CHR 13 # CHR 10 # r" using d by (metis append_Nil2, metis append_Nil)
    obtain s2 where s2: "getline sock_read s1 = (Some [CHR 13, CHR 10], s2)" "stream_bytes s2 = r" "sound_stream s2"
      by (rule line_end_read [OF got(5) whole(2)])
    have "read_payload (int (length d)) s = (Payload d 0, s2)"
      using read True s2(1) whole(1) by (simp add: end_chunk_def c_text_line_end)
    then have "read_content_chunked receiver payload_max hs total_len (int (length d)) body s =
        read_content_chunked receiver payload_max hs (total_len + int (length d)) 0 (body @ d) s2"
      using room took whole(1) by (subst read_content_chunked.simps) simp
    then show ?thesis using s2 by blast
  next
    case False
    then have more: "length (drop (length got) d) < length d" "drop (length got) d \<noteq> []" using split(2) got(2) less.prems(3) by auto
    have "read_payload (int (length d)) s = (Payload got (int (length (drop (length got) d))), s1)" using read False len by simp
    then have step: "read_content_chunked receiver payload_max hs total_len (int (length d)) body s =
        read_content_chunked receiver payload_max hs (total_len + int (length got)) (int (length (drop (length got) d))) (body @ got) s1"
      using room took by (subst read_content_chunked.simps) simp
    have "total_len + int (length got) + int (length (drop (length got) d)) \<le> payload_max" using less.prems(4) len by simp
    then have "\<exists>s'. read_content_chunked receiver payload_max hs (total_len + int (length got)) (int (length (drop (length got) d))) (body @ got) s1 =
        read_content_chunked receiver payload_max hs (total_len + int (length got) + int (length (drop (length got) d))) 0
          ((body @ got) @ drop (length got) d) s' \<and> stream_bytes s' = r \<and> sound_stream s'"
      by (rule less.hyps [OF more(1) got(5) d(2) more(2)]) (use less.prems(5) len in auto)
    moreover have "total_len + int (length got) + int (length (drop (length got) d)) = total_len + int (length d)" using len by simp
    moreover have "(body @ got) @ drop (length got) d = body @ d" using d(1) by simp
    ultimately show ?thesis using step by metis
  qed
qed

lemma size_read:
  assumes "sound_stream s" and "stream_bytes s = l @ CHR 13 # CHR 10 # r" and "size_line l n"
  obtains s' where "chunk_size 0 s = (Some (int n), s')" "stream_bytes s' = r" "sound_stream s'"
proof -
  obtain s' where "getline sock_read s = (Some (l @ [CHR 13, CHR 10]), s')" "stream_bytes s' = r" "sound_stream s'"
    using socket.getline_reads [OF assms(1,2)] assms(3) by (auto simp: size_line_def)
  then show thesis using that assms(3) by (simp add: chunk_size_def size_line_def)
qed

lemma chunks_read:
  "sound_stream s \<Longrightarrow> stream_bytes s = chunked_text cs final @ r \<Longrightarrow> size_line final 0 \<Longrightarrow>
   \<forall>(l, d)\<in>set cs. size_line l (length d) \<and> d \<noteq> [] \<Longrightarrow> total_len + int (length (concat (map snd cs))) \<le> payload_max \<Longrightarrow>
   (\<And>b got. int (length b) + int (length got) \<le> int (length body) + int (length (concat (map snd cs))) \<Longrightarrow> got \<noteq> [] \<Longrightarrow> receiver b got = Some (b @ got)) \<Longrightarrow>
     \<exists>s'. read_content_chunked receiver payload_max hs total_len 0 body s = (Success (body @ concat (map snd cs)), s') \<and>
       stream_bytes s' = r \<and> sound_stream s'"
proof (induction cs arbitrary: total_len body s)
  case Nil
  obtain s1 where s1: "chunk_size 0 s = (Some (int 0), s1)" "stream_bytes s1 = CHR 13 # CHR 10 # r" "sound_stream s1"
    by (rule size_read [OF Nil(1) _ Nil(3), of "CHR 13 # CHR 10 # r"]) (use Nil(2) in \<open>simp_all add: chunked_text_def\<close>)
  obtain s2 where s2: "getline sock_read s1 = (Some [CHR 13, CHR 10], s2)" "stream_bytes s2 = r" "sound_stream s2"
    by (rule line_end_read [OF s1(3,2)])
  have "parse_trailers_into hs s1 = (True, s2)"
    using s2(1) by (simp add: parse_trailers_into_def parse_trailers.simps c_text_line_end)
  then show ?case using s1(1) s2 by (subst read_content_chunked.simps) (simp add: read_payload_def)
next
  case (Cons c cs)
  obtain l d where c: "c = (l, d)" by (cases c)
  have ld: "size_line l (length d)" "d \<noteq> []" using Cons.prems(4) c by simp_all
  obtain s1 where s1: "chunk_size 0 s = (Some (int (length d)), s1)" "stream_bytes s1 = d @ CHR 13 # CHR 10 # chunked_text cs final @ r"
    "sound_stream s1"
    by (rule size_read [OF Cons.prems(1) _ ld(1), of "d @ CHR 13 # CHR 10 # chunked_text cs final @ r"])
      (use Cons.prems(2) c in \<open>simp_all add: chunked_text_def chunk_text_def\<close>)
  have "read_payload 0 s = read_payload (int (length d)) s1" using s1(1) ld(2) by (simp add: read_payload_def chunk_size_def)
  then have start: "read_content_chunked receiver payload_max hs total_len 0 body s =
      read_content_chunked receiver payload_max hs total_len (int (length d)) body s1"
    by (subst (1 2) read_content_chunked.simps) simp
  have "total_len + int (length d) \<le> payload_max" using Cons.prems(5) c by simp
  then obtain s2 where s2: "read_content_chunked receiver payload_max hs total_len (int (length d)) body s1 =
      read_content_chunked receiver payload_max hs (total_len + int (length d)) 0 (body @ d) s2"
    "stream_bytes s2 = chunked_text cs final @ r" "sound_stream s2"
    using chunk_data_read [OF s1(3,2) ld(2), where body = body and receiver = receiver] Cons.prems(6) c by fastforce
  have "\<exists>s'. read_content_chunked receiver payload_max hs (total_len + int (length d)) 0 (body @ d) s2 =
      (Success ((body @ d) @ concat (map snd cs)), s') \<and> stream_bytes s' = r \<and> sound_stream s'"
    by (rule Cons.IH [OF s2(3,2) Cons.prems(3)]) (use Cons.prems(4-6) c in auto)
  then show ?case using start s2(1) c by simp
qed

text \<open>C25: A body that arrives in chunks, whatever their sizes and the pieces in which the bytes come, is read as the chunks
  one after the other, if together they keep within the limit.\<close>

theorem chunked_body_read:
  assumes "sound_stream s" and "stream_bytes s = chunked_text cs final @ r" and "size_line final 0"
    and "\<forall>(l, d)\<in>set cs. size_line l (length d) \<and> d \<noteq> []"
    and "int (length (concat (map snd cs))) \<le> payload_max" and "is_chunked hs" and "header_value ''Content-Encoding'' hs = []"
  shows "\<exists>s'. read_content (append_limited payload_max) payload_max hs s = (Inr (concat (map snd cs)), s') \<and>
    stream_bytes s' = r \<and> sound_stream s'"
proof -
  have "append_limited payload_max b got = Some (b @ got)"
    if "int (length b) + int (length got) \<le> int (length (concat (map snd cs)))" "got \<noteq> []" for b got
    by (rule append_limited_room) (use that assms(5) in auto)
  then obtain s' where "read_content_chunked (append_limited payload_max) payload_max hs 0 0 [] s = (Success (concat (map snd cs)), s')"
    "stream_bytes s' = r" "sound_stream s'"
    using chunks_read [OF assms(1-4), of 0 payload_max "[]" "append_limited payload_max" hs] assms(5) by auto
  then show ?thesis using assms(6,7) by (simp add: read_content_def settle_content_def)
qed

lemma chunked_body_read_witness:
  "fst (read_content (append_limited 100) 100 [(''Transfer-Encoding'', ''Chunked'')]
     \<lparr>read_buff = [], coming = [''4;x'' @ [CHR 13, CHR 10] @ ''ab'', ''cd'' @ [CHR 13], [CHR 10] @ ''0'' @ [CHR 13, CHR 10, CHR 13, CHR 10]], hung_up = False\<rparr>) =
   Inr ''abcd''"
proof -
  let ?s = "\<lparr>read_buff = [], coming = [''4;x'' @ [CHR 13, CHR 10] @ ''ab'', ''cd'' @ [CHR 13], [CHR 10] @ ''0'' @ [CHR 13, CHR 10, CHR 13, CHR 10]], hung_up = False\<rparr>"
  have "parse_chunk_size (''4;x'' @ [CHR 13, CHR 10]) = Some 4" "parse_chunk_size (''0'' @ [CHR 13, CHR 10]) = Some 0" by code_simp+
  then have lines: "size_line ''4;x'' (length ''abcd'')" "size_line ''0'' 0" by (simp_all add: size_line_def max_line_def)
  have "is_chunked [(''Transfer-Encoding'', ''Chunked'')]" "header_value ''Content-Encoding'' [(''Transfer-Encoding'', ''Chunked'')] = []"
    by code_simp+
  moreover have "sound_stream ?s" "stream_bytes ?s = chunked_text [(''4;x'', ''abcd'')] ''0'' @ []"
    by (simp_all add: sound_stream_def stream_bytes_def chunked_text_def chunk_text_def)
  ultimately show ?thesis
    using chunked_body_read [of ?s "[(''4;x'', ''abcd'')]" "''0''" "[]" 100 "[(''Transfer-Encoding'', ''Chunked'')]"] lines by auto
qed

end
