(* ===== verification/Http_Exchange.thy ===== *)
theory Http_Exchange
  imports Http_Bodies
begin

text \<open>
  A request and its response over a connection, from the call of the client to the handler of the
  server and back, byte for byte: \<^verbatim>\<open>ClientImpl::process_request\<close> and \<^verbatim>\<open>Server::process_request\<close> of
  \<^verbatim>\<open>common/httplib.h\<close>. The result is that a server answers over the wire what it answers to the
  request as it was made.
\<close>

section \<open>The headers of a request\<close>

definition has_char :: "char \<Rightarrow> string \<Rightarrow> bool" where
  "has_char c s \<longleftrightarrow> c \<in> set s"

definition prepare_host_string :: "string \<Rightarrow> string" where
  "prepare_host_string host =
     (if \<not> has_char (CHR '':'') host \<or> host \<noteq> [] \<and> hd host = CHR ''['' then host else ''['' @ host @ '']'')"

definition make_host_and_port_string :: "string \<Rightarrow> int \<Rightarrow> string" where
  "make_host_and_port_string host port =
     prepare_host_string host @ (if port = 80 then [] else '':'' @ to_string port)"

definition set_missing :: "string \<Rightarrow> string \<Rightarrow> headers \<Rightarrow> headers" where
  "set_missing k v hs = (if headers_have k hs then hs else set_header k v hs)"

definition emplace_missing :: "string \<Rightarrow> string \<Rightarrow> headers \<Rightarrow> headers" where
  "emplace_missing k v hs = (if headers_have k hs then hs else hs @ [(k, v)])"

text \<open>A call that streams its content names no encodings and no agent.\<close>

definition prepare_default_headers :: "string \<Rightarrow> int \<Rightarrow> bool \<Rightarrow> string \<Rightarrow> string \<Rightarrow> headers \<Rightarrow> headers" where
  "prepare_default_headers host port streaming ct body hs =
     (let h1 = emplace_missing ''Host'' (make_host_and_port_string host port) hs;
          h2 = emplace_missing ''Accept'' ''*/*'' h1;
          h3 = (if streaming then h2
                else set_missing ''User-Agent'' ''cpp-httplib/0.47.0'' (set_missing ''Accept-Encoding'' [] h2))
      in if body = [] then h3
         else emplace_missing ''Content-Length'' (to_string (int (length body)))
                (if ct \<noteq> [] then emplace_missing ''Content-Type'' ct h3 else h3))"

definition expect_threshold :: int where
  "expect_threshold = 1024"

definition add_expect :: "string \<Rightarrow> headers \<Rightarrow> headers" where
  "add_expect body hs =
     (if \<not> headers_have ''Expect'' hs \<and> expect_threshold \<le> int (length body) then set_header ''Expect'' ''100-continue'' hs else hs)"

text \<open>Connections are not kept alive by the clients of the system.\<close>

definition prepare_headers :: "string \<Rightarrow> int \<Rightarrow> bool \<Rightarrow> string \<Rightarrow> string \<Rightarrow> headers \<Rightarrow> headers" where
  "prepare_headers host port streaming m body hs =
     (let h1 = set_missing ''Connection'' ''close'' hs;
          ct = (if \<not> headers_have ''Content-Type'' h1 \<and> body \<noteq> [] then ''text/plain'' else []);
          h2 = prepare_default_headers host port streaming ct body h1
      in if body = [] \<and> m \<in> {''POST'', ''PUT'', ''PATCH''} then set_header ''Content-Length'' ''0'' h2 else h2)"

definition call_headers :: "string \<Rightarrow> headers \<Rightarrow> headers" where
  "call_headers content_type hs = (if content_type \<noteq> [] then set_header ''Content-Type'' content_type hs else hs)"

section \<open>Accept\<close>

definition extract_media_type :: "string \<Rightarrow> string" where
  "extract_media_type content_type = trim (fst (divide_at (CHR '';'') content_type))"

text \<open>
  Whether a text is a floating-point number between 0 and 1 is an argument. The first \<open>q\<close> among the
  parameters decides.
\<close>

definition quality_param :: "string \<Rightarrow> bool" where
  "quality_param p \<longleftrightarrow> take 2 p = ''q='' \<or> take 2 p = ''Q=''"

definition parse_quality :: "(string \<Rightarrow> bool) \<Rightarrow> string \<Rightarrow> string option" where
  "parse_quality unit_interval s =
     (let (l, params) = divide_at (CHR '';'') s; token = trim l
      in if token = [] then None
         else case List.find quality_param (split_trimmed (CHR '';'') params) of
             None \<Rightarrow> Some token
           | Some p \<Rightarrow> if unit_interval (trim (drop 2 p)) \<and> trim (drop 2 p) \<noteq> [] then Some token else None)"

fun doubled :: "char \<Rightarrow> string \<Rightarrow> bool" where
  "doubled c (a # b # s) \<longleftrightarrow> a = c \<and> b = c \<or> doubled c (b # s)"
| "doubled c _ \<longleftrightarrow> False"

definition accept_entry :: "(string \<Rightarrow> bool) \<Rightarrow> string \<Rightarrow> bool" where
  "accept_entry unit_interval entry \<longleftrightarrow>
     (case parse_quality unit_interval entry of
        None \<Rightarrow> False
      | Some token \<Rightarrow>
          extract_media_type token \<noteq> [] \<and> (extract_media_type token = ''*'' \<or> has_char (CHR ''/'') (extract_media_type token)))"

definition parse_accept_header :: "(string \<Rightarrow> bool) \<Rightarrow> string \<Rightarrow> bool" where
  "parse_accept_header unit_interval s \<longleftrightarrow>
     s = [] \<or>
     hd s \<noteq> CHR '','' \<and> last s \<noteq> CHR '','' \<and> \<not> doubled (CHR '','') s \<and>
       list_all (accept_entry unit_interval) (split_trimmed (CHR '','') s)"

section \<open>The server\<close>

text \<open>
  The words of a request line, as far as a line that is refused has set them; of a line that is
  accepted the third is the version.
\<close>

definition request_words :: "string \<Rightarrow> string list" where
  "request_words s =
     (let line = takeWhile (\<lambda>c. code c \<noteq> 0) s
      in if ends_with_crlf line then split_trimmed (CHR '' '') (take (length line - 2) line) else [])"

definition nth_word :: "nat \<Rightarrow> string list \<Rightarrow> string" where
  "nth_word n ws = (if n < length ws then ws ! n else [])"

definition is_connection_persistent :: "string \<Rightarrow> headers \<Rightarrow> bool" where
  "is_connection_persistent version hs \<longleftrightarrow>
     header_value ''Connection'' hs \<noteq> ''close'' \<and> \<not> (version = ''HTTP/1.0'' \<and> header_value ''Connection'' hs \<noteq> ''Keep-Alive'')"

definition expect_content :: "string \<Rightarrow> headers \<Rightarrow> bool" where
  "expect_content m hs \<longleftrightarrow>
     m \<in> {''POST'', ''PUT'', ''PATCH'', ''DELETE''} \<or> is_chunked hs \<or> 0 < fst (get_header_value_u64 hs ''Content-Length'' 0)"

text \<open>
  The head of a request: nothing at all, or a refusal with its status, or the request without its body
  and whether an interim response was sent. What is refused is answered with the method as far as it
  was read.
\<close>

datatype request_head =
    Hung_up
  | Rejected int string
  | Accepted string string string headers bool stream

definition accept_head :: "(string \<Rightarrow> bool) \<Rightarrow> stream \<Rightarrow> request_head" where
  "accept_head unit_interval s =
     (case getline sock_read s of
        (None, s1) \<Rightarrow> Hung_up
      | (Some line, s1) \<Rightarrow>
          (case parse_request_line line of
             None \<Rightarrow> Rejected 400 (nth_word 0 (request_words line))
           | Some (m, target) \<Rightarrow>
               (case read_headers s1 of
                  (None, s2) \<Rightarrow> Rejected 400 m
                | (Some hs, s2) \<Rightarrow>
                    if 0 < fst (get_header_value_u64 hs ''Content-Length'' 0) \<and> headers_have ''Transfer-Encoding'' hs then Rejected 400 m
                    else if max_uri < int (length target) then Rejected 414 m
                    else if headers_have ''Accept'' hs \<and> \<not> parse_accept_header unit_interval (header_value ''Accept'' hs) then Rejected 400 m
                    else Accepted m target (nth_word 2 (request_words line)) hs (header_value ''Expect'' hs = ''100-continue'') s2)))"

text \<open>
  \<^verbatim>\<open>read_content_core\<close>. Without a length nothing is read from a connection that stays open; on one that
  will be closed, whatever is there belongs to the body. A failure that sets no status is the status \<open>-1\<close>.
\<close>

definition read_request_body :: "int \<Rightarrow> string \<Rightarrow> headers \<Rightarrow> stream \<Rightarrow> int + string" where
  "read_request_body payload_max version hs s =
     (if \<not> headers_have ''Content-Length'' hs \<and> \<not> is_chunked hs
      then (if \<not> is_connection_persistent version hs \<and> 0 < payload_max \<and> payload_max < 2 ^ 64 - 1 \<and>
               (read_buff s \<noteq> [] \<or> coming s \<noteq> [] \<or> hung_up s)
            then (case fst (read_content_without_length sock_read (append_limited payload_max) payload_max 0 [] s) of
                    Success b \<Rightarrow> Inr b | PayloadTooLarge \<Rightarrow> Inl 413 | Error \<Rightarrow> Inl (-1))
            else Inr [])
      else fst (read_content (append_limited payload_max) payload_max hs s))"

definition answer_request ::
    "int \<Rightarrow> (string \<times> string \<times> 's handler) list \<Rightarrow> string \<Rightarrow> string \<Rightarrow> string \<Rightarrow> headers \<Rightarrow> stream \<Rightarrow> 's \<Rightarrow> Response option \<times> 's" where
  "answer_request payload_max routes m target version hs s st =
     (let req = \<lparr>req_method = m, req_path = fst (parse_target target), req_params = snd (parse_target target),
                 req_headers = hs, req_body = []\<rparr>
      in if m \<notin> {''GET'', ''HEAD'', ''POST'', ''PUT'', ''DELETE'', ''OPTIONS'', ''PATCH''} then (Some (with_status 400), st)
         else case List.find (\<lambda>(r, p, h). method_matches m r \<and> p = req_path req) routes of
             None \<Rightarrow> (Some (with_status 404), st)
           | Some (r, p, h) \<Rightarrow>
               if expect_content m hs
               then (case read_request_body payload_max version hs s of
                       Inl status \<Rightarrow> (Some (with_status (if status = -1 then 404 else status)), st)
                     | Inr body \<Rightarrow> run_handler (h (req\<lparr>req_body := body\<rparr>)) st)
               else run_handler (h req) st)"

text \<open>\<^verbatim>\<open>write_response_core\<close>: the server closes after an error and whenever the client wants it.\<close>

definition response_headers :: "string \<Rightarrow> headers \<Rightarrow> Response \<Rightarrow> headers" where
  "response_headers m hs res =
     (let h0 = (if res_type res \<noteq> [] then set_header ''Content-Type'' (res_type res) [] else []);
          h1 = (if res_body res \<noteq> [] then set_header ''Content-Length'' (to_string (int (length (res_body res)))) h0 else h0);
          h2 = (if header_value ''Connection'' hs = ''close'' \<or> 400 \<le> res_status res
                then set_header ''Connection'' ''close'' h1 else set_header ''Keep-Alive'' ''timeout=5, max=100'' h1);
          h3 = (if res_body res \<noteq> [] \<and> \<not> headers_have ''Content-Type'' h2 then set_header ''Content-Type'' ''text/plain'' h2 else h2);
          h4 = (if res_body res = [] \<and> \<not> headers_have ''Content-Length'' h3 then set_header ''Content-Length'' ''0'' h3 else h3)
      in if m = ''HEAD'' \<and> \<not> headers_have ''Accept-Ranges'' h4 then set_header ''Accept-Ranges'' ''bytes'' h4 else h4)"

definition write_response :: "(headers \<Rightarrow> headers) \<Rightarrow> string \<Rightarrow> headers \<Rightarrow> Response \<Rightarrow> string" where
  "write_response arrange m hs res =
     write_response_line (res_status res) @ write_headers (arrange (response_headers m hs res)) @
     (if m \<noteq> ''HEAD'' then res_body res else [])"

definition interim_response :: string where
  "interim_response = write_response_line 100 @ [CHR 13, CHR 10]"

section \<open>The client\<close>

definition client_payload_max :: int where
  "client_payload_max = 104857600"

definition string_max_size :: int where
  "string_max_size = 2 ^ 63 - 1"

text \<open>The content of a streaming call is what its receiver is given; it has no limit.\<close>

definition receive_content :: "bool \<Rightarrow> string \<Rightarrow> int \<Rightarrow> headers \<Rightarrow> stream \<Rightarrow> Response option" where
  "receive_content streaming m status hs s =
     (let answer = (\<lambda>body. Some \<lparr>res_status = status, res_body = body, res_type = header_value ''Content-Type'' hs\<rparr>)
      in if status = 204 \<or> m = ''HEAD'' \<or> m = ''CONNECT'' then answer []
         else if headers_have ''Content-Length'' hs \<and> \<not> streaming \<and> string_max_size < fst (get_header_value_u64 hs ''Content-Length'' 0) then None
         else if status = 304 then answer []
         else case fst (read_content (append_limited (if streaming then 0 else client_payload_max))
                  (if streaming then 2 ^ 64 - 1 else client_payload_max) hs s) of
             Inl e \<Rightarrow> None
           | Inr body \<Rightarrow> answer body)"

definition receive_headers :: "bool \<Rightarrow> string \<Rightarrow> int \<Rightarrow> stream \<Rightarrow> Response option" where
  "receive_headers streaming m status s =
     (case read_headers s of (None, s1) \<Rightarrow> None | (Some hs, s1) \<Rightarrow> receive_content streaming m status hs s1)"

definition receive_response :: "bool \<Rightarrow> bool \<Rightarrow> string \<Rightarrow> stream \<Rightarrow> Response option" where
  "receive_response streaming skip_100_continue m s =
     (case read_response_line skip_100_continue s of
        (None, s1) \<Rightarrow> None
      | (Some status, s1) \<Rightarrow> receive_headers streaming m status s1)"

section \<open>A connection\<close>

text \<open>
  What the network decides: the pieces in which bytes arrive, the order in which each side writes its
  headers, whether an answer to the head of a request arrives within the second that the client waits
  for it, and whether a body can still be sent after the server closed. What the model leaves out is an
  argument too: whether a quality is a number within its range, and the answers to requests with ranges or
  with form data.
\<close>

record wire =
  cut :: "string \<Rightarrow> string list"
  arrange :: "headers \<Rightarrow> headers"
  arrange_back :: "headers \<Rightarrow> headers"
  prompt :: bool
  late_write :: bool
  unit_interval :: "string \<Rightarrow> bool"

record 's site =
  payload_limit :: int
  site_routes :: "(string \<times> string \<times> 's handler) list"
  answer_special :: "string \<Rightarrow> string \<Rightarrow> headers \<Rightarrow> stream \<Rightarrow> 's \<Rightarrow> string \<times> 's"

definition arriving :: "wire \<Rightarrow> string \<Rightarrow> stream" where
  "arriving net d = \<lparr>read_buff = [], coming = cut net d, hung_up = False\<rparr>"

definition replying :: "wire \<Rightarrow> string \<Rightarrow> stream" where
  "replying net d = (arriving net d)\<lparr>hung_up := True\<rparr>"

definition more_arrives :: "wire \<Rightarrow> string \<Rightarrow> stream \<Rightarrow> stream" where
  "more_arrives net d s = s\<lparr>coming := coming s @ cut net d\<rparr>"

definition special_request :: "headers \<Rightarrow> bool" where
  "special_request hs \<longleftrightarrow>
     headers_have ''Range'' hs \<or>
     extract_media_type (header_value ''Content-Type'' hs) \<in> {''multipart/form-data'', ''application/x-www-form-urlencoded''}"

definition answer_bytes ::
    "wire \<Rightarrow> 's site \<Rightarrow> string \<Rightarrow> string \<Rightarrow> string \<Rightarrow> headers \<Rightarrow> stream \<Rightarrow> 's \<Rightarrow> string \<times> 's" where
  "answer_bytes net site m target version hs s st =
     (if special_request hs then answer_special site m target hs s st
      else case answer_request (payload_limit site) (site_routes site) m target version hs s st of
          (None, st') \<Rightarrow> ([], st')
        | (Some res, st') \<Rightarrow> (write_response (arrange_back net) m hs res, st'))"

text \<open>The whole request is sent at once, or the body waits for the answer to the head.\<close>

definition converse_at_once :: "wire \<Rightarrow> 's site \<Rightarrow> bool \<Rightarrow> string \<Rightarrow> string \<Rightarrow> string \<Rightarrow> 's \<Rightarrow> Response option \<times> 's" where
  "converse_at_once net site streaming m head body st =
     (let receive = (\<lambda>d. receive_response streaming True m (replying net d))
      in case accept_head (unit_interval net) (arriving net (head @ body)) of
          Hung_up \<Rightarrow> (receive [], st)
        | Rejected status m' \<Rightarrow> (receive (write_response (arrange_back net) m' [] (with_status status)), st)
        | Accepted m' target version hs interim s \<Rightarrow>
            (case answer_bytes net site m' target version hs s st of
               (d, st') \<Rightarrow> (receive ((if interim then interim_response else []) @ d), st')))"

definition converse_expecting :: "wire \<Rightarrow> 's site \<Rightarrow> bool \<Rightarrow> string \<Rightarrow> string \<Rightarrow> string \<Rightarrow> 's \<Rightarrow> Response option \<times> 's" where
  "converse_expecting net site streaming m head body st =
     (let receive = (\<lambda>skip d. receive_response streaming skip m (replying net d))
      in case accept_head (unit_interval net) (arriving net head) of
          Hung_up \<Rightarrow> (None, st)
        | Rejected status m' \<Rightarrow>
            (let d = write_response (arrange_back net) m' [] (with_status status)
             in if prompt net then (receive False d, st)
                else (if late_write net then receive True d else None, st))
        | Accepted m' target version hs interim s \<Rightarrow>
            (case answer_bytes net site m' target version hs (more_arrives net body s) st of
               (d, st') \<Rightarrow>
                 if interim \<and> prompt net then
                   (case read_response_line False (arriving net interim_response) of
                      (Some status, s1) \<Rightarrow>
                        (case read_headers s1 of
                           (None, s2) \<Rightarrow> (None, st)
                         | (Some hs1, s2) \<Rightarrow>
                             if status = 100 then (receive_response streaming True m ((more_arrives net d s2)\<lparr>hung_up := True\<rparr>), st')
                             else (receive_content streaming m status hs1 s2, st))
                    | (None, s1) \<Rightarrow> (None, st))
                 else (receive True ((if interim then interim_response else []) @ d), st')))"

definition wire_exchange ::
    "wire \<Rightarrow> 's site \<Rightarrow> string \<Rightarrow> int \<Rightarrow> bool \<Rightarrow> string \<Rightarrow> string \<Rightarrow> headers \<Rightarrow> string \<Rightarrow> string \<Rightarrow> 's \<Rightarrow> Response option \<times> 's" where
  "wire_exchange net site host port streaming m target headers body content_type st =
     (let hs0 = add_expect body (call_headers content_type headers);
          hs = prepare_headers host port streaming m body hs0;
          head = write_request_line m (sent_target target) @ write_headers (arrange net hs)
      in if \<not> fields_valid hs then (None, st)
         else if header_value ''Expect'' hs0 = ''100-continue'' then converse_expecting net site streaming m head body st
         else converse_at_once net site streaming m head body st)"

end
