(* ===== verification/Wire_Refinement.thy ===== *)
theory Wire_Refinement
  imports Http_Exchange
begin

text \<open>
  Over a connection that delivers, in whatever pieces and with the headers in whatever order, a server
  answers what the dispatch of theory \<^verbatim>\<open>Url_Transport\<close> answers to the request as it was made.
\<close>

section \<open>What the library adds to a request\<close>

definition library_names :: "string list" where
  "library_names =
     [''Host'', ''Accept'', ''Accept-Encoding'', ''User-Agent'', ''Content-Type'', ''Content-Length'', ''Connection'', ''Expect'',
      ''Range'', ''Transfer-Encoding'', ''Content-Encoding'']"

definition library_headers :: "string \<Rightarrow> int \<Rightarrow> bool \<Rightarrow> string \<Rightarrow> string \<Rightarrow> string \<Rightarrow> headers" where
  "library_headers host port streaming m body ct =
     (if ct \<noteq> [] then [(''Content-Type'', ct)] else []) @
     (if expect_threshold \<le> int (length body) then [(''Expect'', ''100-continue'')] else []) @
     [(''Connection'', ''close''), (''Host'', make_host_and_port_string host port), (''Accept'', ''*/*'')] @
     (if streaming then [] else [(''Accept-Encoding'', []), (''User-Agent'', ''cpp-httplib/0.47.0'')]) @
     (if body \<noteq> [] then (if ct = [] then [(''Content-Type'', ''text/plain'')] else []) @ [(''Content-Length'', to_string (int (length body)))]
      else if m = ''POST'' then [(''Content-Length'', ''0'')] else [])"

definition lower_name :: "string \<Rightarrow> string" where
  "lower_name k = map to_lower k"

lemma lower_names:
  "lower_name ''Host'' = ''host''" "lower_name ''Accept'' = ''accept''" "lower_name ''Accept-Encoding'' = ''accept-encoding''"
  "lower_name ''User-Agent'' = ''user-agent''" "lower_name ''Content-Type'' = ''content-type''"
  "lower_name ''Content-Length'' = ''content-length''" "lower_name ''Connection'' = ''connection''"
  "lower_name ''Expect'' = ''expect''" "lower_name ''Range'' = ''range''"
  "lower_name ''Transfer-Encoding'' = ''transfer-encoding''" "lower_name ''Content-Encoding'' = ''content-encoding''"
  "lower_name ''Keep-Alive'' = ''keep-alive''" "lower_name ''Accept-Ranges'' = ''accept-ranges''"
proof -
  have "list_all (\<lambda>(k, l). lower_name k = l)
      [(''Host'', ''host''), (''Accept'', ''accept''), (''Accept-Encoding'', ''accept-encoding''),
       (''User-Agent'', ''user-agent''), (''Content-Type'', ''content-type''), (''Content-Length'', ''content-length''),
       (''Connection'', ''connection''), (''Expect'', ''expect''), (''Range'', ''range''),
       (''Transfer-Encoding'', ''transfer-encoding''), (''Content-Encoding'', ''content-encoding''), (''Keep-Alive'', ''keep-alive''),
       (''Accept-Ranges'', ''accept-ranges'')]"
    by code_simp
  then show "lower_name ''Host'' = ''host''" "lower_name ''Accept'' = ''accept''" "lower_name ''Accept-Encoding'' = ''accept-encoding''"
    "lower_name ''User-Agent'' = ''user-agent''" "lower_name ''Content-Type'' = ''content-type''" "lower_name ''Content-Length'' = ''content-length''"
    "lower_name ''Connection'' = ''connection''" "lower_name ''Expect'' = ''expect''" "lower_name ''Range'' = ''range''"
    "lower_name ''Transfer-Encoding'' = ''transfer-encoding''" "lower_name ''Content-Encoding'' = ''content-encoding''" "lower_name ''Keep-Alive'' = ''keep-alive''"
    "lower_name ''Accept-Ranges'' = ''accept-ranges''"
    by simp_all
qed

lemma headers_have_Cons: "headers_have k ((k', v) # hs) \<longleftrightarrow> lower_name k' = lower_name k \<or> headers_have k hs"
  and headers_have_Nil: "\<not> headers_have k []"
  and headers_have_append: "headers_have k (a @ b) \<longleftrightarrow> headers_have k a \<or> headers_have k b"
proof -
  show "headers_have k (a @ b) \<longleftrightarrow> headers_have k a \<or> headers_have k b"
    unfolding headers_have_def find_header_append by (simp split: option.split)
qed (simp_all add: headers_have_def find_header_def case_ignore_equal_lower lower_name_def)

lemmas headers_have_simps = headers_have_Cons headers_have_Nil headers_have_append lower_names

lemma constants_valid:
  "is_field_name ''Host''" "is_field_name ''Accept''" "is_field_name ''Accept-Encoding''" "is_field_name ''User-Agent''"
  "is_field_name ''Content-Type''" "is_field_name ''Content-Length''" "is_field_name ''Connection''" "is_field_name ''Expect''"
  "is_field_name ''Keep-Alive''" "is_field_name ''Accept-Ranges''"
  "is_field_value ''close''" "is_field_value ''100-continue''" "is_field_value ''*/*''" "is_field_value []"
  "is_field_value ''cpp-httplib/0.47.0''" "is_field_value ''0''" "is_field_value ''text/plain''" "is_field_value ''timeout=5, max=100''"
  "is_field_value ''bytes''"
proof -
  have "list_all is_field_name [''Host'', ''Accept'', ''Accept-Encoding'', ''User-Agent'', ''Content-Type'', ''Content-Length'', ''Connection'', ''Expect'', ''Keep-Alive'', ''Accept-Ranges'']"
    and "list_all is_field_value [''close'', ''100-continue'', ''*/*'', [], ''cpp-httplib/0.47.0'', ''0'', ''text/plain'', ''timeout=5, max=100'', ''bytes'']"
    by code_simp+
  then show "is_field_name ''Host''" "is_field_name ''Accept''" "is_field_name ''Accept-Encoding''" "is_field_name ''User-Agent''"
    "is_field_name ''Content-Type''" "is_field_name ''Content-Length''" "is_field_name ''Connection''" "is_field_name ''Expect''"
    "is_field_name ''Keep-Alive''" "is_field_name ''Accept-Ranges''" "is_field_value ''close''" "is_field_value ''100-continue''"
    "is_field_value ''*/*''" "is_field_value []" "is_field_value ''cpp-httplib/0.47.0''" "is_field_value ''0''"
    "is_field_value ''text/plain''" "is_field_value ''timeout=5, max=100''" "is_field_value ''bytes''"
    by simp_all
qed

lemma prepared:
  assumes "\<forall>n\<in>set library_names. \<not> headers_have n hs" and "is_field_value ct" and "client_method m"
  shows "prepare_headers host port streaming m body (add_expect body (call_headers ct hs)) =
    hs @ library_headers host port streaming m body ct"
proof -
  have none: "\<not> headers_have n hs" if "n \<in> set library_names" for n using assms(1) that by blast
  have none: "\<not> headers_have ''Host'' hs" "\<not> headers_have ''Accept'' hs" "\<not> headers_have ''Accept-Encoding'' hs"
    "\<not> headers_have ''User-Agent'' hs" "\<not> headers_have ''Content-Type'' hs" "\<not> headers_have ''Content-Length'' hs"
    "\<not> headers_have ''Connection'' hs" "\<not> headers_have ''Expect'' hs"
    by (rule none, simp add: library_names_def)+
  have big: "body \<noteq> []" if "expect_threshold \<le> int (length body)" using that by (auto simp: expect_threshold_def)
  have m: "m \<noteq> ''PUT''" "m \<noteq> ''PATCH''" using assms(3) by (auto simp: client_method_def)
  show ?thesis
    by (cases "ct = []"; cases "expect_threshold \<le> int (length body)"; cases "body = []"; cases streaming; cases "m = ''POST''")
      (simp_all add: none assms(2) big m prepare_headers_def prepare_default_headers_def add_expect_def call_headers_def
        set_missing_def emplace_missing_def set_header_def library_headers_def headers_have_simps constants_valid Let_def)
qed

lemma dec_value: "0 \<le> n \<Longrightarrow> is_field_value (to_string n)"
proof -
  assume n: "0 \<le> n"
  have v: "is_field_vchar c" if "c \<in> set (dec n)" for c using dec_code [OF n that] by (simp add: is_field_vchar_def)
  moreover have "hd (dec n) \<in> set (dec n)" "last (dec n) \<in> set (dec n)" by simp_all
  ultimately show ?thesis using n by (auto simp: is_field_value_def to_string_def list_all_iff)
qed

lemma dec_length: "0 \<le> n \<Longrightarrow> n < 10 ^ Suc k \<Longrightarrow> length (dec n) \<le> Suc k"
proof (induction k arbitrary: n)
  case 0
  then show ?case by (subst dec.simps) simp
next
  case (Suc k)
  then have "length (dec (n div 10)) \<le> Suc k" by simp
  then show ?case by (subst dec.simps) simp
qed

text \<open>What the caller may pass: fields of its own, and a host and a content type of no excessive length.\<close>

definition call_fits :: "string \<Rightarrow> int \<Rightarrow> string \<Rightarrow> headers \<Rightarrow> bool" where
  "call_fits host port ct hs \<longleftrightarrow>
     (\<forall>n\<in>set library_names. \<not> headers_have n hs) \<and> names_distinct hs \<and>
     (\<forall>h\<in>set hs. int (length (header_line h)) \<le> header_max_length) \<and> length hs \<le> 80 \<and>
     is_field_value (make_host_and_port_string host port) \<and> length (make_host_and_port_string host port) \<le> 1000 \<and>
     is_field_value ct \<and> length ct \<le> 1000 \<and>
     extract_media_type ct \<notin> {''multipart/form-data'', ''application/x-www-form-urlencoded''}"

lemma library_headers_names:
  "set (map fst (library_headers host port streaming m body ct)) \<subseteq> set library_names"
  by (auto simp: library_headers_def library_names_def)

lemma library_headers_distinct: "distinct (map (\<lambda>h. lower_name (fst h)) (library_headers host port streaming m body ct))"
  by (simp add: library_headers_def lower_names)

lemma names_distinct_lower: "names_distinct hs \<longleftrightarrow> distinct (map (\<lambda>h. lower_name (fst h)) hs)"
  by (simp add: names_distinct_def lower_name_def)

lemma headers_have_in: "headers_have k hs \<longleftrightarrow> (\<exists>h\<in>set hs. lower_name (fst h) = lower_name k)"
  by (induction hs) (auto simp: headers_have_Nil headers_have_Cons)

lemma all_names_distinct:
  assumes "call_fits host port ct hs"
  shows "names_distinct (hs @ library_headers host port streaming m body ct)"
proof -
  let ?lib = "library_headers host port streaming m body ct"
  have "lower_name (fst h) \<noteq> lower_name (fst h')" if "h \<in> set hs" "h' \<in> set ?lib" for h h'
  proof -
    have "fst h' \<in> set library_names" using library_headers_names [of host port streaming m body ct] that(2) by auto
    then have "\<not> headers_have (fst h') hs" using assms unfolding call_fits_def by blast
    then show ?thesis using that(1) by (simp add: headers_have_in)
  qed
  then show ?thesis using assms library_headers_distinct [of host port streaming m body ct]
    by (auto simp: names_distinct_lower call_fits_def)
qed

lemma to_string_length: "0 \<le> n \<Longrightarrow> n < 2 ^ 64 \<Longrightarrow> length (to_string n) \<le> 20"
  using dec_length [of n 19] by (simp add: to_string_def)

lemma library_headers_fit:
  assumes "call_fits host port ct hs" and "fields_valid hs" and "int (length body) < 2 ^ 64"
  shows "fields_valid (hs @ library_headers host port streaming m body ct)"
    and "lines_fit (hs @ library_headers host port streaming m body ct)"
proof -
  let ?lib = "library_headers host port streaming m body ct"
  have "is_field_value (to_string (int (length body)))" by (rule dec_value) simp
  then show "fields_valid (hs @ ?lib)" using assms(1,2)
    by (simp add: fields_valid_append call_fits_def) (simp add: fields_valid_def library_headers_def constants_valid)
  have "length (to_string (int (length body))) \<le> 20" using assms(3) by (intro to_string_length) simp_all
  then have "\<forall>h\<in>set ?lib. int (length (header_line h)) \<le> header_max_length"
    using assms(1) by (auto simp: library_headers_def header_line_def header_max_length_def call_fits_def)
  moreover have "length ?lib \<le> 10" by (simp add: library_headers_def)
  ultimately show "lines_fit (hs @ ?lib)" using assms(1) by (auto simp: lines_fit_def call_fits_def header_max_count_def)
qed

section \<open>The request arrives\<close>

definition delivers :: "wire \<Rightarrow> bool" where
  "delivers net \<longleftrightarrow>
     (\<forall>d. concat (cut net d) = d \<and> [] \<notin> set (cut net d)) \<and>
     (\<forall>hs. mset (arrange net hs) = mset hs) \<and> (\<forall>hs. mset (arrange_back net hs) = mset hs)"

lemma arriving_sound:
  assumes "delivers net"
  shows "sound_stream (arriving net d)" "stream_bytes (arriving net d) = d" "sound_stream (replying net d)" "stream_bytes (replying net d) = d"
  using assms by (simp_all add: delivers_def arriving_def replying_def sound_stream_def stream_bytes_def)

lemma more_arrives_sound:
  assumes "delivers net" and "sound_stream s"
  shows "sound_stream (more_arrives net d s)" "stream_bytes (more_arrives net d s) = stream_bytes s @ d"
  using assms by (auto simp: delivers_def more_arrives_def sound_stream_def stream_bytes_def)

lemma hung_up_sound: "sound_stream (s\<lparr>hung_up := b\<rparr>) = sound_stream s" "stream_bytes (s\<lparr>hung_up := b\<rparr>) = stream_bytes s"
  by (simp_all add: sound_stream_def stream_bytes_def)

text \<open>No target has a line feed in it: paths and queries encode theirs.\<close>

lemma wire_char_no_lf: "wire_char c \<Longrightarrow> c \<noteq> CHR 10"
  by (auto simp: wire_char_def is_alnum_def query_safe_def code_def)

lemma normalize_no_lf: "CHR 10 \<notin> set result \<Longrightarrow> CHR 10 \<notin> set (normalize_pieces kvs result)"
proof (induction kvs arbitrary: result)
  case (Cons kv kvs)
  have no: "CHR 10 \<notin> set (encode_query_component s)" for s
    using encode_query_wire [of s] wire_char_no_lf by (auto simp: list_all_iff)
  show ?case
    by (simp add: Let_def split: prod.split, intro conjI impI allI Cons.IH, auto simp: no Cons.prems)
qed simp

lemma percent_no_lf: "CHR 10 \<notin> set (percent c)"
proof -
  have "wire_char (upper_hex (code c div 16))" "wire_char (upper_hex (code c mod 16))"
    using code_less [of c] by (auto intro!: upper_hex_wire)
  note digits = this [THEN wire_char_no_lf]
  then show ?thesis by (simp add: percent_def eq_commute [of "CHR 10"])
qed

lemma sent_target_no_lf: "CHR 10 \<notin> set (sent_target t)"
proof -
  have "CHR 10 \<notin> set (encode_path_char c)" for c using percent_no_lf [of c] by (auto simp: encode_path_char_def)
  then have "CHR 10 \<notin> set (encode_path p)" for p by (simp add: encode_path_def)
  moreover have "CHR 10 \<notin> set (normalize_query_string q)" for q by (simp add: normalize_query_string_def normalize_no_lf)
  ultimately show ?thesis by (simp add: sent_target_def Let_def split: prod.split)
qed

lemma plain_accept: "parse_accept_header u ''*/*''"
  by (simp add: parse_accept_header_def split_trimmed_def pieces_single trim_def rtrim_def is_space_or_tab_def accept_entry_def
      parse_quality_def divide_at_def extract_media_type_def has_char_def)

lemma head_accepted:
  assumes "client_method m" and "list_all line_char t" and "t \<noteq> []" and "CHR 10 \<notin> set t" and "int (length t) \<le> max_uri"
    and "sound_stream s" and "stream_bytes s = write_request_line m t @ write_headers hs @ r"
    and "fields_valid hs" and "lines_fit hs" and "names_distinct hs"
    and "find_header ''Transfer-Encoding'' hs = None" and "header_value ''Accept'' hs = ''*/*''"
  obtains version s' where
    "accept_head u s = Accepted m t version hs (header_value ''Expect'' hs = ''100-continue'') s'"
    "stream_bytes s' = r" "sound_stream s'" "hung_up s' = hung_up s"
proof -
  let ?l = "m @ '' '' @ t @ '' HTTP/1.1''"
  have line: "write_request_line m t = ?l @ [CHR 13, CHR 10]" by (simp add: write_request_line_def)
  have m: "CHR 10 \<notin> set m" "length m \<le> 6" using assms(1) by (auto simp: client_method_def)
  have lf: "CHR 10 \<notin> set ?l" using m(1) assms(4) by simp
  have cont: "stream_bytes s = ?l @ CHR 13 # CHR 10 # write_headers hs @ r" using assms(7) line by simp
  have fit: "int (length ?l) + 2 \<le> max_line" using m(2) assms(5) by (simp add: max_line_def max_uri_def)
  obtain s1 where s1: "getline sock_read s = (Some (write_request_line m t), s1)" "stream_bytes s1 = write_headers hs @ r"
    "sound_stream s1" "at_end s1 = at_end s"
    using socket.getline_reads [OF assms(6) cont lf fit] line by metis
  obtain s2 where s2: "read_headers s1 = (Some hs, s2)" "stream_bytes s2 = r" "sound_stream s2" "at_end s2 = at_end s1"
    using read_written_headers [OF s1(3,2) assms(8-10)] by metis
  have "hung_up s2 = hung_up s" using s1(4) s2(4) by (simp add: at_end_def split: if_splits)
  moreover have "accept_head u s = Accepted m t (nth_word 2 (request_words (write_request_line m t))) hs
      (header_value ''Expect'' hs = ''100-continue'') s2"
    using s1(1) s2(1) parse_written_line [OF assms(1-3)] assms(5,11,12) plain_accept
    by (simp add: accept_head_def headers_have_def)
  ultimately show thesis using that s2 by blast
qed

section \<open>The server answers\<close>

text \<open>A server that looks only at the caller's headers, and at each of them only by its name.\<close>

definition same_request :: "Request \<Rightarrow> Request \<Rightarrow> bool" where
  "same_request req req' \<longleftrightarrow>
     req_method req = req_method req' \<and> req_path req = req_path req' \<and> req_params req = req_params req' \<and>
     req_body req = req_body req' \<and>
     (\<forall>k. (\<forall>n\<in>set library_names. lower_name k \<noteq> lower_name n) \<longrightarrow>
        has_header k req = has_header k req' \<and> get_header_value k req = get_header_value k req')"

definition reads_by_name :: "(Request \<Rightarrow> 's \<Rightarrow> Response option \<times> 's) \<Rightarrow> bool" where
  "reads_by_name server \<longleftrightarrow> (\<forall>req req'. same_request req req' \<longrightarrow> server req = server req')"

lemma arranged_lookup:
  assumes "mset hs' = mset (hs @ lib)" and "names_distinct (hs @ lib)" and "set (map fst lib) \<subseteq> set library_names"
    and "\<forall>n\<in>set library_names. lower_name k \<noteq> lower_name n"
  shows "find_header k hs' = find_header k hs"
proof -
  have "find_header k hs' = find_header k (hs @ lib)" using find_header_mset [of "hs @ lib" hs'] assms(1,2) by simp
  moreover have "find_header k lib = None"
  proof (rule ccontr)
    assume "find_header k lib \<noteq> None"
    then have "headers_have k lib" by (simp add: headers_have_def)
    then obtain h where "h \<in> set lib" "lower_name (fst h) = lower_name k" by (auto simp: headers_have_in)
    moreover from this(1) have "fst h \<in> set library_names" using assms(3) by auto
    ultimately show False using assms(4) by metis
  qed
  ultimately show ?thesis by (simp add: find_header_append split: option.split)
qed

lemma library_lookup:
  assumes "mset hs' = mset (hs @ lib)" and "names_distinct (hs @ lib)" and "\<forall>n\<in>set library_names. \<not> headers_have n hs"
    and "n \<in> set library_names"
  shows "find_header n hs' = find_header n lib"
proof -
  have "find_header n hs' = find_header n (hs @ lib)" using find_header_mset [of "hs @ lib" hs'] assms(1,2) by simp
  moreover have "find_header n hs = None" using assms(3,4) unfolding headers_have_def by blast
  ultimately show ?thesis by (simp add: find_header_append)
qed

lemma find_header_Cons: "find_header k ((k', v) # hs) = (if lower_name k' = lower_name k then Some (k', v) else find_header k hs)"
  and find_header_Nil: "find_header k [] = None"
  by (simp_all add: find_header_def case_ignore_equal_lower lower_name_def)

lemmas find_header_simps = find_header_Cons find_header_Nil find_header_append lower_names

lemma library_values:
  "find_header ''Transfer-Encoding'' (library_headers host port streaming m body ct) = None"
  "find_header ''Content-Encoding'' (library_headers host port streaming m body ct) = None"
  "find_header ''Range'' (library_headers host port streaming m body ct) = None"
  "find_header ''Accept'' (library_headers host port streaming m body ct) = Some (''Accept'', ''*/*'')"
  "find_header ''Connection'' (library_headers host port streaming m body ct) = Some (''Connection'', ''close'')"
  "find_header ''Expect'' (library_headers host port streaming m body ct) =
     (if expect_threshold \<le> int (length body) then Some (''Expect'', ''100-continue'') else None)"
  "find_header ''Content-Length'' (library_headers host port streaming m body ct) =
     (if body \<noteq> [] then Some (''Content-Length'', to_string (int (length body)))
      else if m = ''POST'' then Some (''Content-Length'', ''0'') else None)"
  "find_header ''Content-Type'' (library_headers host port streaming m body ct) =
     (if ct \<noteq> [] then Some (''Content-Type'', ct) else if body \<noteq> [] then Some (''Content-Type'', ''text/plain'') else None)"
  by (simp_all add: library_headers_def find_header_simps)

text \<open>The body of a request arrives whole.\<close>

lemma request_body_arrives:
  assumes "find_header ''Transfer-Encoding'' hs = None" and "find_header ''Content-Encoding'' hs = None"
    and "header_value ''Connection'' hs = ''close''" and "names_distinct hs"
    and "find_header ''Content-Length'' hs =
       (if body \<noteq> [] then Some (''Content-Length'', to_string (int (length body))) else if m = ''POST'' then Some (''Content-Length'', ''0'') else None)"
    and "sound_stream s" and "stream_bytes s = body" and "\<not> hung_up s"
    and "int (length body) \<le> payload_max" and "payload_max < 2 ^ 64"
  shows "read_request_body payload_max version hs s = Inr body"
proof (cases "body = []")
  case True
  have idle: "read_buff s = []" "coming s = []" using assms(6,7) True by (cases "coming s"; simp add: stream_bytes_def sound_stream_def)+
  have "0 = digits_value 10 ''0'' \<and> is_numeric ''0''" by code_simp
  then show ?thesis using assms(1-5,8) True idle
    by (simp add: read_request_body_def headers_have_def is_chunked_def header_value_def case_ignore_equal_def read_content_def
        get_header_value_u64_def)
next
  case False
  have inset: "(''Content-Length'', to_string (int (length body))) \<in> set hs"
    using assms(5) False find_header_unique [OF assms(4)] by simp
  have "int (length body) < 2 ^ 64" using assms(9,10) by simp
  then obtain s' where "read_content (append_limited payload_max) payload_max hs s = (Inr body, s')"
    using read_sent_content [OF assms(4) inset assms(2,1) _ assms(9) refl _ assms(6), where r = "[]"] assms(7,9) by auto
  then show ?thesis using assms(5) False by (simp add: read_request_body_def headers_have_def)
qed

lemma answer_is_served:
  fixes st :: 's
  assumes "find_header ''Transfer-Encoding'' hs = None" and "find_header ''Content-Encoding'' hs = None"
    and "header_value ''Connection'' hs = ''close''" and "names_distinct hs"
    and "find_header ''Content-Length'' hs =
       (if body \<noteq> [] then Some (''Content-Length'', to_string (int (length body))) else if m = ''POST'' then Some (''Content-Length'', ''0'') else None)"
    and "sound_stream s" and "stream_bytes s = body" and "\<not> hung_up s"
    and "int (length body) \<le> payload_max" and "payload_max < 2 ^ 64"
    and "client_method m" and "body \<noteq> [] \<longrightarrow> m = ''POST''"
  shows "answer_request payload_max routes m target version hs s st =
    serve payload_max routes \<lparr>req_method = m, req_path = fst (parse_target target), req_params = snd (parse_target target),
      req_headers = hs, req_body = body\<rparr> st"
proof -
  note body = request_body_arrives [OF assms(1-10)]
  have zero: "is_numeric ''0'' \<and> digits_value 10 ''0'' = 0" by code_simp
  have "body = []" if "\<not> expect_content m hs" using that assms(11,12) by (auto simp: expect_content_def)
  moreover have "(if b then f \<lparr>req_method = m, req_path = p, req_params = q, req_headers = hs, req_body = body\<rparr>
      else f \<lparr>req_method = m, req_path = p, req_params = q, req_headers = hs, req_body = []\<rparr>) =
      f \<lparr>req_method = m, req_path = p, req_params = q, req_headers = hs, req_body = body\<rparr>"
    if "\<not> b \<longrightarrow> body = []" for b p q and f :: "Request \<Rightarrow> Response option \<times> 's" using that by auto
  ultimately show ?thesis using assms(9,11)
    by (auto simp: answer_request_def serve_def body Let_def client_method_def split: option.split)
qed

section \<open>The response arrives\<close>

definition content_of :: "Response \<Rightarrow> int \<times> string" where
  "content_of res = (res_status res, res_body res)"

definition plain_response :: "Response \<Rightarrow> bool" where
  "plain_response res \<longleftrightarrow>
     200 \<le> res_status res \<and> res_status res \<le> 999 \<and> res_status res \<notin> {204, 304} \<and>
     is_field_value (res_type res) \<and> length (res_type res) \<le> 1000 \<and> int (length (res_body res)) \<le> client_payload_max"

definition sent_headers :: "Response \<Rightarrow> headers" where
  "sent_headers res =
     (if res_type res \<noteq> [] then [(''Content-Type'', res_type res)] else []) @
     (if res_body res \<noteq> [] then [(''Content-Length'', to_string (int (length (res_body res))))] else []) @
     [(''Connection'', ''close'')] @
     (if res_body res \<noteq> [] \<and> res_type res = [] then [(''Content-Type'', ''text/plain'')] else []) @
     (if res_body res = [] then [(''Content-Length'', ''0'')] else [])"

lemma response_headers_sent:
  assumes "plain_response res" and "header_value ''Connection'' hs = ''close''" and "client_method m"
  shows "response_headers m hs res = sent_headers res"
proof -
  have "is_field_value (to_string (int (length (res_body res))))" by (rule dec_value) simp
  moreover have "m \<noteq> ''HEAD''" using assms(3) by (auto simp: client_method_def)
  ultimately show ?thesis using assms(1,2)
    by (cases "res_type res = []"; cases "res_body res = []")
      (simp_all add: response_headers_def sent_headers_def set_header_def plain_response_def constants_valid headers_have_simps Let_def)
qed

lemma sent_headers_fine:
  assumes "plain_response res"
  shows "names_distinct (sent_headers res)" and "fields_valid (sent_headers res)" and "lines_fit (sent_headers res)"
    and "(''Content-Length'', to_string (int (length (res_body res)))) \<in> set (sent_headers res)"
    and "find_header ''Content-Encoding'' (sent_headers res) = None" and "find_header ''Transfer-Encoding'' (sent_headers res) = None"
proof -
  have len: "int (length (res_body res)) < 2 ^ 64" using assms by (simp add: plain_response_def client_payload_max_def)
  have number: "is_field_value (to_string (int (length (res_body res))))" by (rule dec_value) simp
  have digits: "length (to_string (int (length (res_body res)))) \<le> 20" by (rule to_string_length) (use len in simp_all)
  have zero: "to_string 0 = ''0''" by code_simp
  show "names_distinct (sent_headers res)" by (simp add: names_distinct_lower sent_headers_def lower_names)
  show "fields_valid (sent_headers res)" using assms number by (simp add: fields_valid_def sent_headers_def plain_response_def constants_valid)
  show "lines_fit (sent_headers res)" using assms digits
    by (auto simp: lines_fit_def sent_headers_def header_line_def header_max_length_def header_max_count_def plain_response_def)
  show "(''Content-Length'', to_string (int (length (res_body res)))) \<in> set (sent_headers res)"
    by (auto simp: sent_headers_def zero)
  show "find_header ''Content-Encoding'' (sent_headers res) = None" "find_header ''Transfer-Encoding'' (sent_headers res) = None"
    by (simp_all add: sent_headers_def find_header_simps)
qed

lemma arranged_fine:
  assumes "mset hs' = mset hs"
  shows "names_distinct hs' = names_distinct hs" "fields_valid hs' = fields_valid hs" "lines_fit hs' = lines_fit hs" "set hs' = set hs"
proof -
  show set: "set hs' = set hs" using assms by (rule mset_eq_setD)
  show "fields_valid hs' = fields_valid hs" by (rule fields_valid_mset [OF assms])
  show "lines_fit hs' = lines_fit hs" using set mset_eq_length [OF assms] by (simp add: lines_fit_def)
  show "names_distinct hs' = names_distinct hs"
    using assms unfolding names_distinct_def by (metis mset_map mset_eq_imp_distinct_iff)
qed

text \<open>Behind the status line of a response, the client finds its content.\<close>

lemma response_received:
  assumes "plain_response res" and "client_method m" and "mset hs' = mset (sent_headers res)"
    and "sound_stream s" and "stream_bytes s = write_headers hs' @ res_body res"
  shows "map_option content_of (receive_headers streaming m (res_status res) s) = Some (content_of res)"
proof -
  note fine = sent_headers_fine [OF assms(1)] and arranged = arranged_fine [OF assms(3)]
  obtain s1 where s1: "read_headers s = (Some hs', s1)" "stream_bytes s1 = res_body res" "sound_stream s1"
    by (rule read_written_headers [OF assms(4,5)]) (use arranged fine in simp_all)
  have lookup: "find_header n hs' = find_header n (sent_headers res)" for n
    using find_header_mset [of "sent_headers res" hs'] assms(3) fine(1) by simp
  let ?b = "res_body res"
  have len: "int (length ?b) < 2 ^ 64" "int (length ?b) \<le> client_payload_max" "int (length ?b) \<le> string_max_size"
    using assms(1) by (simp_all add: plain_response_def client_payload_max_def string_max_size_def)
  have inset: "(''Content-Length'', to_string (int (length ?b))) \<in> set hs'" using fine(4) arranged(4) by simp
  have names: "names_distinct hs'" using arranged(1) fine(1) by simp
  let ?limit = "if streaming then 0 else client_payload_max" and ?max = "if streaming then 2 ^ 64 - 1 else client_payload_max"
  obtain s2 where "read_content (append_limited ?limit) ?max hs' s1 = (Inr ?b, s2)"
    by (rule read_sent_content [OF names inset _ _ len(1) _ refl _ s1(3), where payload_max = ?max and r = "[]" and limit = ?limit])
      (use len fine(5,6) lookup s1(2) in auto)
  moreover have "get_header_value_u64 hs' ''Content-Length'' 0 = (int (length ?b), False)"
    by (rule content_length_value(2) [OF names inset _ len(1)]) simp
  moreover have "m \<noteq> ''HEAD'' \<and> m \<noteq> ''CONNECT''" using assms(2) by (auto simp: client_method_def)
  ultimately show ?thesis using s1(1) assms(1) len(3)
    by (simp add: receive_headers_def receive_content_def Let_def plain_response_def content_of_def split del: if_split)
qed

definition sent_bytes :: "wire \<Rightarrow> string \<Rightarrow> headers \<Rightarrow> Response option \<Rightarrow> string" where
  "sent_bytes net m hs r = (case r of None \<Rightarrow> [] | Some res \<Rightarrow> write_response (arrange_back net) m hs res)"

lemma answer_received:
  assumes "delivers net" and "client_method m" and "header_value ''Connection'' hs = ''close''"
    and "pred_option plain_response r" and "sound_stream s" and "hung_up s"
  shows "stream_bytes s = sent_bytes net m hs r \<Longrightarrow>
      map_option content_of (receive_response streaming skip m s) = map_option content_of r"
    and "stream_bytes s = interim_response @ sent_bytes net m hs r \<Longrightarrow>
      map_option content_of (receive_response streaming True m s) = map_option content_of r"
proof -
  have bytes: "sent_bytes net m hs (Some res) =
      write_response_line (res_status res) @ write_headers (arrange_back net (sent_headers res)) @ res_body res"
    and fine: "plain_response res" "100 \<le> res_status res" "res_status res \<le> 999" "res_status res \<noteq> 100" "100 < res_status res"
      "mset (arrange_back net (sent_headers res)) = mset (sent_headers res)" if "r = Some res" for res
    using that assms(1-4) response_headers_sent
    by (auto simp: sent_bytes_def write_response_def client_method_def plain_response_def delivers_def)
  show "map_option content_of (receive_response streaming skip m s) = map_option content_of r"
    if cont: "stream_bytes s = sent_bytes net m hs r"
  proof (cases r)
    case None
    then show ?thesis using cont socket.getline_end [OF assms(5)]
      by (simp add: sent_bytes_def receive_response_def read_response_line_def)
  next
    case (Some res)
    obtain s1 where s1: "read_response_line skip s = (Some (res_status res), s1)"
      "stream_bytes s1 = write_headers (arrange_back net (sent_headers res)) @ res_body res" "sound_stream s1"
      by (rule read_written_response_line [OF assms(5) _ fine(2,3) [OF Some], of _ skip]) (use cont bytes fine Some in auto)
    then show ?thesis using response_received [OF fine(1) [OF Some] assms(2) fine(6) [OF Some] s1(3,2)] Some
      by (simp add: receive_response_def)
  qed
  show "map_option content_of (receive_response streaming True m s) = map_option content_of r"
    if cont: "stream_bytes s = interim_response @ sent_bytes net m hs r"
  proof (cases r)
    case None
    obtain s1 where s1: "getline sock_read s = (Some (write_response_line 100), s1)" "stream_bytes s1 = [CHR 13, CHR 10]"
      "sound_stream s1"
      by (rule status_line_read [OF assms(5), of 100 "[CHR 13, CHR 10]"]) (use cont None in \<open>simp_all add: interim_response_def sent_bytes_def\<close>)
    obtain s2 where s2: "getline sock_read s1 = (Some ([] @ [CHR 13, CHR 10]), s2)" "stream_bytes s2 = []" "sound_stream s2"
      by (rule socket.getline_reads [OF s1(3), of "[]" "[]"]) (use s1(2) in \<open>simp_all add: max_line_def\<close>)
    have "skip_interim True 100 s1 = (None, s2)"
      using s2(1) socket.getline_end [OF s2(3,2)] by (subst skip_interim.simps) simp
    then show ?thesis using s1(1) parse_written_status_line [of 100] None
      by (simp add: receive_response_def read_response_line_def)
  next
    case (Some res)
    obtain s1 where s1: "read_response_line True s = (Some (res_status res), s1)"
      "stream_bytes s1 = write_headers (arrange_back net (sent_headers res)) @ res_body res" "sound_stream s1"
      by (rule read_after_interim [OF assms(5) _ fine(5,3) [OF Some]])
        (use cont bytes Some in \<open>auto simp: interim_response_def\<close>)
    then show ?thesis using response_received [OF fine(1) [OF Some] assms(2) fine(6) [OF Some] s1(3,2)] Some
      by (simp add: receive_response_def)
  qed
qed

section \<open>The exchange\<close>

definition site_server :: "'s site \<Rightarrow> Request \<Rightarrow> 's \<Rightarrow> Response option \<times> 's" where
  "site_server site = serve (payload_limit site) (site_routes site)"

definition sent_fields :: "wire \<Rightarrow> string \<Rightarrow> int \<Rightarrow> bool \<Rightarrow> string \<Rightarrow> headers \<Rightarrow> string \<Rightarrow> string \<Rightarrow> headers" where
  "sent_fields net host port streaming m headers body ct = arrange net (headers @ library_headers host port streaming m body ct)"

text \<open>The limits of the library, and a response that a client takes as it is.\<close>

definition within_limits ::
    "wire \<Rightarrow> 's site \<Rightarrow> string \<Rightarrow> int \<Rightarrow> string \<Rightarrow> string \<Rightarrow> headers \<Rightarrow> string \<Rightarrow> string \<Rightarrow> 's \<Rightarrow> bool" where
  "within_limits net site host port m target headers body ct st \<longleftrightarrow>
     delivers net \<and> client_method m \<and> sendable headers target \<and>
     list_all line_char (sent_target target) \<and> sent_target target \<noteq> [] \<and>
     call_fits host port ct headers \<and> (body \<noteq> [] \<longrightarrow> m = ''POST'') \<and>
     int (length body) \<le> payload_limit site \<and> payload_limit site < 2 ^ 64 \<and>
     pred_option plain_response (fst (exchange (site_server site) m target headers body st))"

lemma within_limitsD:
  assumes "within_limits net site host port m target headers body ct st"
  shows "delivers net" "client_method m" "sendable headers target" "list_all line_char (sent_target target)" "sent_target target \<noteq> []"
    "call_fits host port ct headers" "body \<noteq> [] \<longrightarrow> m = ''POST''" "int (length body) \<le> payload_limit site" "payload_limit site < 2 ^ 64"
    "pred_option plain_response (fst (exchange (site_server site) m target headers body st))"
  using assms by (simp_all add: within_limits_def)

lemma sent_fields_mset:
  "delivers net \<Longrightarrow> mset (sent_fields net host port streaming m headers body ct) = mset (headers @ library_headers host port streaming m body ct)"
  by (simp add: delivers_def sent_fields_def)

lemma sent_fields_fine:
  assumes "within_limits net site host port m target headers body ct st"
  shows "names_distinct (sent_fields net host port streaming m headers body ct)"
    and "fields_valid (headers @ library_headers host port streaming m body ct)"
    and "fields_valid (sent_fields net host port streaming m headers body ct)"
    and "lines_fit (sent_fields net host port streaming m headers body ct)"
proof -
  note within = within_limitsD [OF assms]
  note sent = arranged_fine [OF sent_fields_mset [OF within(1), of host port streaming m headers body ct]]
  have valid: "fields_valid headers" using within(3) by (simp add: sendable_def fields_valid_def)
  have size: "int (length body) < 2 ^ 64" using within(8,9) by simp
  show "names_distinct (sent_fields net host port streaming m headers body ct)" using sent(1) all_names_distinct [OF within(6)] by simp
  show "fields_valid (headers @ library_headers host port streaming m body ct)" by (rule library_headers_fit(1) [OF within(6) valid size])
  then show "fields_valid (sent_fields net host port streaming m headers body ct)" using sent(2) by simp
  show "lines_fit (sent_fields net host port streaming m headers body ct)" using sent(3) library_headers_fit(2) [OF within(6) valid size] by simp
qed

lemma sent_fields_lookup:
  assumes "within_limits net site host port m target headers body ct st" and "n \<in> set library_names"
  shows "find_header n (sent_fields net host port streaming m headers body ct) = find_header n (library_headers host port streaming m body ct)"
proof -
  note within = within_limitsD [OF assms(1)]
  show ?thesis
    by (rule library_lookup [OF sent_fields_mset [OF within(1)] all_names_distinct [OF within(6)] _ assms(2)])
      (use within(6) in \<open>auto simp: call_fits_def\<close>)
qed

lemma sent_fields_values:
  fixes streaming :: bool
  assumes "within_limits net site host port m target headers body ct st"
  defines "hs \<equiv> sent_fields net host port streaming m headers body ct"
  shows "find_header ''Transfer-Encoding'' hs = None" "find_header ''Content-Encoding'' hs = None"
    "header_value ''Connection'' hs = ''close''" "header_value ''Accept'' hs = ''*/*''"
    "(header_value ''Expect'' hs = ''100-continue'') = (expect_threshold \<le> int (length body))"
    "find_header ''Content-Length'' hs =
     (if body \<noteq> [] then Some (''Content-Length'', to_string (int (length body))) else if m = ''POST'' then Some (''Content-Length'', ''0'') else None)"
    "\<not> special_request hs"
proof -
  have in_names: "''Transfer-Encoding'' \<in> set library_names" "''Content-Encoding'' \<in> set library_names" "''Connection'' \<in> set library_names"
    "''Accept'' \<in> set library_names" "''Expect'' \<in> set library_names" "''Content-Length'' \<in> set library_names"
    "''Range'' \<in> set library_names" "''Content-Type'' \<in> set library_names"
    by (simp_all add: library_names_def)
  note lookups = in_names [THEN sent_fields_lookup [OF assms(1)], unfolded library_values, folded hs_def]
  show "find_header ''Transfer-Encoding'' hs = None" "find_header ''Content-Encoding'' hs = None"
    "header_value ''Connection'' hs = ''close''" "header_value ''Accept'' hs = ''*/*''"
    "(header_value ''Expect'' hs = ''100-continue'') = (expect_threshold \<le> int (length body))"
    "find_header ''Content-Length'' hs =
     (if body \<noteq> [] then Some (''Content-Length'', to_string (int (length body))) else if m = ''POST'' then Some (''Content-Length'', ''0'') else None)"
    unfolding hs_def using lookups [where streaming = streaming] by (simp_all add: header_value_def hs_def)
  have "extract_media_type ''text/plain'' = ''text/plain''" "extract_media_type [] = []" by code_simp+
  then show "\<not> special_request hs" using lookups(7,8) [where streaming = streaming] within_limitsD(6) [OF assms(1)]
    by (auto simp: special_request_def headers_have_def header_value_def call_fits_def hs_def)
qed

lemma same_as_made:
  assumes "within_limits net site host port m target headers body ct st"
  shows "same_request \<lparr>req_method = m, req_path = fst (parse_target (sent_target target)),
    req_params = snd (parse_target (sent_target target)), req_headers = sent_fields net host port streaming m headers body ct,
    req_body = body\<rparr> (received m target headers body)"
proof -
  note within = within_limitsD [OF assms]
  have "find_header k (sent_fields net host port streaming m headers body ct) = find_header k headers"
    if "\<forall>n\<in>set library_names. lower_name k \<noteq> lower_name n" for k
    by (rule arranged_lookup [OF sent_fields_mset [OF within(1)] all_names_distinct [OF within(6)] library_headers_names that])
  then show ?thesis by (simp add: same_request_def received_def Let_def find_header_value headers_have_def header_value_def)
qed

lemma answered:
  fixes streaming :: bool
  assumes "within_limits net site host port m target headers body ct st" and "reads_by_name (site_server site)"
    and "sound_stream s" and "stream_bytes s = body" and "\<not> hung_up s"
  defines "hs \<equiv> sent_fields net host port streaming m headers body ct" and "answer \<equiv> exchange (site_server site) m target headers body st"
  shows "answer_bytes net site m (sent_target target) version hs s st = (sent_bytes net m hs (fst answer), snd answer)"
proof -
  note within = within_limitsD [OF assms(1)] and named = sent_fields_values [OF assms(1), of streaming, folded hs_def]
  have "answer_request (payload_limit site) (site_routes site) m (sent_target target) version hs s st =
      site_server site \<lparr>req_method = m, req_path = fst (parse_target (sent_target target)),
        req_params = snd (parse_target (sent_target target)), req_headers = hs, req_body = body\<rparr> st"
    unfolding site_server_def hs_def
    by (rule answer_is_served)
      (use named sent_fields_fine(1) [OF assms(1)] assms(3-5) within in \<open>simp_all add: hs_def\<close>)
  also have "\<dots> = site_server site (received m target headers body) st"
    using assms(2) same_as_made [OF assms(1), of streaming] unfolding reads_by_name_def hs_def by simp
  also have "\<dots> = answer" unfolding answer_def by (rule exchange_received [OF within(2-5), symmetric])
  finally show ?thesis using named(7) by (auto simp: answer_bytes_def sent_bytes_def split: prod.split option.split)
qed

lemma head_arrives:
  assumes "within_limits net site host port m target headers body ct st"
    and "sound_stream s"
    and "stream_bytes s = (write_request_line m (sent_target target) @ write_headers (sent_fields net host port streaming m headers body ct)) @ r"
  obtains version s' where "accept_head (unit_interval net) s =
      Accepted m (sent_target target) version (sent_fields net host port streaming m headers body ct) (expect_threshold \<le> int (length body)) s'"
    "stream_bytes s' = r" "sound_stream s'" "hung_up s' = hung_up s"
proof -
  note within = within_limitsD [OF assms(1)] and fine = sent_fields_fine [OF assms(1)] and named = sent_fields_values [OF assms(1)]
  have fit: "int (length (sent_target target)) \<le> max_uri" using within(3) by (simp add: sendable_def)
  have cont: "stream_bytes s = write_request_line m (sent_target target) @ write_headers (sent_fields net host port streaming m headers body ct) @ r"
    using assms(3) by simp
  show thesis
    by (rule head_accepted [OF within(2,4,5) sent_target_no_lf fit assms(2) cont fine(3,4,1) named(1,4), of "unit_interval net"])
      (use that named(5) in auto)
qed

lemma at_once:
  fixes streaming :: bool
  assumes "within_limits net site host port m target headers body ct st" and "reads_by_name (site_server site)"
    and "\<not> expect_threshold \<le> int (length body)"
  defines "hs \<equiv> sent_fields net host port streaming m headers body ct" and "answer \<equiv> exchange (site_server site) m target headers body st"
  shows "map_prod (map_option content_of) id
      (converse_at_once net site streaming m (write_request_line m (sent_target target) @ write_headers hs) body st) =
    map_prod (map_option content_of) id answer"
proof -
  note within = within_limitsD [OF assms(1)]
  note arriving = arriving_sound [OF within(1)]
  let ?head = "write_request_line m (sent_target target) @ write_headers hs"
  obtain version s where s: "accept_head (unit_interval net) (arriving net (?head @ body)) = Accepted m (sent_target target) version hs False s"
    "stream_bytes s = body" "sound_stream s" "\<not> hung_up s"
    by (rule head_arrives [OF assms(1), of "arriving net (?head @ body)" streaming body])
      (use arriving assms(3) in \<open>simp_all add: arriving_def hs_def\<close>)
  have "map_option content_of (receive_response streaming True m (replying net (sent_bytes net m hs (fst answer)))) =
      map_option content_of (fst answer)"
    by (rule answer_received(1) [OF within(1,2)])
      (use sent_fields_values(3) [OF assms(1)] within(10) arriving in \<open>simp_all add: replying_def hs_def answer_def\<close>)
  then show ?thesis using s(1) answered [OF assms(1,2) s(3,2,4), where streaming = streaming and version = version, folded hs_def answer_def]
    by (simp add: converse_at_once_def Let_def map_prod_def split: prod.split)
qed

lemma expecting:
  fixes streaming :: bool
  assumes "within_limits net site host port m target headers body ct st" and "reads_by_name (site_server site)"
    and "expect_threshold \<le> int (length body)"
  defines "hs \<equiv> sent_fields net host port streaming m headers body ct" and "answer \<equiv> exchange (site_server site) m target headers body st"
  shows "map_prod (map_option content_of) id
      (converse_expecting net site streaming m (write_request_line m (sent_target target) @ write_headers hs) body st) =
    map_prod (map_option content_of) id answer"
proof -
  note within = within_limitsD [OF assms(1)]
  note arriving = arriving_sound [OF within(1)]
  let ?head = "write_request_line m (sent_target target) @ write_headers hs" and ?d = "sent_bytes net m hs (fst answer)"
  have close: "header_value ''Connection'' hs = ''close''" unfolding hs_def by (rule sent_fields_values(3) [OF assms(1)])
  note received = answer_received [OF within(1,2) close within(10) [folded answer_def], where streaming = streaming]
  obtain version s where s: "accept_head (unit_interval net) (arriving net ?head) = Accepted m (sent_target target) version hs True s"
    "stream_bytes s = []" "sound_stream s" "\<not> hung_up s"
    by (rule head_arrives [OF assms(1), of "arriving net ?head" streaming "[]"])
      (use arriving assms(3) in \<open>simp_all add: arriving_def hs_def\<close>)
  have bytes: "answer_bytes net site m (sent_target target) version hs (more_arrives net body s) st = (?d, snd answer)"
    unfolding hs_def answer_def
    by (rule answered [OF assms(1,2)]) (use more_arrives_sound [OF within(1) s(3)] s(2,4) in \<open>simp_all add: more_arrives_def\<close>)
  have late: "map_option content_of (receive_response streaming True m (replying net (interim_response @ ?d))) =
      map_option content_of (fst answer)"
    by (rule received(2)) (use arriving in \<open>simp_all add: replying_def\<close>)
  obtain s1 where s1: "read_response_line False (arriving net interim_response) = (Some 100, s1)"
    "stream_bytes s1 = [CHR 13, CHR 10]" "sound_stream s1"
    by (rule read_written_response_line [of "arriving net interim_response" 100 "[CHR 13, CHR 10]" False])
      (use arriving in \<open>simp_all add: interim_response_def\<close>)
  obtain s2 where s2: "read_headers s1 = (Some [], s2)" "stream_bytes s2 = []" "sound_stream s2"
    by (rule read_written_headers [OF s1(3), of "[]" "[]"])
      (use s1(2) in \<open>simp_all add: write_headers_def fields_valid_def lines_fit_def names_distinct_def header_max_count_def\<close>)
  have soon: "map_option content_of (receive_response streaming True m ((more_arrives net ?d s2)\<lparr>hung_up := True\<rparr>)) =
      map_option content_of (fst answer)"
    by (rule received(1)) (use more_arrives_sound [OF within(1) s2(3)] s2(2) in \<open>simp_all add: hung_up_sound\<close>)
  show ?thesis using s(1) s1(1) s2(1) late soon
    by (cases "prompt net") (simp_all add: converse_expecting_def Let_def bytes map_prod_def split: prod.split)
qed

lemma call_expects:
  assumes "call_fits host port ct headers"
  shows "(header_value ''Expect'' (add_expect body (call_headers ct headers)) = ''100-continue'') = (expect_threshold \<le> int (length body))"
proof -
  have "\<not> headers_have ''Expect'' headers" using assms by (simp add: call_fits_def library_names_def)
  then have "find_header ''Expect'' headers = None" unfolding headers_have_def by blast
  moreover have "lower_name ''Content-Type'' \<noteq> lower_name ''Expect''" by (simp add: lower_names)
  ultimately show ?thesis
    by (simp add: add_expect_def call_headers_def set_header_def header_value_def headers_have_def find_header_append find_header_Cons
        find_header_Nil constants_valid)
qed

text \<open>C7: Over a connection that delivers, in whatever pieces the bytes arrive, in whatever order the headers are written and
  whether or not the interim response comes in time, the client of the library receives the status and the content that the
  routes of the server answer to the request as the caller made it, and the server's state changes accordingly. This holds
  for requests within the limits of the library and a server that looks at headers by their names.\<close>

theorem wire_refines_exchange:
  assumes "within_limits net site host port m target headers body ct st" and "reads_by_name (site_server site)"
  shows "map_prod (map_option content_of) id (wire_exchange net site host port streaming m target headers body ct st) =
    map_prod (map_option content_of) id (exchange (site_server site) m target headers body st)"
proof -
  note within = within_limitsD [OF assms(1)]
  have "prepare_headers host port streaming m body (add_expect body (call_headers ct headers)) =
      headers @ library_headers host port streaming m body ct"
    by (rule prepared) (use within(2,6) in \<open>auto simp: call_fits_def\<close>)
  then show ?thesis
    using at_once [OF assms, of streaming] expecting [OF assms, of streaming] sent_fields_fine(2) [OF assms(1), of streaming]
      call_expects [OF within(6), of body]
    by (simp add: wire_exchange_def Let_def sent_fields_def)
qed

end
