(* ===== verification/Server_Sites.thy ===== *)
theory Server_Sites
  imports Wire_Refinement Master_Server Worker_Server
begin

text \<open>
  The two servers of the system behind their connections. Both look at headers by name only, so what
  the development proves of their routes holds for what their clients receive.
\<close>

section \<open>The servers as sites\<close>

definition worker_site :: "openssl \<Rightarrow> 's IStorageBackend \<Rightarrow> (string \<Rightarrow> string \<Rightarrow> headers \<Rightarrow> stream \<Rightarrow> 's \<Rightarrow> string \<times> 's) \<Rightarrow> 's site" where
  "worker_site ossl B special =
     \<lparr>payload_limit = worker_payload_max,
      site_routes = [(''POST'', ''/chunk'', post_chunk ossl B), (''GET'', ''/chunk'', get_chunk B), (''DELETE'', ''/chunk'', delete_chunk B)],
      answer_special = special\<rparr>"

definition master_site :: "master_env \<Rightarrow> 's IMetadataRepository \<Rightarrow> (string \<Rightarrow> string \<Rightarrow> headers \<Rightarrow> stream \<Rightarrow> 's \<Rightarrow> string \<times> 's) \<Rightarrow> 's site" where
  "master_site env R special = \<lparr>payload_limit = master_payload_max, site_routes = master_routes env R, answer_special = special\<rparr>"

lemma worker_site_server: "site_server (worker_site ossl B special) = WorkerServer ossl B"
  by (simp add: site_server_def worker_site_def WorkerServer_def)

lemma master_site_server: "site_server (master_site env R special) = MasterServer env R"
  by (simp add: site_server_def master_site_def MasterServer_def)

section \<open>Both look at headers by name\<close>

lemma same_request_fields:
  assumes "same_request req req'"
  shows "req_method req = req_method req'" "req_path req = req_path req'" "req_body req = req_body req'"
    "get_param_value k req = get_param_value k req'" "has_param k req = has_param k req'"
  using assms by (simp_all add: same_request_def get_param_value_def has_param_def)

lemma same_request_headers:
  assumes "same_request req req'" and "lower_name k \<in> {''authorization'', ''x-cluster-secret''}"
  shows "has_header k req = has_header k req'" "get_header_value k req = get_header_value k req'"
proof -
  have "lower_name k \<noteq> lower_name n" if "n \<in> set library_names" for n
    using assms(2) that by (auto simp: library_names_def lower_names)
  then show "has_header k req = has_header k req'" "get_header_value k req = get_header_value k req'"
    using assms(1) by (auto simp: same_request_def)
qed

lemma serve_by_name:
  assumes "\<And>m p h req req'. (m, p, h) \<in> set routes \<Longrightarrow> same_request req req' \<Longrightarrow> h req = h req'"
  shows "reads_by_name (serve limit routes)"
  unfolding reads_by_name_def
proof (intro allI impI ext)
  fix req req' s
  assume same: "same_request req req'"
  note fields = same_request_fields [OF same]
  show "serve limit routes req s = serve limit routes req' s"
  proof (cases "List.find (\<lambda>(m, p, h). method_matches (req_method req') m \<and> p = req_path req') routes")
    case None
    show ?thesis unfolding serve_def fields None option.case by (rule refl)
  next
    case (Some r)
    obtain m p h where r: "r = (m, p, h)" by (cases r)
    then have same_answer: "h req = h req'" using find_Some_in [OF Some] assms same by blast
    show ?thesis unfolding serve_def fields Some r option.case prod.case same_answer by (rule refl)
  qed
qed

lemma worker_by_name: "reads_by_name (site_server (worker_site ossl B special))"
  unfolding site_server_def
proof (rule serve_by_name)
  fix m p h req req'
  assume route: "(m, p, h) \<in> set (site_routes (worker_site ossl B special))" and same: "same_request req req'"
  have "post_chunk ossl B req = post_chunk ossl B req'" "get_chunk B req = get_chunk B req'" "delete_chunk B req = delete_chunk B req'"
    unfolding post_chunk_def get_chunk_def delete_chunk_def same_request_fields [OF same] by (rule refl)+
  then show "h req = h req'" using route by (auto simp: worker_site_def)
qed

lemma authenticate_by_name: "same_request req req' \<Longrightarrow> AuthenticateUser env req = AuthenticateUser env req'"
proof -
  assume same: "same_request req req'"
  have "lower_name ''Authorization'' = ''authorization''" by code_simp
  then show ?thesis using same_request_headers [OF same, of "''Authorization''"] by (simp add: AuthenticateUser_def)
qed

lemma master_by_name: "reads_by_name (site_server (master_site env R special))"
  unfolding site_server_def
proof (rule serve_by_name)
  fix m p h req req'
  assume route: "(m, p, h) \<in> set (site_routes (master_site env R special))" and same: "same_request req req'"
  note fields = same_request_fields [OF same] and user = authenticate_by_name [OF same, of env]
  have secret: "has_header ''X-Cluster-Secret'' req = has_header ''X-Cluster-Secret'' req'"
    "get_header_value ''X-Cluster-Secret'' req = get_header_value ''X-Cluster-Secret'' req'"
  proof -
    have "lower_name ''X-Cluster-Secret'' = ''x-cluster-secret''" by code_simp
    then show "has_header ''X-Cluster-Secret'' req = has_header ''X-Cluster-Secret'' req'"
      "get_header_value ''X-Cluster-Secret'' req = get_header_value ''X-Cluster-Secret'' req'"
      using same_request_headers [OF same] by simp_all
  qed
  have "HandleHealthCheck env R req = HandleHealthCheck env R req'" "HandleSignup env R req = HandleSignup env R req'"
    "HandleLogin env R req = HandleLogin env R req'" "HandleUploadInit env R req = HandleUploadInit env R req'"
    "HandleCommit env R req = HandleCommit env R req'" "HandleDownloadPlan env R req = HandleDownloadPlan env R req'"
    "HandleHeartbeat env R req = HandleHeartbeat env R req'" "HandleAddCluster env R req = HandleAddCluster env R req'"
    "HandleReplaceCluster env R req = HandleReplaceCluster env R req'" "HandleFileExists env R req = HandleFileExists env R req'"
    "HandleDeleteFile env R req = HandleDeleteFile env R req'"
    unfolding HandleHealthCheck_def HandleSignup_def HandleLogin_def HandleUploadInit_def HandleCommit_def HandleDownloadPlan_def
      HandleHeartbeat_def HandleAddCluster_def HandleReplaceCluster_def HandleFileExists_def HandleDeleteFile_def
      authenticated_def fields user secret
    by (rule refl)+
  then show "h req = h req'" using route by (auto simp: master_site_def master_routes_def)
qed

section \<open>A chunk over the wire\<close>

lemma serve_result:
  obtains c where "c \<in> {400, 404, 413}" "serve limit routes req s = (Some (with_status c), s)"
    | m p h where "(m, p, h) \<in> set routes" "serve limit routes req s = run_handler (h req) s"
proof (cases "List.find (\<lambda>(m, p, h). method_matches (req_method req) m \<and> p = req_path req) routes")
  case None
  then show thesis using that(1) [of 400] that(1) [of 404] unfolding serve_def by (metis insertI1 insertI2 option.case(1))
next
  case (Some r)
  obtain m p h where r: "r = (m, p, h)" by (cases r)
  then have "(m, p, h) \<in> set routes" using find_Some_in [OF Some] by blast
  have eq: "serve limit routes req s =
      (if req_method req \<notin> {''GET'', ''HEAD'', ''POST'', ''PUT'', ''DELETE'', ''OPTIONS'', ''PATCH''} then (Some (with_status 400), s)
       else if limit < int (length (req_body req)) then (Some (with_status 413), s) else run_handler (h req) s)"
    unfolding serve_def Some r option.case prod.case by (rule refl)
  consider "serve limit routes req s = (Some (with_status 400), s)" | "serve limit routes req s = (Some (with_status 413), s)"
    | "serve limit routes req s = run_handler (h req) s"
    unfolding eq by argo
  then show thesis
    by cases (use that(1) [of 400] that(1) [of 413] that(2) [OF \<open>(m, p, h) \<in> set routes\<close>] in simp_all)
qed

lemma worker_plain:
  assumes "int (length (fst (op_LoadChunk B (get_param_value ''hash'' req) st))) \<le> client_payload_max"
  shows "pred_option plain_response (fst (WorkerServer ossl B req st))"
proof -
  have types: "is_field_value ''text/plain''" "is_field_value ''application/octet-stream''" "is_field_value []"
    by code_simp+
  have run: "pred_option plain_response (fst (run_handler h st))"
    if "\<And>e s'. h st = (Inl e, s') \<Longrightarrow> True" "\<And>res s'. h st = (Inr res, s') \<Longrightarrow> plain_response res" for h
    using that(2)
    by (auto simp: run_handler_def plain_response_def with_status_def new_Response_def client_payload_max_def types split: prod.split sum.split)
  have post: "plain_response res" if "post_chunk ossl B req st = (Inr res, s')" for res s'
    using that by (auto simp: post_chunk_def Let_def outcome_simps with_status_def new_Response_def set_content_def plain_response_def
        client_payload_max_def types split: if_splits sum.splits prod.splits)
  have fetch: "plain_response res" if "get_chunk B req st = (Inr res, s')" for res s'
    using that assms by (auto simp: get_chunk_def with_status_def new_Response_def set_content_def plain_response_def
        client_payload_max_def types split: if_splits prod.splits)
  have drop: "plain_response res" if "delete_chunk B req st = (Inr res, s')" for res s'
    using that by (auto simp: delete_chunk_def with_status_def new_Response_def set_content_def plain_response_def
        client_payload_max_def types split: if_splits prod.splits)
  have status: "plain_response (with_status 400)" "plain_response (with_status 404)" "plain_response (with_status 413)"
    by (simp_all add: plain_response_def with_status_def new_Response_def client_payload_max_def types)
  let ?routes = "[(''POST'', ''/chunk'', post_chunk ossl B), (''GET'', ''/chunk'', get_chunk B), (''DELETE'', ''/chunk'', delete_chunk B)]"
  show ?thesis unfolding WorkerServer_def
  proof (rule serve_result [of worker_payload_max ?routes req st])
    fix c :: int
    assume "c \<in> {400, 404, 413}" "serve worker_payload_max ?routes req st = (Some (with_status c), st)"
    then show "pred_option plain_response (fst (serve worker_payload_max ?routes req st))" using status by auto
  next
    fix m p h
    assume "(m, p, h) \<in> set ?routes" and "serve worker_payload_max ?routes req st = run_handler (h req) st"
    then show "pred_option plain_response (fst (serve worker_payload_max ?routes req st))" using post fetch drop by (auto intro!: run)
  qed
qed

text \<open>A network that hands over one byte at a time and turns the order of the headers round.\<close>

definition slow_wire :: wire where
  "slow_wire = \<lparr>cut = map (\<lambda>c. [c]), arrange = rev, arrange_back = rev, prompt = True, late_write = False,
     unit_interval = (\<lambda>_. True)\<rparr>"

lemma slow_wire_delivers: "delivers slow_wire"
  by (auto simp: delivers_def slow_wire_def)

definition sample_site :: "disk_world site" where
  "sample_site = worker_site sample_ossl (LocalDiskBackend sample_ossl) (\<lambda>_ _ _ _ w. ([], w))"

lemma wire_refines_exchange_witness:
  "map_option content_of (fst (wire_exchange slow_wire sample_site ''localhost'' 8080 False ''POST''
     (with_param ''/chunk'' ''hash'' run_hash) [] ''chunk'' ''application/octet-stream'' run_storage)) = Some (200, ''OK'')"
proof -
  let ?target = "with_param ''/chunk'' ''hash'' run_hash"
  have server: "site_server sample_site = WorkerServer sample_ossl (LocalDiskBackend sample_ossl)"
    unfolding sample_site_def by (rule worker_site_server)
  have answer: "fst (exchange (site_server sample_site) ''POST'' ?target [] ''chunk'' run_storage) =
      Some \<lparr>res_status = 200, res_body = ''OK'', res_type = ''text/plain''\<rparr>"
    unfolding server by code_simp
  have "length (sent_target ?target) \<le> 80" by code_simp
  then have "sendable [] ?target" by (simp add: sendable_def max_uri_def)
  moreover have "list_all line_char (sent_target ?target)" "sent_target ?target \<noteq> []" "client_method ''POST''" by code_simp+
  moreover have "call_fits ''localhost'' 8080 ''application/octet-stream'' []"
    unfolding call_fits_def names_distinct_def by code_simp
  moreover have "plain_response \<lparr>res_status = 200, res_body = ''OK'', res_type = ''text/plain''\<rparr>"
    by (simp add: plain_response_def constants_valid client_payload_max_def)
  then have "pred_option plain_response (fst (exchange (site_server sample_site) ''POST'' ?target [] ''chunk'' run_storage))"
    unfolding answer by simp
  moreover have "int (length ''chunk'') \<le> payload_limit sample_site" "payload_limit sample_site < 2 ^ 64"
    by (simp_all add: sample_site_def worker_site_def worker_payload_max_def)
  ultimately have "within_limits slow_wire sample_site ''localhost'' 8080 ''POST'' ?target [] ''chunk'' ''application/octet-stream'' run_storage"
    unfolding within_limits_def using slow_wire_delivers by blast
  moreover have "reads_by_name (site_server sample_site)" unfolding sample_site_def by (rule worker_by_name)
  ultimately have "map_prod (map_option content_of) id (wire_exchange slow_wire sample_site ''localhost'' 8080 False ''POST''
      ?target [] ''chunk'' ''application/octet-stream'' run_storage) =
    map_prod (map_option content_of) id (exchange (site_server sample_site) ''POST'' ?target [] ''chunk'' run_storage)"
    by (rule wire_refines_exchange)
  then show ?thesis using answer by (simp add: prod_eq_iff content_of_def)
qed

end
