(* ===== verification/Spec2Isabelle.thy ===== *)
theory Spec2Isabelle
  imports File_Catalog Cluster_Balance Collector Shutdown Disk_Reservations Worker_Server Json_Roundtrip Tenants
    Cluster_Run Upload_Tasks Command_Line Server_Programs Thread_Pool Schema Server_Sites
begin

text \<open>
  A distributed storage engine: a command line client that cuts files into chunks named by their
  SHA-256 hashes, stateless masters over one PostgreSQL database, and workers that hold the chunks
  encrypted on their disks. This root theory only gathers the development; each theory below models one
  part of the program, in the order the program uses them, and proves what makes that part correct.

  \<^bold>\<open>How the program works.\<close> To upload, the client (\<^verbatim>\<open>client/DSEClient.cpp\<close>) asks the master whether
  the name is free, hashes the file chunk by chunk (first pass), keeps a manifest on its disk, and sends
  all hashes to \<^verbatim>\<open>/upload-init\<close>. The master answers which chunks nobody has stored and on which nodes
  they belong: the leading digits of a hash give a bucket, the shard map gives the bucket's cluster, and the
  cluster its nodes. The client posts the missing chunks to every node of their plan (second pass, a pool of
  threads behind a semaphore), and commits the file, which raises the reference count of each of its chunks. A
  download asks for the plan of the file and fetches, checks and writes the chunks in parallel. A daily sweep of
  the master marks unreferenced chunks older than a day with a tombstone (a count of -1), deletes them
  from the workers and drops or reverts the records. Workers announce themselves by heartbeats.

  \<^bold>\<open>Conventions.\<close> An action of type \<open>('s, 'a) action\<close> reads and changes a state and returns a value or
  one of the exceptions of \<open>Prelude.exn\<close>; \<open>Trap\<close> is the end of the process (a failed assertion, a division by
  zero, \<^verbatim>\<open>std::terminate\<close>), which no handler catches. \<open>andthen\<close> is the semicolon. Integers are of type \<open>int\<close>
  within ranges that are stated (\<open>int_range\<close>, \<open>llong_range\<close>) and converted where the code converts
  (\<open>to_int32\<close>, \<open>to_llong\<close>, \<open>to_size_t\<close>); where the code computes modulo a power of two, in the bucket of a hash
  and the report of an upload, they are machine words. Bytes and texts are lists of characters. Definitions
  carry the names of the code; a suffix \<open>_call\<close> tells a request of the client from the operation of the
  repository that has the same name.

  \<^bold>\<open>Shared ground.\<close> \<^verbatim>\<open>Prelude\<close> has the exceptions, the actions with their rules (\<open>outcome_simps\<close>, one statement at
  a time; \<open>preserves_intros\<close> for invariants) and lemmas on lists. \<^verbatim>\<open>Models\<close> is \<^verbatim>\<open>common/models.hpp\<close> and the ranges of the
  C++ types. \<^verbatim>\<open>Std_Text\<close> is what the program uses of the standard library on texts: \<^verbatim>\<open>to_string\<close>, \<^verbatim>\<open>stoi\<close>,
  \<^verbatim>\<open>stoll\<close>, \<^verbatim>\<open>stoul\<close>, extraction of integers, hexadecimal digits. \<^verbatim>\<open>Crypto\<close> is \<^verbatim>\<open>common/crypto.hpp\<close> over a record of
  the OpenSSL calls, whose documented behaviour is the hypothesis \<open>cipher_ok\<close>: what is encrypted decrypts to
  itself, and a token verifies to the user it was issued to until it expires and has the signature of the secret.

  \<^bold>\<open>JSON\<close> (\<^verbatim>\<open>common/json.hpp\<close>). \<^verbatim>\<open>Json_Text\<close> is the lexer, \<^verbatim>\<open>Json\<close> the values, the parser with its stack of
  open arrays and objects and the accessors, \<^verbatim>\<open>Json_Dump\<close> the serializer with its UTF-8 decoder and its integer
  printer. \<^verbatim>\<open>Json_Strings\<close> and \<^verbatim>\<open>Json_Roundtrip\<close> prove that the parser reads back what the serializer writes, compact or
  indented; \<^verbatim>\<open>Json_Wire\<close> turns this into what a receiver finds in a message.

  \<^bold>\<open>HTTP\<close> (\<^verbatim>\<open>common/httplib.h\<close>). \<^verbatim>\<open>Http\<close> is the part the handlers meet: requests, responses, headers, parameters, the
  dispatch over the routes, the limit on bodies and the catching of exceptions. \<^verbatim>\<open>Url_Transport\<close> is the way of a target
  from the client to the server: normalising, encoding, the request line, parsing, decoding, the limits. Its main
  result says which names arrive as they were sent. Five theories go down to the bytes. \<^verbatim>\<open>Http_Stream\<close> is a
  connection as each side reads it, the pieces that have arrived and those to come, with the reading of lines and of
  bodies; what holds of any source of bytes is proved in the locale \<open>byte_source\<close>, of which a socket and a
  buffer are instances. \<^verbatim>\<open>Http_Messages\<close> has status lines and headers, \<^verbatim>\<open>Http_Bodies\<close> the chunked coding and
  the choice between the ways a body is framed, \<^verbatim>\<open>Http_Exchange\<close> both sides of a request with the interim response
  that a large body waits for (\<^verbatim>\<open>ClientImpl::process_request\<close>, \<^verbatim>\<open>Server::process_request\<close>). \<^verbatim>\<open>Wire_Refinement\<close>
  proves that a request within the limits gets over the wire the status and content that \<open>exchange\<close>, the abstract
  form used everywhere else, gives it, and \<^verbatim>\<open>Server_Sites\<close> that this is so for the master and the workers.
  \<^verbatim>\<open>Thread_Pool\<close> holds the semaphore of \<^verbatim>\<open>common/Semaphore.hpp\<close> and the
  thread pool as interleavings of their critical sections: permits are bounded, no waiter is forgotten, no
  job is lost or run twice.

  \<^bold>\<open>The master\<close> (\<^verbatim>\<open>master/\<close>). \<^verbatim>\<open>Database\<close> has the tables of \<^verbatim>\<open>db/init.sql\<close>, the transaction, and the documented
  behaviour of PostgreSQL that is relied on (\<open>pg_ok\<close>). \<^verbatim>\<open>Repository\<close> is \<^verbatim>\<open>PostgresRepository.hpp\<close>, one definition
  per method; \<^verbatim>\<open>Repository_Facts\<close> gives each as an equation between the tables before and after. \<^verbatim>\<open>Store_Invariant\<close> and
  \<^verbatim>\<open>Store_Safety\<close> speak of the reachable states, \<open>db_reachable nb K\<close>: every operation may come at any time and with any arguments,
  and the one restriction is on the hashes of the set \<open>K\<close>, which every commit that stores them finds live. The code of a commit
  does not check this (\<^verbatim>\<open>File_Catalog\<close> has a run in which a commit out of turn costs another user a chunk), the protocol of the
  clients provides it. With \<open>K\<close> empty nothing is restricted, which is how routes, balance, retirement and schema are stated. In
  these states the reference counts cover the files as far as \<open>K\<close> goes, so that no such chunk of a file becomes an orphan. \<^verbatim>\<open>File_Catalog\<close>
  says what plans and deletions say; \<^verbatim>\<open>Cluster_Balance\<close> that every hash has a route, how clusters share the buckets, and
  that a retired worker stays so; \<^verbatim>\<open>Schema\<close> that the constraints of \<^verbatim>\<open>init.sql\<close>, most of which the insertions test as the
  database does, hold throughout.
  \<^verbatim>\<open>Metadata_Interface\<close> is the abstract class \<^verbatim>\<open>IMetadataRepository.hpp\<close> with the contract \<open>collectable\<close>, on which \<^verbatim>\<open>Collector\<close>,
  the garbage collector of \<^verbatim>\<open>main.cpp\<close>, rests. A client of the repository is not alone with it: \<open>busy others\<close> lets the rest of
  the system change the tables after each operation, and the sweep is shown safe in such company. \<^verbatim>\<open>Master_Server\<close> is \<^verbatim>\<open>MasterServer.hpp\<close>, the authentication and the
  eleven handlers over any repository, with the contract \<open>multi_tenant\<close>; \<^verbatim>\<open>Tenants\<close> proves that contract for the
  real repository and follows sign-up and log-in through it.

  \<^bold>\<open>The workers\<close> (\<^verbatim>\<open>worker/\<close>). \<^verbatim>\<open>Disk_Storage\<close> is \<^verbatim>\<open>LocalDiskStorage.hpp\<close> over files and an operating system whose calls
  may fail or write a prefix, with the contract \<open>chunk_backend\<close>; \<^verbatim>\<open>Disk_Reservations\<close> lets saves interleave and accounts for
  their bytes; \<^verbatim>\<open>Worker_Server\<close> is \<^verbatim>\<open>WorkerServer.hpp\<close>: what is served under a hash has that hash.
  \<^verbatim>\<open>Server_Programs\<close> reads the configuration of both servers and follows a heartbeat into the master's repository;
  \<^verbatim>\<open>Shutdown\<close> has their signals, main loop, HTTP thread and background thread as interleavings, when they end and two ways in which they
  do not.

  \<^bold>\<open>The client\<close> (\<^verbatim>\<open>client/\<close>). \<^verbatim>\<open>Client_World\<close> is what the program acts on: files, a stream, its token, the network, and
  an operating system that answers its calls by their number, lets other programs change files in between, refuses
  calls and delivers signals. \<^verbatim>\<open>Metadata_Client\<close> is \<^verbatim>\<open>MasterHttpClient.cpp\<close>: over a network that delivers, each call is
  the repository's operation. \<^verbatim>\<open>File_Slicer\<close> is \<^verbatim>\<open>LocalFileSlicer.cpp\<close> with the contract \<open>file_slicer\<close>: both passes agree.
  \<^verbatim>\<open>State_Manager\<close> is \<^verbatim>\<open>LocalStateManager.cpp\<close> with the contract \<open>upload_journal\<close>: what is saved is found again.
  \<^verbatim>\<open>Transfer_Manager\<close> and \<^verbatim>\<open>Download_Manager\<close> are the halves of \<^verbatim>\<open>ParallelTransferManager.cpp\<close>; the upload rests on the contract
  \<open>chunk_network\<close>, which \<^verbatim>\<open>Chunk_Fleet\<close> proves for a fleet of workers behind a network that loses requests and responses (\<open>lossy\<close>). \<^verbatim>\<open>DSE_Client\<close> composes them as \<^verbatim>\<open>DSEClient.cpp\<close>
  does, \<^verbatim>\<open>Upload_Tasks\<close> looks at the tasks and the report of an upload, \<^verbatim>\<open>Command_Line\<close> is \<^verbatim>\<open>cli/CLI.cpp\<close>.

  \<^bold>\<open>The whole.\<close> \<^verbatim>\<open>Upload_Session\<close> states what the client needs of the master as the contract \<open>file_catalog\<close> and proves in it
  that an upload is recorded and a download restores what is recorded. \<^verbatim>\<open>Cluster\<close> joins a client, the master over its
  database, in company, and the workers in one network and proves the contract for it, by matching each call with the same call
  before the master alone. \<^verbatim>\<open>Cluster_Run\<close> has the result, that what is uploaded is downloaded while others use the system
  (\<open>company\<close> says what they must leave alone), and a complete run.

  \<^bold>\<open>Bounds and fuel.\<close> The retries of an upload (three attempts) recurse on their number; the parser and the other
  recursive functions have termination proofs. The sweep of the collector may run as long as the database
  hands out new orphans; its fuel is the list of the schedules of its rounds, and \<open>sweep_terminates\<close> shows that with commits
  that go through and a clock that stays within a day one more round than there are orphans at the start is enough. The
  readers of lines, bodies and chunks end because each step takes bytes off what the connection delivers. The order in which a pool runs its tasks is a schedule
  that the run is given, any list of task numbers; tasks it leaves out are run when their futures are awaited. The size
  of a chunk is an argument of the client's operations, 1 MiB in the command line.

  \<^bold>\<open>Parameters and their hypotheses.\<close> Code that is not part of the repository is an argument: OpenSSL
  (\<open>cipher_ok\<close>, \<open>random_ok\<close>), PostgreSQL (\<open>pg_ok\<close>), the calls of the operating system (\<open>quiet\<close>: they work and
  no other program touches the files; \<open>full_writes\<close>: a disk cuts no write short), the network (\<open>reliable\<close>, or
  arbitrary), and how a floating-point number is printed. Below the level of \<open>exchange\<close> the network is a record \<open>wire\<close>:
  in which pieces bytes arrive, in which order a side writes its headers (they are kept in an unordered map), whether the
  interim response comes in time, whether a body can be sent to a peer that has answered; its hypothesis is that no byte is lost,
  added or reordered (\<open>delivers\<close>). Which texts are numbers between 0 and 1 (the quality in \<^verbatim>\<open>Accept\<close>) and what is answered to a
  request with ranges or form data are arguments too; the clients of the system send neither. Each theorem with such a hypothesis is followed by a witness that
  runs it on concrete functions.

  \<^bold>\<open>Not modelled.\<close> Sockets and their timeouts, TLS, proxies, redirects, compression, multipart bodies, ranges, WebSockets, the mounting of
  directories and several requests on one connection in \<^verbatim>\<open>httplib.h\<close>, which the program does not use or of which it sees a
  response or none; the binary formats, pointers, patches and callbacks of \<^verbatim>\<open>json.hpp\<close>, which the program
  never calls; the printing of floating-point numbers; log messages, usage texts and the clocks that time
  the phases of a transfer; the pauses between attempts; the client's own limit of 100 MiB on the body of a response at the level of \<open>exchange\<close>, where it
  is left to the network (the wire has it); isolation below that of serial transactions inside PostgreSQL (two deletions of one file at the same
  time, for example, release its chunks twice at \<^verbatim>\<open>READ COMMITTED\<close>), apart from the rows that \<^verbatim>\<open>SKIP LOCKED\<close> hides; other requests between
  the rounds of a sweep in the theorem that it ends; build files, containers, the load balancer and the integration test.
\<close>

end
